(* ===== verification/Prelude.thy ===== *)
theory Prelude
  imports Main "HOL-Library.Word"
begin

text \<open>
  Shared vocabulary of the development.  C's fixed-width unsigned integers are
  words of HOL-Library.Word, guest bytes are lists of 8-bit words, and the
  little-endian accessors of \<^verbatim>\<open>include/qemu/bswap.h\<close> and the bit-field
  accessors of \<^verbatim>\<open>include/qemu/bitops.h\<close> are given here once for every
  component.  Two collections carry the automation: \<open>layout_simps\<close> holds the
  byte-layout facts (lengths, slices, round trips) and \<open>dev_simps\<close> the
  unfolding facts of small device predicates.
\<close>

unbundle bit_operations_syntax

named_theorems layout_simps "lengths, slices and round trips of byte layouts"
named_theorems dev_simps "unfolding facts of small device operations"

type_synonym u8 = "8 word"
type_synonym u16 = "16 word"
type_synonym u32 = "32 word"
type_synonym u64 = "64 word"
type_synonym bytes = "u8 list"

subsection \<open>Little-endian integers\<close>

text \<open>
  \<open>le_nat\<close> reads a byte list as a little-endian number (what
  \<^verbatim>\<open>ldn_le_p\<close> computes byte by byte), \<open>nat_le\<close> writes one back
  (\<^verbatim>\<open>stn_le_p\<close>).
\<close>

fun le_nat :: "bytes \<Rightarrow> nat" where
  "le_nat [] = 0"
| "le_nat (b # bs) = unat b + 256 * le_nat bs"

fun nat_le :: "nat \<Rightarrow> nat \<Rightarrow> bytes" where
  "nat_le 0 k = []"
| "nat_le (Suc n) k = of_nat (k mod 256) # nat_le n (k div 256)"

definition le16 :: "bytes \<Rightarrow> u16" where
  "le16 bs = of_nat (le_nat (take 2 bs))"

definition le32 :: "bytes \<Rightarrow> u32" where
  "le32 bs = of_nat (le_nat (take 4 bs))"

definition le64 :: "bytes \<Rightarrow> u64" where
  "le64 bs = of_nat (le_nat (take 8 bs))"

definition to_le16 :: "u16 \<Rightarrow> bytes" where
  "to_le16 w = nat_le 2 (unat w)"

definition to_le32 :: "u32 \<Rightarrow> bytes" where
  "to_le32 w = nat_le 4 (unat w)"

definition to_le64 :: "u64 \<Rightarrow> bytes" where
  "to_le64 w = nat_le 8 (unat w)"

definition bslice :: "nat \<Rightarrow> nat \<Rightarrow> 'a list \<Rightarrow> 'a list" where
  "bslice off n xs = take n (drop off xs)"

text \<open>\<open>memcpy\<close> of \<open>src\<close> to offset \<open>off\<close> of a buffer that is long enough.\<close>

definition bsplice :: "nat \<Rightarrow> 'a list \<Rightarrow> 'a list \<Rightarrow> 'a list" where
  "bsplice off src buf = take off buf @ src @ drop (off + length src) buf"

subsection \<open>Bit fields\<close>

definition extract32 :: "u32 \<Rightarrow> nat \<Rightarrow> nat \<Rightarrow> u32" where
  "extract32 v start len = drop_bit start v AND drop_bit (32 - len) (NOT 0)"

definition sextract32 :: "u32 \<Rightarrow> nat \<Rightarrow> nat \<Rightarrow> u32" where
  "sextract32 v start len = signed_drop_bit (32 - len) (push_bit (32 - len - start) v)"

definition sextract64 :: "u64 \<Rightarrow> nat \<Rightarrow> nat \<Rightarrow> u64" where
  "sextract64 v start len = signed_drop_bit (64 - len) (push_bit (64 - len - start) v)"

subsection \<open>Generic lemmas\<close>

lemma unat_bounds:
  "unat (a :: u8) < 256" "unat (b :: u16) < 65536" "unat (c :: u32) < 4294967296"
  "unat (d :: u64) < 18446744073709551616"
  by (rule order_less_le_trans [OF unsigned_less], simp)+

lemma nat_le_numeral:
  "nat_le (numeral k) v = of_nat (v mod 256) # nat_le (pred_numeral k) (v div 256)"
  unfolding numeral_eq_Suc [of k] by (rule nat_le.simps(2))

lemma unat_ucast_up [simp]:
  "unat (ucast (a :: u8) :: u64) = unat a" "unat (ucast (b :: u16) :: u64) = unat b"
  "unat (ucast (c :: u32) :: u64) = unat c" "unat (ucast (a :: u8) :: u32) = unat a"
  "unat (ucast (b :: u16) :: u32) = unat b" "unat (ucast (a :: u8) :: u16) = unat a"
  using unat_bounds(1) [of a] unat_bounds(2) [of b] unat_bounds(3) [of c]
  by (simp_all add: unsigned_ucast_eq take_bit_nat_eq_self)

lemma ucast_ucast_down [simp]:
  "ucast (ucast (c :: u32) :: u64) = c" "ucast (ucast (b :: u16) :: u64) = b" "ucast (ucast (a :: u8) :: u64) = a"
  "ucast (ucast (b :: u16) :: u32) = b" "ucast (ucast (a :: u8) :: u32) = a"
  by (auto intro!: bit_eqI simp: bit_simps)

lemma length_nat_le [simp, layout_simps]: "length (nat_le n k) = n"
  by (induction n arbitrary: k) auto

lemma le_nat_nat_le: "le_nat (nat_le n k) = k mod 256 ^ n"
proof (induction n arbitrary: k)
  case 0
  then show ?case by simp
next
  case (Suc n)
  have "unat (of_nat (k mod 256) :: u8) = k mod 256"
    by (simp add: unat_of_nat)
  then show ?case
    by (simp add: Suc.IH mod_mult2_eq)
qed

lemma le_nat_bound: "le_nat bs < 256 ^ length bs"
proof (induction bs)
  case Nil
  then show ?case by simp
next
  case (Cons b bs)
  have "unat b < 256" by (rule unat_bounds)
  with Cons show ?case by simp
qed

lemma nat_le_le_nat: "nat_le (length bs) (le_nat bs) = bs"
proof (induction bs)
  case Nil
  then show ?case by simp
next
  case (Cons b bs)
  have b: "unat b < 256" by (rule unat_bounds)
  then have "of_nat ((unat b + 256 * le_nat bs) mod 256) = b" by simp
  moreover have "(unat b + 256 * le_nat bs) div 256 = le_nat bs" using b by simp
  ultimately show ?case using Cons by simp
qed

lemma length_to_le [simp, layout_simps]:
  "length (to_le16 a) = 2" "length (to_le32 b) = 4" "length (to_le64 c) = 8"
  by (simp_all add: to_le16_def to_le32_def to_le64_def)

lemma le16_to_le16 [simp, layout_simps]: "le16 (to_le16 w @ bs) = w"
  using unat_bounds
  by (simp add: le16_def to_le16_def le_nat_nat_le)

lemma le32_to_le32 [simp, layout_simps]: "le32 (to_le32 w @ bs) = w"
  using unat_bounds
  by (simp add: le32_def to_le32_def le_nat_nat_le)

lemma le64_to_le64 [simp, layout_simps]: "le64 (to_le64 w @ bs) = w"
  using unat_bounds
  by (simp add: le64_def to_le64_def le_nat_nat_le)

lemma le_to_le_nil [simp, layout_simps]:
  "le16 (to_le16 a) = a" "le32 (to_le32 b) = b" "le64 (to_le64 c) = c"
  using le16_to_le16 [of a "[]"] le32_to_le32 [of b "[]"] le64_to_le64 [of c "[]"]
  by simp_all

lemma to_le_le:
  "length bs = 2 \<Longrightarrow> to_le16 (le16 bs) = bs" "length bs = 4 \<Longrightarrow> to_le32 (le32 bs) = bs"
  "length bs = 8 \<Longrightarrow> to_le64 (le64 bs) = bs"
  using le_nat_bound [of bs] nat_le_le_nat [of bs]
  by (simp_all add: to_le16_def le16_def to_le32_def le32_def to_le64_def le64_def unat_of_nat)

lemma le32_append [layout_simps]: "4 \<le> length xs \<Longrightarrow> le32 (xs @ ys) = le32 xs"
  by (simp add: le32_def)

lemma le64_append [layout_simps]: "8 \<le> length xs \<Longrightarrow> le64 (xs @ ys) = le64 xs"
  by (simp add: le64_def)

lemma length_bslice [simp, layout_simps]: "length (bslice off n xs) = min n (length xs - off)"
  by (simp add: bslice_def)

lemma bslice_append_right [layout_simps]:
  "length xs \<le> off \<Longrightarrow> bslice off n (xs @ ys) = bslice (off - length xs) n ys"
  by (simp add: bslice_def)

lemma bslice_append_left [layout_simps]:
  "off + n \<le> length xs \<Longrightarrow> bslice off n (xs @ ys) = bslice off n xs"
  by (simp add: bslice_def)

lemma bslice_0_all [layout_simps]: "length xs = n \<Longrightarrow> bslice 0 n xs = xs"
  by (simp add: bslice_def)

lemma length_bsplice [simp, layout_simps]:
  "off + length src \<le> length buf \<Longrightarrow> length (bsplice off src buf) = length buf"
  by (simp add: bsplice_def)

lemma nth_bsplice:
  "off + length src \<le> length buf \<Longrightarrow> i < length buf \<Longrightarrow> bsplice off src buf ! i =
    (if i < off then buf ! i else if i < off + length src then src ! (i - off) else buf ! i)"
  by (auto simp: bsplice_def nth_append)

lemma bslice_bsplice_same [layout_simps]:
  "off + length src \<le> length buf \<Longrightarrow> bslice off (length src) (bsplice off src buf) = src"
  by (simp add: bslice_def bsplice_def)

lemma bslice_bsplice_before [layout_simps]:
  "off + length src \<le> length buf \<Longrightarrow> o' + n \<le> off \<Longrightarrow> bslice o' n (bsplice off src buf) = bslice o' n buf"
  by (simp add: bslice_def bsplice_def drop_take take_append)

lemma bslice_bsplice_after [layout_simps]:
  assumes "off + length src \<le> length buf" and "off + length src \<le> o'"
  shows "bslice o' n (bsplice off src buf) = bslice o' n buf"
proof -
  have "drop o' (bsplice off src buf) = drop o' buf"
    using assms by (simp add: bsplice_def drop_append)
  then show ?thesis by (simp add: bslice_def)
qed

lemma extract32_take_bit: "0 < len \<Longrightarrow> len \<le> 32 \<Longrightarrow> extract32 v start len = take_bit len (drop_bit start v)"
  unfolding extract32_def
  by (rule bit_eqI) (auto simp: bit_simps)

lemma unat_extract32_less: "0 < len \<Longrightarrow> len \<le> 32 \<Longrightarrow> unat (extract32 v start len) < 2 ^ len"
proof -
  assume "0 < len" "len \<le> 32"
  then have "unat (extract32 v start len) = take_bit len (unat (drop_bit start v))"
    by (simp add: extract32_take_bit unsigned_take_bit_eq)
  then show ?thesis by simp
qed

section \<open>Powers of two\<close>

lemma and_pred_power: "0 < (n :: nat) \<Longrightarrow> n AND (n - 1) = 0 \<Longrightarrow> \<exists>k. n = 2 ^ k"
proof (induction n rule: less_induct)
  case (less n)
  show ?case
  proof (cases "even n")
    case True
    then obtain m where m: "n = 2 * m" by blast
    then have "n - 1 = 2 * (m - 1) + 1" using less.prems by simp
    then have "n AND (n - 1) = 2 * (m AND (m - 1))" using m
      by (simp add: and_rec [of "2 * m"] )
    then have "m AND (m - 1) = 0" using less.prems by simp
    moreover have "0 < m" "m < n" using m less.prems by auto
    ultimately obtain k where "m = 2 ^ k" using less.IH by blast
    then have "n = 2 ^ Suc k" using m by simp
    then show ?thesis by blast
  next
    case False
    then obtain m where m: "n = 2 * m + 1" by (elim oddE)
    then have "n AND (n - 1) = 2 * m" by (simp add: and_rec [of "Suc (2 * m)"])
    then have "n = 2 ^ 0" using less.prems m by simp
    then show ?thesis by blast
  qed
qed

lemma unat_2p: "k < 64 \<Longrightarrow> unat (2 ^ k :: u64) = 2 ^ k"
proof -
  assume "k < 64"
  then have "unat (of_nat (2 ^ k) :: u64) = 2 ^ k" by (simp only: unsigned_of_nat take_bit_nat_eq_self_iff) simp
  then show ?thesis by simp
qed

lemma page_size_power:
  assumes "(w :: u64) \<noteq> 0" and "w AND (w - 1) = 0"
  obtains k where "k < 64" "w = 2 ^ k" "w - 1 = mask k"
proof -
  have "unat w AND (unat w - 1) = 0" using assms by (metis unat_minus_one unsigned_0 unsigned_and_eq)
  moreover have "0 < unat w" using assms(1) by (simp add: unat_gt_0)
  ultimately obtain k where k: "unat w = 2 ^ k" using and_pred_power by blast
  have "k < 64"
  proof (rule ccontr)
    assume "\<not> k < 64"
    then have "(2 :: nat) ^ 64 \<le> 2 ^ k" by (intro power_increasing) simp_all
    then show False using k unat_bounds(4) [of w] by simp
  qed
  then have "w = 2 ^ k" using k \<open>k < 64\<close> by (simp add: word_unat_eq_iff unat_2p)
  then show thesis using that \<open>k < 64\<close> by (simp add: mask_eq_exp_minus_1)
qed
lemma aligned_take_bit:
  assumes "(w :: u64) \<noteq> 0" "w AND (w - 1) = 0" "push_bit n 1 \<le> w" "n < 64"
  shows "take_bit n (g AND NOT (w - 1)) = 0"
proof -
  obtain k where k: "k < 64" "w = 2 ^ k" "w - 1 = mask k" using page_size_power [OF assms(1,2)] .
  have "(2 :: nat) ^ n \<le> 2 ^ k"
    using assms(3,4) k(1,2) by (simp add: word_le_nat_alt push_bit_eq_mult unat_2p)
  then have "n \<le> k" by simp
  then show ?thesis unfolding k(3)
    by (intro bit_eqI) (auto simp: bit_take_bit_iff bit_and_iff bit_not_iff bit_mask_iff)
qed

lemma aligned_push_bit: "take_bit n (x :: u64) = 0 \<longleftrightarrow> x = push_bit n (drop_bit n x)"
  using bits_ident [of n x] by (metis add.right_neutral take_bit_push_bit diff_self_eq_0 take_bit_0 push_bit_of_0)

lemma aligned_add_diff:
  assumes "take_bit n (x :: u64) = 0" and "take_bit n y = 0"
  shows "take_bit n (x + y) = 0" and "take_bit n (x - y) = 0"
proof -
  have "x + y = push_bit n (drop_bit n x + drop_bit n y)" "x - y = push_bit n (drop_bit n x - drop_bit n y)"
    using assms by (simp_all add: aligned_push_bit push_bit_eq_mult algebra_simps)
  then show "take_bit n (x + y) = 0" and "take_bit n (x - y) = 0" by (simp_all add: take_bit_push_bit)
qed

end
