(* ===== verification/Guest_Memory.thy ===== *)
theory Guest_Memory
  imports Prelude
begin

text \<open>
  The system address space as the devices of the machine see it: a flat view of
  memory regions and the bytes of the RAM blocks behind them
  (\<^verbatim>\<open>system/physmem.c\<close>, \<^verbatim>\<open>include/system/dma.h\<close>).  The read and
  write loops are the code's: each round translates the next address, clamps a
  RAM access to its section and a dispatched access to
  \<^verbatim>\<open>memory_access_size\<close>, and ORs the transaction results.  A region that is
  not direct memory is answered the way \<^verbatim>\<open>unassigned_mem_ops\<close> answers
  (rejected with \<^verbatim>\<open>MEMTX_DECODE_ERROR\<close>, reads yield zero); device MMIO as a
  DMA target is outside this model.

  The locale \<open>dma_bus\<close> is the contract the device models rely on; it is
  interpreted on the loops at the end of the theory.
\<close>

subsection \<open>Transaction results, regions and the flat view\<close>

type_synonym MemTxResult = u32

abbreviation (input) MEMTX_OK :: MemTxResult where "MEMTX_OK \<equiv> 0"
abbreviation (input) MEMTX_DECODE_ERROR :: MemTxResult where "MEMTX_DECODE_ERROR \<equiv> 2"
abbreviation (input) MEMTX_ACCESS_ERROR :: MemTxResult where "MEMTX_ACCESS_ERROR \<equiv> 4"

record MemoryRegion =
  mr_id :: nat
  mr_ram :: bool
  mr_readonly :: bool
  mr_rom_device :: bool
  mr_romd_mode :: bool
  mr_ram_device :: bool
  mr_host :: u64
  mr_ram_addr :: u64

definition memory_region_is_romd :: "MemoryRegion \<Rightarrow> bool" where
  "memory_region_is_romd mr \<longleftrightarrow> mr_rom_device mr \<and> mr_romd_mode mr"

definition memory_access_is_direct :: "MemoryRegion \<Rightarrow> bool \<Rightarrow> bool" where
  "memory_access_is_direct mr is_write \<longleftrightarrow>
     (memory_region_is_romd mr \<or> mr_ram mr) \<and>
     (is_write \<longrightarrow> \<not> mr_readonly mr \<and> \<not> mr_rom_device mr)"

record FlatRange =
  fr_start :: nat
  fr_size :: nat
  fr_mr :: MemoryRegion
  fr_offset :: u64

record guest_mem =
  gm_view :: "FlatRange list"
  gm_ram :: "u64 \<Rightarrow> u8"

definition section_covers_addr :: "u64 \<Rightarrow> FlatRange \<Rightarrow> bool" where
  "section_covers_addr addr fr \<longleftrightarrow> fr_start fr \<le> unat addr \<and> unat addr < fr_start fr + fr_size fr"

text \<open>
  \<open>None\<close> is the unassigned section, which spans the whole space at offset 0.
  The result is the section, the offset in its region and the clamped length.
\<close>

definition address_space_translate_internal ::
    "guest_mem \<Rightarrow> u64 \<Rightarrow> nat \<Rightarrow> FlatRange option \<times> u64 \<times> nat" where
  "address_space_translate_internal gm addr plen =
     (case find (section_covers_addr addr) (gm_view gm) of
        None \<Rightarrow> (None, addr, plen)
      | Some fr \<Rightarrow>
          (let off = unat addr - fr_start fr
           in (Some fr, of_nat off + fr_offset fr,
               if mr_ram (fr_mr fr) then min (fr_size fr - off) plen else plen)))"

fun pow2floor :: "nat \<Rightarrow> nat" where
  "pow2floor n = (if n = 0 then 0 else if n = 1 then 1 else 2 * pow2floor (n div 2))"

declare pow2floor.simps [simp del]

text \<open>For \<^verbatim>\<open>unassigned_mem_ops\<close>: no declared maximum (so 4), no unaligned access.\<close>

definition memory_access_size :: "nat \<Rightarrow> u64 \<Rightarrow> nat" where
  "memory_access_size l addr =
     (let align_size_max = unat (ucast (addr AND - addr) :: u32);
          access_size_max = (if align_size_max \<noteq> 0 \<and> align_size_max < 4 then align_size_max else 4)
      in pow2floor (min l access_size_max))"

text \<open>With \<^verbatim>\<open>attrs.memory\<close> set only RAM may be accessed.\<close>

definition flatview_access_allowed :: "FlatRange option \<Rightarrow> bool \<Rightarrow> bool" where
  "flatview_access_allowed sec attrs_memory \<longleftrightarrow>
     \<not> attrs_memory \<or> (case sec of None \<Rightarrow> False | Some fr \<Rightarrow> mr_ram (fr_mr fr))"

subsection \<open>The read and write loops\<close>

definition ram_load :: "guest_mem \<Rightarrow> u64 \<Rightarrow> nat \<Rightarrow> bytes" where
  "ram_load gm ra l = map (\<lambda>i. gm_ram gm (ra + of_nat i)) [0..<l]"

definition ram_store :: "guest_mem \<Rightarrow> u64 \<Rightarrow> bytes \<Rightarrow> guest_mem" where
  "ram_store gm ra bs =
     gm\<lparr>gm_ram := (\<lambda>a. if unat (a - ra) < length bs then bs ! unat (a - ra) else gm_ram gm a)\<rparr>"

definition flatview_read_continue_step ::
    "guest_mem \<Rightarrow> bool \<Rightarrow> bytes \<Rightarrow> FlatRange option \<Rightarrow> u64 \<Rightarrow> nat \<Rightarrow> MemTxResult \<times> bytes \<times> nat" where
  "flatview_read_continue_step gm attrs_memory buf sec mr_addr l =
     (if \<not> flatview_access_allowed sec attrs_memory then (MEMTX_ACCESS_ERROR, take l buf, l)
      else case sec of
        None \<Rightarrow> (let l' = memory_access_size l mr_addr in (MEMTX_DECODE_ERROR, replicate l' 0, l'))
      | Some fr \<Rightarrow>
          if \<not> memory_access_is_direct (fr_mr fr) False then
            (let l' = memory_access_size l mr_addr in (MEMTX_DECODE_ERROR, replicate l' 0, l'))
          else (MEMTX_OK, ram_load gm (mr_ram_addr (fr_mr fr) + mr_addr) l, l))"

definition flatview_write_continue_step ::
    "guest_mem \<Rightarrow> bool \<Rightarrow> bytes \<Rightarrow> FlatRange option \<Rightarrow> u64 \<Rightarrow> nat \<Rightarrow> MemTxResult \<times> guest_mem \<times> nat" where
  "flatview_write_continue_step gm attrs_memory buf sec mr_addr l =
     (if \<not> flatview_access_allowed sec attrs_memory then (MEMTX_ACCESS_ERROR, gm, l)
      else case sec of
        None \<Rightarrow> (MEMTX_DECODE_ERROR, gm, memory_access_size l mr_addr)
      | Some fr \<Rightarrow>
          if \<not> memory_access_is_direct (fr_mr fr) True then
            (MEMTX_DECODE_ERROR, gm, memory_access_size l mr_addr)
          else (MEMTX_OK, ram_store gm (mr_ram_addr (fr_mr fr) + mr_addr) (take l buf), l))"

lemma pow2floor_bounds: "0 < n \<Longrightarrow> 0 < pow2floor n \<and> pow2floor n \<le> n"
proof (induction n rule: pow2floor.induct)
  case (1 n)
  show ?case
  proof (cases "n = 1")
    case True
    then show ?thesis by (simp add: pow2floor.simps)
  next
    case False
    with 1 have "0 < pow2floor (n div 2) \<and> pow2floor (n div 2) \<le> n div 2" by auto
    then show ?thesis using False "1.prems" by (subst pow2floor.simps, subst (2) pow2floor.simps) auto
  qed
qed

lemma memory_access_size_bounds:
  "0 < l \<Longrightarrow> 0 < memory_access_size l a \<and> memory_access_size l a \<le> l"
  unfolding memory_access_size_def Let_def
  using pow2floor_bounds [of "min l (if unat (ucast (a AND - a) :: u32) \<noteq> 0 \<and> unat (ucast (a AND - a) :: u32) < 4 then unat (ucast (a AND - a) :: u32) else 4)"]
  by (auto simp: min_def split: if_splits)

lemma translate_len_pos:
  assumes "address_space_translate_internal gm addr plen = (sec, xlat, l)" and "0 < plen"
  shows "0 < l \<and> l \<le> plen"
  using assms
  by (auto simp: address_space_translate_internal_def section_covers_addr_def find_Some_iff Let_def
      split: option.splits if_splits)

lemma read_step_len:
  "flatview_read_continue_step gm am buf sec a l = (r, bs, l') \<Longrightarrow> 0 < l \<Longrightarrow> 0 < l' \<and> l' \<le> l"
  using memory_access_size_bounds [of l a]
  by (auto simp: flatview_read_continue_step_def Let_def split: if_splits option.splits)

lemma write_step_len:
  "flatview_write_continue_step gm am buf sec a l = (r, gm', l') \<Longrightarrow> 0 < l \<Longrightarrow> 0 < l' \<and> l' \<le> l"
  using memory_access_size_bounds [of l a]
  by (auto simp: flatview_write_continue_step_def Let_def split: if_splits option.splits)

function flatview_read_continue ::
    "guest_mem \<Rightarrow> bool \<Rightarrow> u64 \<Rightarrow> bytes \<Rightarrow> MemTxResult \<times> bytes" where
  "flatview_read_continue gm am addr buf =
     (if buf = [] then (MEMTX_OK, [])
      else case address_space_translate_internal gm addr (length buf) of
        (sec, mr_addr, l) \<Rightarrow>
          (case flatview_read_continue_step gm am buf sec mr_addr l of
             (r, bs, l') \<Rightarrow>
               (case flatview_read_continue gm am (addr + of_nat l') (drop l' buf) of
                  (r2, bs2) \<Rightarrow> (r OR r2, bs @ bs2))))"
  by pat_completeness auto
termination
  by (relation "measure (\<lambda>(gm, am, addr, buf). length buf)")
     (auto dest!: sym [of "(_, _, _)" "address_space_translate_internal _ _ _"]
        sym [of "(_, _, _)" "flatview_read_continue_step _ _ _ _ _ _"]
        dest: translate_len_pos read_step_len)

function flatview_write_continue ::
    "guest_mem \<Rightarrow> bool \<Rightarrow> u64 \<Rightarrow> bytes \<Rightarrow> MemTxResult \<times> guest_mem" where
  "flatview_write_continue gm am addr buf =
     (if buf = [] then (MEMTX_OK, gm)
      else case address_space_translate_internal gm addr (length buf) of
        (sec, mr_addr, l) \<Rightarrow>
          (case flatview_write_continue_step gm am buf sec mr_addr l of
             (r, gm', l') \<Rightarrow>
               (case flatview_write_continue gm' am (addr + of_nat l') (drop l' buf) of
                  (r2, gm2) \<Rightarrow> (r OR r2, gm2))))"
  by pat_completeness auto
termination
  by (relation "measure (\<lambda>(gm, am, addr, buf). length buf)")
     (auto dest!: sym [of "(_, _, _)" "address_space_translate_internal _ _ _"]
        sym [of "(_, _, _)" "flatview_write_continue_step _ _ _ _ _ _"]
        dest: translate_len_pos write_step_len)

declare flatview_read_continue.simps [simp del] flatview_write_continue.simps [simp del]

text \<open>The first section is tested before the loop; a refused one ends the transaction.\<close>

definition flatview_read :: "guest_mem \<Rightarrow> bool \<Rightarrow> u64 \<Rightarrow> bytes \<Rightarrow> MemTxResult \<times> bytes" where
  "flatview_read gm am addr buf =
     (case address_space_translate_internal gm addr (length buf) of
        (sec, mr_addr, l) \<Rightarrow>
          if \<not> flatview_access_allowed sec am then (MEMTX_ACCESS_ERROR, buf)
          else flatview_read_continue gm am addr buf)"

definition flatview_write :: "guest_mem \<Rightarrow> bool \<Rightarrow> u64 \<Rightarrow> bytes \<Rightarrow> MemTxResult \<times> guest_mem" where
  "flatview_write gm am addr buf =
     (case address_space_translate_internal gm addr (length buf) of
        (sec, mr_addr, l) \<Rightarrow>
          if \<not> flatview_access_allowed sec am then (MEMTX_ACCESS_ERROR, gm)
          else flatview_write_continue gm am addr buf)"

text \<open>\<open>buf\<close> is the caller's buffer: its length is the request, its bytes what a refused read leaves.\<close>

definition address_space_read_full :: "guest_mem \<Rightarrow> bool \<Rightarrow> u64 \<Rightarrow> bytes \<Rightarrow> MemTxResult \<times> bytes" where
  "address_space_read_full gm am addr buf =
     (if 0 < length buf then flatview_read gm am addr buf else (MEMTX_OK, buf))"

definition address_space_write :: "guest_mem \<Rightarrow> bool \<Rightarrow> u64 \<Rightarrow> bytes \<Rightarrow> MemTxResult \<times> guest_mem" where
  "address_space_write gm am addr buf =
     (if 0 < length buf then flatview_write gm am addr buf else (MEMTX_OK, gm))"

definition dma_memory_read :: "guest_mem \<Rightarrow> u64 \<Rightarrow> nat \<Rightarrow> MemTxResult \<times> bytes" where
  "dma_memory_read gm addr len = address_space_read_full gm False addr (replicate len 0)"

definition dma_memory_write :: "guest_mem \<Rightarrow> u64 \<Rightarrow> bytes \<Rightarrow> MemTxResult \<times> guest_mem" where
  "dma_memory_write gm addr buf = address_space_write gm False addr buf"

subsection \<open>What the loops compute, byte by byte\<close>

text \<open>
  The RAM byte behind a guest-physical address, if the address is direct memory
  for the given direction.
\<close>

definition ram_slot :: "guest_mem \<Rightarrow> bool \<Rightarrow> u64 \<Rightarrow> u64 option" where
  "ram_slot gm is_write addr =
     (case find (section_covers_addr addr) (gm_view gm) of
        None \<Rightarrow> None
      | Some fr \<Rightarrow>
          if memory_access_is_direct (fr_mr fr) is_write
          then Some (mr_ram_addr (fr_mr fr) + (of_nat (unat addr - fr_start fr) + fr_offset fr))
          else None)"

definition dma_byte :: "guest_mem \<Rightarrow> u64 \<Rightarrow> u8" where
  "dma_byte gm a = (case ram_slot gm False a of None \<Rightarrow> 0 | Some ra \<Rightarrow> gm_ram gm ra)"

definition dma_ok :: "guest_mem \<Rightarrow> bool \<Rightarrow> u64 \<Rightarrow> nat \<Rightarrow> bool" where
  "dma_ok gm is_write addr n \<longleftrightarrow> (\<forall>i<n. ram_slot gm is_write (addr + of_nat i) \<noteq> None)"

text \<open>
  A flat view of RAM: ranges lie in the 64-bit space, do not overlap, are
  aligned to the widest dispatched access, and no two addresses share a RAM byte.
\<close>

definition range_ok :: "FlatRange \<Rightarrow> bool" where
  "range_ok fr \<longleftrightarrow> mr_ram (fr_mr fr) \<and> fr_start fr + fr_size fr \<le> 2 ^ 64 \<and>
     4 dvd fr_start fr \<and> 4 dvd fr_size fr \<and> 4 dvd unat (fr_offset fr)"

definition view_ok :: "FlatRange list \<Rightarrow> bool" where
  "view_ok v \<longleftrightarrow> list_all range_ok v \<and>
     (\<forall>a b addr. a \<in> set v \<and> b \<in> set v \<and> section_covers_addr addr a \<and> section_covers_addr addr b \<longrightarrow> a = b)"

definition no_alias :: "guest_mem \<Rightarrow> bool" where
  "no_alias gm \<longleftrightarrow> (\<forall>a b ra. ram_slot gm False a = Some ra \<and> ram_slot gm False b = Some ra \<longrightarrow> a = b)"

lemma odd_and_minus: "odd (x :: u64) \<Longrightarrow> x AND - x = 1"
proof -
  assume o: "odd x"
  have "- x = NOT x + 1" by (simp add: minus_eq_not_plus_1)
  also have "\<dots> = NOT x OR 1"
    by (rule disjunctive_add) (use o in \<open>auto simp: bit_simps bit_1_iff bit_0\<close>)
  finally have "x AND - x = x AND 1"
    by (simp add: bit.conj_disj_distrib)
  also have "\<dots> = 1" using o by (simp add: and_one_eq mod_2_eq_odd)
  finally show ?thesis .
qed

lemma twice_odd_and_minus: "odd (y :: u64) \<Longrightarrow> (2 * y) AND - (2 * y) = 2"
proof -
  assume o: "odd y"
  have "2 * y = push_bit 1 y" "- (2 * y) = push_bit 1 (- y)" by (simp_all add: push_bit_eq_mult)
  then have "(2 * y) AND - (2 * y) = push_bit 1 (y AND - y)" by (simp only: push_bit_and)
  with o show ?thesis by (simp add: odd_and_minus)
qed

lemma four_dvd_unat_push2: "4 dvd unat (push_bit 2 w :: 'a::len word)" if "2 \<le> LENGTH('a)"
proof -
  have "(4::nat) dvd 2 ^ LENGTH('a)"
    using le_imp_power_dvd [OF that, of "2::nat"] by simp
  then have "4 dvd (4 * unat w) mod 2 ^ LENGTH('a)" by (simp add: dvd_mod)
  moreover have "unat (push_bit 2 w) = (4 * unat w) mod 2 ^ LENGTH('a)"
    by (simp only: unsigned_push_bit_eq take_bit_eq_mod push_bit_eq_mult [of 2 "unat w"]) (simp add: mult.commute)
  ultimately show ?thesis by simp
qed

lemma align_cases:
  fixes a :: u64
  defines "al \<equiv> unat (ucast (a AND - a) :: u32)"
  shows "al = 1 \<or> al = 2 \<and> 2 dvd unat a \<or> (al = 0 \<or> 4 \<le> al) \<and> 4 dvd unat a"
proof (cases "odd a")
  case True
  then show ?thesis by (simp add: al_def odd_and_minus)
next
  case False
  then obtain y where y: "a = 2 * y" by (auto elim: evenE)
  show ?thesis
  proof (cases "odd y")
    case True
    have "2 dvd (2 * unat y) mod (2 ^ 64)" by (intro dvd_mod) simp_all
    then have "2 dvd unat a" by (simp add: y unat_word_ariths)
    then show ?thesis using twice_odd_and_minus [OF True] by (simp add: al_def y)
  next
    case False
    then obtain z where "y = 2 * z" by (auto elim: evenE)
    then have a4: "a = push_bit 2 z" by (simp add: y push_bit_eq_mult)
    have "- a = push_bit 2 (- z)" by (simp add: a4 push_bit_eq_mult)
    then have "a AND - a = push_bit 2 (z AND - z)" by (simp only: a4 push_bit_and)
    then have "(ucast (a AND - a) :: u32) = push_bit 2 (ucast (z AND - z))"
      by (auto intro!: bit_eqI simp: bit_simps)
    then have "4 dvd al" unfolding al_def by (simp add: four_dvd_unat_push2)
    then have "al = 0 \<or> 4 \<le> al" by (auto dest: dvd_imp_le)
    then show ?thesis by (simp add: a4 four_dvd_unat_push2)
  qed
qed

lemma pow2floor_small:
  "pow2floor (Suc 0) = 1" "pow2floor 2 = 2" "pow2floor 3 = 2" "pow2floor 4 = 4"
  by (simp_all add: pow2floor.simps)

lemma memory_access_size_dvd:
  assumes "0 < l"
  shows "memory_access_size l a dvd unat a \<and> memory_access_size l a dvd 4"
proof -
  define al where "al = unat (ucast (a AND - a) :: u32)"
  define m where "m = (if al \<noteq> 0 \<and> al < 4 then al else 4)"
  have eq: "memory_access_size l a = pow2floor (min l m)"
    by (simp add: memory_access_size_def Let_def m_def al_def)
  have m: "m = 1 \<or> m = 2 \<and> 2 dvd unat a \<or> m = 4 \<and> 4 dvd unat a"
    using align_cases [of a] unfolding m_def al_def [symmetric] by (elim disjE conjE) simp_all
  have 24: "4 dvd unat a \<Longrightarrow> 2 dvd unat a"
    using dvd_trans [of 2 4 "unat a"] by simp
  consider "l = 1" | "l = 2" | "l = 3" | "4 \<le> l"
    using assms by linarith
  then have "pow2floor (min l m) dvd unat a \<and> pow2floor (min l m) dvd 4"
    using m
    by cases (elim disjE conjE; simp add: pow2floor_small 24)+
  then show ?thesis by (simp only: eq)
qed

text \<open>A dispatched access never reaches into a RAM range next to it.\<close>

lemma dvd_window:
  fixes a b d :: nat
  assumes "d dvd a" and "d dvd b" and "a < b"
  shows "a + d \<le> b"
proof -
  from assms(1,2) obtain x y where "a = d * x" "b = d * y" by (auto elim!: dvdE)
  with assms(3) have "d * Suc x \<le> d * y" by (intro mult_le_mono2) (simp add: Suc_le_eq)
  with \<open>a = d * x\<close> \<open>b = d * y\<close> show ?thesis by simp
qed

lemma unat_add_small: "unat (a :: u64) + i < 2 ^ 64 \<Longrightarrow> unat (a + of_nat i) = unat a + i"
  by (simp add: unat_word_ariths unat_of_nat)

lemma access_size_no_wrap:
  assumes "0 < l" and "i < memory_access_size l a"
  shows "unat (a + of_nat i) = unat a + i"
proof -
  have "memory_access_size l a dvd 2 ^ 64"
    using memory_access_size_dvd [OF assms(1), of a] dvd_trans [of "memory_access_size l a" 4 "2 ^ 64"]
    by auto
  then have "unat a + memory_access_size l a \<le> 2 ^ 64"
    using memory_access_size_dvd [OF assms(1), of a] unat_bounds(4) [of a]
    by (intro dvd_window) auto
  with assms(2) show ?thesis by (intro unat_add_small) simp
qed

lemma find_covers_same:
  assumes v: "view_ok v" and f: "find (section_covers_addr a) v = Some fr"
    and c: "section_covers_addr b fr"
  shows "find (section_covers_addr b) v = Some fr"
proof -
  from f have fr: "fr \<in> set v" by (auto simp: find_Some_iff)
  with c obtain fr' where fr': "find (section_covers_addr b) v = Some fr'"
    by (cases "find (section_covers_addr b) v") (auto simp: find_None_iff)
  then have "fr' \<in> set v" "section_covers_addr b fr'" by (auto simp: find_Some_iff)
  with v fr c have "fr' = fr" unfolding view_ok_def by blast
  with fr' show ?thesis by simp
qed

lemma find_covers_gap:
  assumes v: "view_ok v" and f: "find (section_covers_addr a) v = None"
    and l: "0 < l" and i: "i < memory_access_size l a"
  shows "find (section_covers_addr (a + of_nat i)) v = None"
proof (rule ccontr)
  assume "find (section_covers_addr (a + of_nat i)) v \<noteq> None"
  then obtain fr where fr: "fr \<in> set v" "section_covers_addr (a + of_nat i) fr"
    by (auto simp: find_None_iff)
  with f have nc: "\<not> section_covers_addr a fr" by (auto simp: find_None_iff)
  have ai: "unat (a + of_nat i) = unat a + i" using l i by (rule access_size_no_wrap)
  from fr(1) v have "4 dvd fr_start fr" by (auto simp: view_ok_def list_all_iff range_ok_def)
  then have "memory_access_size l a dvd fr_start fr"
    using memory_access_size_dvd [OF l, of a] dvd_trans by blast
  moreover from fr(2) nc ai have "unat a < fr_start fr" "fr_start fr \<le> unat a + i"
    by (auto simp: section_covers_addr_def)
  ultimately have "unat a + memory_access_size l a \<le> fr_start fr"
    using memory_access_size_dvd [OF l, of a] by (intro dvd_window) auto
  with i \<open>fr_start fr \<le> unat a + i\<close> show False by simp
qed

lemma covers_shift:
  assumes "range_ok fr" and "section_covers_addr a fr" and "i < fr_size fr - (unat a - fr_start fr)"
  shows "section_covers_addr (a + of_nat i) fr \<and> unat (a + of_nat i) = unat a + i"
proof -
  from assms have "unat a + i < 2 ^ 64" "fr_start fr \<le> unat a + i" "unat a + i < fr_start fr + fr_size fr"
    by (auto simp: range_ok_def section_covers_addr_def)
  then show ?thesis by (simp add: unat_add_small section_covers_addr_def)
qed

lemma ram_slot_shift:
  assumes v: "view_ok (gm_view gm)" and f: "find (section_covers_addr a) (gm_view gm) = Some fr"
    and i: "i < fr_size fr - (unat a - fr_start fr)"
  shows "ram_slot gm w (a + of_nat i) =
    (if memory_access_is_direct (fr_mr fr) w
     then Some (mr_ram_addr (fr_mr fr) + (of_nat (unat a - fr_start fr) + fr_offset fr) + of_nat i) else None)"
proof -
  from f have fr: "fr \<in> set (gm_view gm)" "section_covers_addr a fr" by (auto simp: find_Some_iff)
  with v have ok: "range_ok fr" by (auto simp: view_ok_def list_all_iff)
  note sh = covers_shift [OF ok fr(2) i]
  have "find (section_covers_addr (a + of_nat i)) (gm_view gm) = Some fr"
    using v f sh by (blast intro: find_covers_same)
  moreover have "unat (a + of_nat i) - fr_start fr = (unat a - fr_start fr) + i"
    using sh fr(2) by (simp add: section_covers_addr_def)
  ultimately show ?thesis by (simp add: ram_slot_def algebra_simps)
qed

lemma ram_slot_gap:
  assumes "view_ok (gm_view gm)" and "find (section_covers_addr a) (gm_view gm) = None"
    and "0 < l" and "i < memory_access_size l a"
  shows "ram_slot gm w (a + of_nat i) = None"
  using find_covers_gap [OF assms] by (simp add: ram_slot_def)

text \<open>A dispatched access inside a read-only RAM range stays inside it.\<close>

lemma ram_slot_rom:
  assumes v: "view_ok (gm_view gm)" and f: "find (section_covers_addr a) (gm_view gm) = Some fr"
    and l: "0 < l" and nd: "\<not> memory_access_is_direct (fr_mr fr) w"
    and i: "i < memory_access_size l (of_nat (unat a - fr_start fr) + fr_offset fr)"
  shows "ram_slot gm w (a + of_nat i) = None"
proof -
  define off where "off = unat a - fr_start fr"
  define d where "d = memory_access_size l (of_nat off + fr_offset fr)"
  from f have fr: "fr \<in> set (gm_view gm)" "section_covers_addr a fr" by (auto simp: find_Some_iff)
  with v have ok: "range_ok fr" by (auto simp: view_ok_def list_all_iff)
  have d4: "d dvd 4" and dx: "d dvd unat (of_nat off + fr_offset fr :: u64)"
    using memory_access_size_dvd [OF l] by (auto simp: d_def)
  have "off < 2 ^ 64" using unat_bounds(4) [of a] by (simp add: off_def)
  then have "unat (of_nat off + fr_offset fr :: u64) = (off + unat (fr_offset fr)) mod 2 ^ 64"
    by (simp add: unat_word_ariths unat_of_nat)
  moreover have d64: "d dvd 2 ^ 64" using d4 dvd_trans [of d 4 "2 ^ 64"] by simp
  ultimately have "d dvd off + unat (fr_offset fr)"
    using dx by (metis dvd_mod_iff)
  moreover have "d dvd unat (fr_offset fr)" using ok d4 dvd_trans by (auto simp: range_ok_def)
  ultimately have "d dvd off" by (metis dvd_add_left_iff)
  moreover have "d dvd fr_size fr" using ok d4 dvd_trans by (auto simp: range_ok_def)
  moreover have "off < fr_size fr" using fr(2) by (auto simp: off_def section_covers_addr_def)
  ultimately have "off + d \<le> fr_size fr" by (intro dvd_window)
  with i have "i < fr_size fr - (unat a - fr_start fr)" by (simp add: d_def off_def)
  from ram_slot_shift [OF v f this] nd show ?thesis by simp
qed

lemma dma_ok_add:
  "dma_ok gm w a (m + n) \<longleftrightarrow> dma_ok gm w a m \<and> dma_ok gm w (a + of_nat m) n"
proof -
  have "(\<forall>i<m + n. P i) \<longleftrightarrow> (\<forall>i<m. P i) \<and> (\<forall>i<n. P (m + i))" for P :: "nat \<Rightarrow> bool"
    by (metis add_diff_inverse_nat nat_add_left_cancel_less trans_less_add1)
  then show ?thesis by (simp add: dma_ok_def add.assoc)
qed

lemma ran_clamped:
  assumes "view_ok (gm_view gm)" and "find (section_covers_addr addr) (gm_view gm) = Some fr"
  shows "mr_ram (fr_mr fr)" "memory_access_is_direct (fr_mr fr) False"
  using assms by (auto simp: find_Some_iff view_ok_def list_all_iff range_ok_def memory_access_is_direct_def)

lemma read_step_spec:
  assumes v: "view_ok (gm_view gm)" and n: "0 < n"
    and t: "address_space_translate_internal gm addr n = (sec, a, l)"
    and st: "flatview_read_continue_step gm False buf sec a l = (r, bs, l')"
  shows "0 < l'" "l' \<le> n" "bs = map (\<lambda>i. dma_byte gm (addr + of_nat i)) [0..<l']"
    "r = (if dma_ok gm False addr l' then MEMTX_OK else MEMTX_DECODE_ERROR)"
proof -
  have len: "0 < l \<and> l \<le> n" using translate_len_pos [OF t n] .
  show "0 < l'" "l' \<le> n" using read_step_len [OF st] len by auto
  have "bs = map (\<lambda>i. dma_byte gm (addr + of_nat i)) [0..<l'] \<and>
    r = (if dma_ok gm False addr l' then MEMTX_OK else MEMTX_DECODE_ERROR)"
  proof (cases "find (section_covers_addr addr) (gm_view gm)")
    case None
    with t have "sec = None" "a = addr" "l = n" by (auto simp: address_space_translate_internal_def)
    with st have b: "bs = replicate l' 0" "l' = memory_access_size n addr" "r = MEMTX_DECODE_ERROR"
      by (auto simp: flatview_read_continue_step_def flatview_access_allowed_def Let_def)
    have gap: "ram_slot gm False (addr + of_nat i) = None" if "i < l'" for i
      using v None n that unfolding b(2) by (rule ram_slot_gap)
    then have "\<not> dma_ok gm False addr l'" using \<open>0 < l'\<close> by (auto simp: dma_ok_def)
    moreover have "bs = map (\<lambda>i. dma_byte gm (addr + of_nat i)) [0..<l']"
      using gap by (intro nth_equalityI) (auto simp: b dma_byte_def)
    ultimately show ?thesis by (simp add: b)
  next
    case (Some fr)
    note fr = ran_clamped [OF v Some]
    define off where "off = unat addr - fr_start fr"
    from t Some fr have *: "sec = Some fr" "a = of_nat off + fr_offset fr" "l = min (fr_size fr - off) n"
      by (auto simp: address_space_translate_internal_def Let_def off_def)
    with st fr have b: "l' = l" "r = MEMTX_OK" "bs = ram_load gm (mr_ram_addr (fr_mr fr) + a) l"
      by (auto simp: flatview_read_continue_step_def flatview_access_allowed_def)
    have slot: "ram_slot gm False (addr + of_nat i) = Some (mr_ram_addr (fr_mr fr) + a + of_nat i)"
      if "i < l'" for i
      using ram_slot_shift [OF v Some, of i False] that fr * b by (simp add: off_def)
    then have "dma_ok gm False addr l'" by (simp add: dma_ok_def)
    moreover have "bs = map (\<lambda>i. dma_byte gm (addr + of_nat i)) [0..<l']"
      using slot by (simp add: b(3) ram_load_def dma_byte_def b(1))
    ultimately show ?thesis by (simp add: b)
  qed
  then show "bs = map (\<lambda>i. dma_byte gm (addr + of_nat i)) [0..<l']"
    "r = (if dma_ok gm False addr l' then MEMTX_OK else MEMTX_DECODE_ERROR)" by auto
qed

lemma map_upt_shift:
  "l \<le> n \<Longrightarrow> map f [0..<n] = map f [0..<l] @ map (\<lambda>i. f (l + i)) [0..<n - l]"
  by (rule nth_equalityI) (auto simp: nth_append)

lemma or_results:
  "(if P then 0 else 2) OR (if Q then 0 else (2 :: u32)) = (if P \<and> Q then 0 else 2)"
  by simp

lemma flatview_read_continue_bytes:
  assumes "view_ok (gm_view gm)"
  shows "flatview_read_continue gm False addr buf =
    (if dma_ok gm False addr (length buf) then MEMTX_OK else MEMTX_DECODE_ERROR,
     map (\<lambda>i. dma_byte gm (addr + of_nat i)) [0..<length buf])"
  using assms
proof (induction gm False addr buf rule: flatview_read_continue.induct)
  case (1 gm addr buf)
  show ?case
  proof (cases "buf = []")
    case True
    then show ?thesis by (simp add: flatview_read_continue.simps dma_ok_def)
  next
    case False
    then have n: "0 < length buf" by simp
    obtain sec a l where t: "address_space_translate_internal gm addr (length buf) = (sec, a, l)"
      by (metis prod_cases3)
    obtain r bs l' where st: "flatview_read_continue_step gm False buf sec a l = (r, bs, l')"
      by (metis prod_cases3)
    note spec = read_step_spec [OF "1.prems" n t st]
    have IH: "flatview_read_continue gm False (addr + of_nat l') (drop l' buf) =
      (if dma_ok gm False (addr + of_nat l') (length buf - l') then MEMTX_OK else MEMTX_DECODE_ERROR,
       map (\<lambda>i. dma_byte gm (addr + of_nat l' + of_nat i)) [0..<length buf - l'])"
      using "1.hyps" [OF False t [symmetric] refl st [symmetric] refl "1.prems"] by simp
    have "dma_ok gm False addr (length buf) \<longleftrightarrow>
        dma_ok gm False addr l' \<and> dma_ok gm False (addr + of_nat l') (length buf - l')"
      using dma_ok_add [of gm False addr l' "length buf - l'"] spec(2) by simp
    then show ?thesis
      using map_upt_shift [OF spec(2), of "\<lambda>i. dma_byte gm (addr + of_nat i)"]
      by (subst flatview_read_continue.simps)
         (simp only: False if_False t st prod.case IH spec(3,4) or_results, simp add: add.assoc)
  qed
qed

text \<open>Bytes stored one after the other; an address that is not writable memory is skipped.\<close>

fun store_bytes :: "guest_mem \<Rightarrow> u64 \<Rightarrow> bytes \<Rightarrow> guest_mem" where
  "store_bytes gm a [] = gm"
| "store_bytes gm a (b # bs) =
     store_bytes (case ram_slot gm True a of
                    None \<Rightarrow> gm
                  | Some ra \<Rightarrow> gm\<lparr>gm_ram := (gm_ram gm)(ra := b)\<rparr>) (a + 1) bs"

lemma ram_slot_ram_update [simp]: "ram_slot (gm\<lparr>gm_ram := f\<rparr>) = ram_slot gm"
  by (simp add: ram_slot_def fun_eq_iff)

lemma dma_ok_ram_update [simp]: "dma_ok (gm\<lparr>gm_ram := f\<rparr>) = dma_ok gm"
  by (simp add: dma_ok_def fun_eq_iff)

lemma store_bytes_view [simp]: "gm_view (store_bytes gm a bs) = gm_view gm"
  by (induction gm a bs rule: store_bytes.induct) (auto split: option.splits)

lemma ram_slot_store_bytes [simp]: "ram_slot (store_bytes gm a bs) = ram_slot gm"
  by (simp add: ram_slot_def fun_eq_iff)

lemma store_bytes_append:
  "store_bytes gm a (xs @ ys) = store_bytes (store_bytes gm a xs) (a + of_nat (length xs)) ys"
  by (induction gm a xs rule: store_bytes.induct) (auto simp: add.assoc)

lemma store_bytes_gap:
  "\<forall>i<length bs. ram_slot gm True (a + of_nat i) = None \<Longrightarrow> store_bytes gm a bs = gm"
proof (induction bs arbitrary: a)
  case (Cons b bs)
  have "ram_slot gm True (a + 1 + of_nat i) = None" if "i < length bs" for i
    using spec [OF Cons.prems, of "Suc i"] that by (simp add: add.assoc)
  moreover have "ram_slot gm True a = None" using Cons.prems by auto
  ultimately show ?case using Cons.IH by simp
qed simp

lemma ram_store_Nil [simp]: "ram_store gm ra [] = gm"
  by (simp add: ram_store_def)

lemma ram_store_Cons:
  assumes "length bs < 2 ^ 64"
  shows "ram_store gm ra (b # bs) = ram_store (gm\<lparr>gm_ram := (gm_ram gm)(ra := b)\<rparr>) (ra + 1) bs"
proof -
  have "(if unat (x - ra) < Suc (length bs) then (b # bs) ! unat (x - ra) else gm_ram gm x) =
    (if unat (x - (ra + 1)) < length bs then bs ! unat (x - (ra + 1))
     else if x = ra then b else gm_ram gm x)" for x
  proof (cases "x = ra")
    case True
    then have "unat (x - (ra + 1)) = 2 ^ 64 - 1" by (simp add: unsigned_minus_1_eq_mask mask_eq_exp_minus_1)
    with True assms show ?thesis by simp
  next
    case False
    then have "unat (x - ra) = Suc (unat (x - (ra + 1)))"
      using unatSuc [of "x - (ra + 1)"] by (simp add: algebra_simps)
    with False show ?thesis by simp
  qed
  then show ?thesis unfolding ram_store_def by (simp add: fun_upd_def cong: if_cong)
qed

lemma ram_store_store_bytes:
  assumes "\<forall>i<length bs. ram_slot gm True (a + of_nat i) = Some (ra + of_nat i)" and "length bs \<le> 2 ^ 64"
  shows "ram_store gm ra bs = store_bytes gm a bs"
  using assms
proof (induction bs arbitrary: gm a ra)
  case (Cons b bs)
  have "ram_slot gm True (a + 1 + of_nat i) = Some (ra + 1 + of_nat i)" if "i < length bs" for i
    using spec [OF Cons.prems(1), of "Suc i"] that by (simp add: add.assoc)
  moreover have "ram_slot gm True a = Some ra" using Cons.prems(1) by auto
  ultimately show ?case using Cons.IH Cons.prems(2) by (simp add: ram_store_Cons)
qed simp

lemma write_step_spec:
  assumes v: "view_ok (gm_view gm)" and n: "0 < length buf"
    and t: "address_space_translate_internal gm addr (length buf) = (sec, a, l)"
    and st: "flatview_write_continue_step gm False buf sec a l = (r, gm', l')"
  shows "0 < l' \<and> l' \<le> length buf \<and> gm' = store_bytes gm addr (take l' buf) \<and>
    r = (if dma_ok gm True addr l' then MEMTX_OK else MEMTX_DECODE_ERROR)"
proof -
  have len: "0 < l \<and> l \<le> length buf" using translate_len_pos [OF t n] .
  then have l': "0 < l' \<and> l' \<le> length buf" using write_step_len [OF st] by auto
  have skip: ?thesis
    if g: "\<And>i. i < l' \<Longrightarrow> ram_slot gm True (addr + of_nat i) = None"
      and "gm' = gm" "r = MEMTX_DECODE_ERROR"
  proof -
    have "\<not> dma_ok gm True addr l'" using g l' by (auto simp: dma_ok_def)
    then show ?thesis using store_bytes_gap [of "take l' buf" gm addr] that l' by simp
  qed
  show ?thesis
  proof (cases "find (section_covers_addr addr) (gm_view gm)")
    case None
    with t have "sec = None" "a = addr" "l = length buf" by (auto simp: address_space_translate_internal_def)
    with st have b: "gm' = gm" "l' = memory_access_size (length buf) addr" "r = MEMTX_DECODE_ERROR"
      by (auto simp: flatview_write_continue_step_def flatview_access_allowed_def Let_def)
    show ?thesis using ram_slot_gap [OF v None n] b by (intro skip) auto
  next
    case (Some fr)
    define off where "off = unat addr - fr_start fr"
    from t Some ran_clamped [OF v Some]
    have *: "sec = Some fr" "a = of_nat off + fr_offset fr" "l = min (fr_size fr - off) (length buf)"
      by (auto simp: address_space_translate_internal_def Let_def off_def)
    show ?thesis
    proof (cases "memory_access_is_direct (fr_mr fr) True")
      case False
      with st * have b: "gm' = gm" "l' = memory_access_size l a" "r = MEMTX_DECODE_ERROR"
        by (auto simp: flatview_write_continue_step_def flatview_access_allowed_def)
      show ?thesis using ram_slot_rom [OF v Some _ False, of l] len b by (intro skip) (auto simp: * off_def)
    next
      case True
      with st * have b: "l' = l" "r = MEMTX_OK" "gm' = ram_store gm (mr_ram_addr (fr_mr fr) + a) (take l buf)"
        by (auto simp: flatview_write_continue_step_def flatview_access_allowed_def)
      have slot: "ram_slot gm True (addr + of_nat i) = Some (mr_ram_addr (fr_mr fr) + a + of_nat i)"
        if "i < l'" for i
        using ram_slot_shift [OF v Some, of i True] that True * b by (simp add: off_def)
      moreover have "range_ok fr" using v Some by (auto simp: find_Some_iff view_ok_def list_all_iff)
      then have "l \<le> 2 ^ 64" using * by (auto simp: range_ok_def)
      ultimately show ?thesis
        using ram_store_store_bytes [of "take l buf" gm addr "mr_ram_addr (fr_mr fr) + a"] b l'
        by (auto simp: dma_ok_def)
    qed
  qed
qed

lemma flatview_write_continue_bytes:
  assumes "view_ok (gm_view gm)"
  shows "flatview_write_continue gm False addr buf =
    (if dma_ok gm True addr (length buf) then MEMTX_OK else MEMTX_DECODE_ERROR,
     store_bytes gm addr buf)"
  using assms
proof (induction gm False addr buf rule: flatview_write_continue.induct)
  case (1 gm addr buf)
  show ?case
  proof (cases "buf = []")
    case True
    then show ?thesis by (simp add: flatview_write_continue.simps dma_ok_def)
  next
    case False
    then have n: "0 < length buf" by simp
    obtain sec a l where t: "address_space_translate_internal gm addr (length buf) = (sec, a, l)"
      by (metis prod_cases3)
    obtain r gm' l' where st: "flatview_write_continue_step gm False buf sec a l = (r, gm', l')"
      by (metis prod_cases3)
    note spec = write_step_spec [OF "1.prems" n t st]
    then have dma: "dma_ok gm' = dma_ok gm" by (simp add: dma_ok_def fun_eq_iff)
    have IH: "flatview_write_continue gm' False (addr + of_nat l') (drop l' buf) =
      (if dma_ok gm True (addr + of_nat l') (length buf - l') then MEMTX_OK else MEMTX_DECODE_ERROR,
       store_bytes gm' (addr + of_nat l') (drop l' buf))"
      using "1.hyps" [OF False t [symmetric] refl st [symmetric] refl] "1.prems" spec dma by simp
    have "dma_ok gm True addr (length buf) \<longleftrightarrow>
        dma_ok gm True addr l' \<and> dma_ok gm True (addr + of_nat l') (length buf - l')"
      using dma_ok_add [of gm True addr l' "length buf - l'"] spec by simp
    moreover have "store_bytes gm' (addr + of_nat l') (drop l' buf) = store_bytes gm addr buf"
      using spec store_bytes_append [of gm addr "take l' buf" "drop l' buf"] by (simp add: min_absorb2)
    moreover have "r = (if dma_ok gm True addr l' then MEMTX_OK else MEMTX_DECODE_ERROR)" using spec by blast
    ultimately show ?thesis
      by (subst flatview_write_continue.simps) (simp only: False if_False t st prod.case IH or_results)
  qed
qed

lemma dma_memory_read_bytes:
  "view_ok (gm_view gm) \<Longrightarrow> dma_memory_read gm addr n =
    (if dma_ok gm False addr n then MEMTX_OK else MEMTX_DECODE_ERROR,
     map (\<lambda>i. dma_byte gm (addr + of_nat i)) [0..<n])"
  by (simp add: dma_memory_read_def address_space_read_full_def flatview_read_def
      flatview_access_allowed_def flatview_read_continue_bytes dma_ok_def split: prod.split)

lemma dma_memory_write_bytes:
  "view_ok (gm_view gm) \<Longrightarrow> dma_memory_write gm addr buf =
    (if dma_ok gm True addr (length buf) then MEMTX_OK else MEMTX_DECODE_ERROR, store_bytes gm addr buf)"
  by (simp add: dma_memory_write_def address_space_write_def flatview_write_def
      flatview_access_allowed_def flatview_write_continue_bytes dma_ok_def split: prod.split)

lemma ram_slot_write_read: "ram_slot gm True a = Some ra \<Longrightarrow> ram_slot gm False a = Some ra"
  by (auto simp: ram_slot_def memory_access_is_direct_def split: option.splits if_splits)

lemma no_alias_store_bytes [simp]: "no_alias (store_bytes gm a bs) = no_alias gm"
  by (simp add: no_alias_def)

lemma dma_byte_upd:
  assumes "no_alias gm" and "ram_slot gm True a = Some ra"
  shows "dma_byte (gm\<lparr>gm_ram := (gm_ram gm)(ra := b)\<rparr>) x = (if x = a then b else dma_byte gm x)"
  using assms ram_slot_write_read [OF assms(2)]
  by (auto simp: dma_byte_def no_alias_def split: option.splits)

lemma dma_byte_store_bytes:
  assumes "no_alias gm" and "length bs \<le> 2 ^ 64"
  shows "dma_byte (store_bytes gm a bs) x =
    (if unat (x - a) < length bs \<and> ram_slot gm True x \<noteq> None then bs ! unat (x - a) else dma_byte gm x)"
  using assms
proof (induction bs arbitrary: gm a)
  case (Cons b bs)
  define gm1 where "gm1 = (case ram_slot gm True a of None \<Rightarrow> gm | Some ra \<Rightarrow> gm\<lparr>gm_ram := (gm_ram gm)(ra := b)\<rparr>)"
  have slot: "ram_slot gm1 = ram_slot gm" by (simp add: gm1_def split: option.split)
  have d1: "dma_byte gm1 x = (if x = a \<and> ram_slot gm True a \<noteq> None then b else dma_byte gm x)"
    using dma_byte_upd [OF Cons.prems(1)] by (auto simp: gm1_def split: option.split)
  have "no_alias gm1" using Cons.prems(1) by (simp add: no_alias_def slot)
  with Cons.IH [of gm1 "a + 1"] Cons.prems(2)
  have IH: "dma_byte (store_bytes gm1 (a + 1) bs) x = (if unat (x - (a + 1)) < length bs \<and> ram_slot gm True x \<noteq> None
      then bs ! unat (x - (a + 1)) else dma_byte gm1 x)" by (simp add: slot)
  show ?case
  proof (cases "x = a")
    case True
    then have "unat (x - (a + 1)) = 2 ^ 64 - 1" by (simp add: unsigned_minus_1_eq_mask mask_eq_exp_minus_1)
    with True Cons.prems(2) IH d1 show ?thesis by (simp add: gm1_def)
  next
    case False
    then have "unat (x - a) = Suc (unat (x - (a + 1)))"
      using unatSuc [of "x - (a + 1)"] by (simp add: algebra_simps)
    with False IH d1 show ?thesis by (auto simp: gm1_def [symmetric])
  qed
qed simp

section \<open>The interface a device sees\<close>

text \<open>
  A device reaches guest memory only through the two calls of
  \<^verbatim>\<open>include/system/dma.h\<close>; it takes them as a record, and the laws it may rely
  on are those of \<open>dma_bus\<close>.
\<close>

record 'm dma_ops =
  dma_read :: "'m \<Rightarrow> u64 \<Rightarrow> nat \<Rightarrow> MemTxResult \<times> bytes"
  dma_write :: "'m \<Rightarrow> u64 \<Rightarrow> bytes \<Rightarrow> MemTxResult \<times> 'm"

definition sysbus_dma :: "guest_mem dma_ops" where
  "sysbus_dma = \<lparr>dma_read = dma_memory_read, dma_write = dma_memory_write\<rparr>"

locale dma_bus =
  fixes D :: "'m dma_ops"
    and inv :: "'m \<Rightarrow> bool"
    and byte_at :: "'m \<Rightarrow> u64 \<Rightarrow> u8"
    and readable :: "'m \<Rightarrow> u64 \<Rightarrow> bool"
    and writable :: "'m \<Rightarrow> u64 \<Rightarrow> bool"
  assumes rd_bytes: "inv m \<Longrightarrow> snd (dma_read D m a n) = map (\<lambda>i. byte_at m (a + of_nat i)) [0..<n]"
    and rd_result: "inv m \<Longrightarrow> fst (dma_read D m a n) =
      (if \<forall>i<n. readable m (a + of_nat i) then MEMTX_OK else MEMTX_DECODE_ERROR)"
    and wr_result: "inv m \<Longrightarrow> fst (dma_write D m a bs) =
      (if \<forall>i<length bs. writable m (a + of_nat i) then MEMTX_OK else MEMTX_DECODE_ERROR)"
    and wr_byte: "inv m \<Longrightarrow> length bs \<le> 2 ^ 64 \<Longrightarrow> byte_at (snd (dma_write D m a bs)) x =
      (if unat (x - a) < length bs \<and> writable m x then bs ! unat (x - a) else byte_at m x)"
    and wr_inv: "inv m \<Longrightarrow> inv (snd (dma_write D m a bs))"
    and wr_readable: "inv m \<Longrightarrow> readable (snd (dma_write D m a bs)) x = readable m x"
    and wr_writable: "inv m \<Longrightarrow> writable (snd (dma_write D m a bs)) x = writable m x"
    and writable_readable: "inv m \<Longrightarrow> writable m x \<Longrightarrow> readable m x"
begin

lemma rd_length: "inv m \<Longrightarrow> length (snd (dma_read D m a n)) = n"
  by (simp add: rd_bytes)

lemma rd_ok: "inv m \<Longrightarrow> fst (dma_read D m a n) = MEMTX_OK \<longleftrightarrow> (\<forall>i<n. readable m (a + of_nat i))"
  by (simp add: rd_result)

lemma wr_ok:
  "inv m \<Longrightarrow> fst (dma_write D m a bs) = MEMTX_OK \<longleftrightarrow> (\<forall>i<length bs. writable m (a + of_nat i))"
  by (simp add: wr_result)

lemma rd_after_wr:
  assumes "inv m" and "length bs \<le> 2 ^ 64" and "fst (dma_write D m a bs) = MEMTX_OK"
  shows "dma_read D (snd (dma_write D m a bs)) a (length bs) = (MEMTX_OK, bs)"
proof (rule prod_eqI)
  have w: "\<forall>i<length bs. writable m (a + of_nat i)" using assms wr_ok by blast
  show "fst (dma_read D (snd (dma_write D m a bs)) a (length bs)) = fst (MEMTX_OK, bs)"
    using assms w by (simp add: rd_ok wr_inv wr_readable writable_readable)
  have "unat (of_nat i :: u64) = i" if "i < length bs" for i
    using that assms(2) by (simp add: unat_of_nat)
  then show "snd (dma_read D (snd (dma_write D m a bs)) a (length bs)) = snd (MEMTX_OK, bs)"
    using assms w by (auto simp: rd_bytes wr_inv wr_byte intro!: nth_equalityI)
qed

lemma rd_frame:
  assumes "inv m" and "length bs \<le> 2 ^ 64"
    and "\<forall>i<n. length bs \<le> unat (c + of_nat i - a)"
  shows "dma_read D (snd (dma_write D m a bs)) c n = dma_read D m c n"
proof (rule prod_eqI)
  show "snd (dma_read D (snd (dma_write D m a bs)) c n) = snd (dma_read D m c n)"
    using assms by (auto simp: rd_bytes wr_inv wr_byte)
  show "fst (dma_read D (snd (dma_write D m a bs)) c n) = fst (dma_read D m c n)"
    using assms by (simp add: rd_result wr_inv wr_readable)
qed

end

text \<open>The system address space provides it, for a well-formed view without aliases.\<close>

interpretation sysmem: dma_bus sysbus_dma "\<lambda>gm. view_ok (gm_view gm) \<and> no_alias gm" dma_byte
    "\<lambda>gm a. ram_slot gm False a \<noteq> None" "\<lambda>gm a. ram_slot gm True a \<noteq> None"
  by unfold_locales
     (auto simp: sysbus_dma_def dma_memory_read_bytes dma_memory_write_bytes dma_ok_def
        dma_byte_store_bytes ram_slot_write_read)

section \<open>One block of RAM\<close>

text \<open>
  The view of a machine whose only direct memory is \<open>sz\<close> bytes of RAM at
  \<open>base\<close>; it satisfies the assumptions above.
\<close>

definition ram_region :: MemoryRegion where
  "ram_region = \<lparr>mr_id = 1, mr_ram = True, mr_readonly = False, mr_rom_device = False,
     mr_romd_mode = False, mr_ram_device = False, mr_host = 0, mr_ram_addr = 0\<rparr>"

definition one_ram :: "nat \<Rightarrow> nat \<Rightarrow> (u64 \<Rightarrow> u8) \<Rightarrow> guest_mem" where
  "one_ram base sz ram =
     \<lparr>gm_view = [\<lparr>fr_start = base, fr_size = sz, fr_mr = ram_region, fr_offset = 0\<rparr>], gm_ram = ram\<rparr>"

lemma one_ram_slot [simp]:
  "ram_slot (one_ram base sz ram) w a =
    (if base \<le> unat a \<and> unat a < base + sz then Some (of_nat (unat a - base)) else None)"
  by (simp add: ram_slot_def one_ram_def section_covers_addr_def ram_region_def memory_access_is_direct_def)

lemma one_ram_ok [simp]:
  assumes "base + sz \<le> 2 ^ 64" and "4 dvd base" and "4 dvd sz"
  shows "view_ok (gm_view (one_ram base sz ram))" "no_alias (one_ram base sz ram)"
proof -
  show "view_ok (gm_view (one_ram base sz ram))"
    using assms by (simp add: view_ok_def one_ram_def range_ok_def ram_region_def)
  have "unat (of_nat (unat a - base) :: u64) = unat a - base" for a :: u64
    using unat_bounds(4) [of a] by (simp add: unat_of_nat)
  then have "of_nat (unat a - base) = (of_nat (unat b - base) :: u64) \<Longrightarrow> base \<le> unat a \<Longrightarrow> base \<le> unat b \<Longrightarrow> a = b"
    for a b :: u64 by (metis eq_diff_iff word_unat_eq_iff)
  then show "no_alias (one_ram base sz ram)" by (auto simp: no_alias_def split: if_splits)
qed

text \<open>RAM whose first bytes are a given list: DMA then works on the list.\<close>

definition ram_of :: "bytes \<Rightarrow> u64 \<Rightarrow> u8" where
  "ram_of xs a = (if unat a < length xs then xs ! unat a else 0)"

definition list_ram :: "nat \<Rightarrow> nat \<Rightarrow> bytes \<Rightarrow> guest_mem" where
  "list_ram base sz xs = one_ram base sz (ram_of xs)"

definition ram_fits :: "nat \<Rightarrow> nat \<Rightarrow> bytes \<Rightarrow> u64 \<Rightarrow> nat \<Rightarrow> bool" where
  "ram_fits base sz xs a n \<longleftrightarrow> base + sz \<le> 2 ^ 64 \<and> 4 dvd base \<and> 4 dvd sz \<and> length xs \<le> sz \<and>
     base \<le> unat a \<and> unat a + n \<le> base + length xs"

lemma list_ram_ok [simp]:
  assumes "base + sz \<le> 2 ^ 64" and "4 dvd base" and "4 dvd sz"
  shows "view_ok (gm_view (list_ram base sz xs))" "no_alias (list_ram base sz xs)"
  unfolding list_ram_def using assms by (rule one_ram_ok)+

lemma list_ram_slot:
  assumes "ram_fits base sz xs a n" and "i < n"
  shows "ram_slot (list_ram base sz xs) w (a + of_nat i) = Some (of_nat (unat a - base) + of_nat i)"
proof -
  have "unat (a + of_nat i) = unat a + i" using assms by (intro unat_add_small) (simp add: ram_fits_def)
  moreover have "unat a + i - base = (unat a - base) + i" using assms by (simp add: ram_fits_def)
  ultimately show ?thesis using assms by (simp add: list_ram_def ram_fits_def)
qed

lemma list_ram_read:
  assumes "ram_fits base sz xs a n"
  shows "dma_memory_read (list_ram base sz xs) a n = (MEMTX_OK, bslice (unat a - base) n xs)"
proof -
  have ok: "dma_ok (list_ram base sz xs) False a n" using list_ram_slot [OF assms] by (simp add: dma_ok_def)
  have "unat (of_nat (unat a - base) + of_nat i :: u64) = unat a - base + i" if "i < n" for i
  proof -
    have "unat (of_nat (unat a - base) :: u64) = unat a - base"
      using unat_bounds(4) [of a] by (simp add: unat_of_nat del: of_nat_diff)
    then show ?thesis using assms that
      by (subst unat_add_small) (auto simp: ram_fits_def simp del: of_nat_diff)
  qed
  then have "map (\<lambda>i. dma_byte (list_ram base sz xs) (a + of_nat i)) [0..<n] = bslice (unat a - base) n xs"
    using assms list_ram_slot [OF assms, of _ False]
    by (intro nth_equalityI) (auto simp: dma_byte_def list_ram_def one_ram_def ram_of_def bslice_def ram_fits_def)
  with ok assms show ?thesis by (simp add: dma_memory_read_bytes ram_fits_def)
qed

lemma list_ram_write:
  assumes "ram_fits base sz xs a (length bs)"
  shows "dma_memory_write (list_ram base sz xs) a bs = (MEMTX_OK, list_ram base sz (bsplice (unat a - base) bs xs))"
proof -
  define k where "k = unat a - base"
  have k: "k + length bs \<le> length xs" "length xs \<le> 2 ^ 64" using assms by (auto simp: ram_fits_def k_def)
  have ok: "dma_ok (list_ram base sz xs) True a (length bs)" using list_ram_slot [OF assms] by (simp add: dma_ok_def)
  have "store_bytes (list_ram base sz xs) a bs = ram_store (list_ram base sz xs) (of_nat k) bs"
    using ram_store_store_bytes [of bs "list_ram base sz xs" a "of_nat k"] list_ram_slot [OF assms] k
    by (simp add: k_def)
  also have "\<dots> = list_ram base sz (bsplice k bs xs)"
  proof -
    have "(if unat (x - of_nat k) < length bs then bs ! unat (x - of_nat k) else ram_of xs x) =
      ram_of (bsplice k bs xs) x" for x :: u64
    proof (cases "bs = []")
      case True
      then show ?thesis by (simp add: bsplice_def)
    next
      case False
      then have "unat (of_nat k :: u64) = k" using k by (cases bs) (simp_all add: unat_of_nat)
      then have "unat (x - of_nat k) = (if k \<le> unat x then unat x - k else unat x + 2 ^ 64 - k)"
        using unat_sub_if' [of x "of_nat k"] by (simp add: word_le_nat_alt)
      moreover have "unat x < 2 ^ 64" using unat_bounds(4) [of x] by simp
      ultimately show ?thesis using k by (auto simp: ram_of_def nth_bsplice layout_simps)
    qed
    then have "(\<lambda>x. if unat (x - of_nat k) < length bs then bs ! unat (x - of_nat k) else ram_of xs x) =
      ram_of (bsplice k bs xs)" by (rule ext)
    then show ?thesis using k by (simp add: list_ram_def one_ram_def ram_store_def layout_simps cong: if_cong)
  qed
  finally show ?thesis using ok assms by (simp add: dma_memory_write_bytes ram_fits_def k_def)
qed

section \<open>Properties\<close>



text \<open>
  C24. What a device writes by DMA and the bus accepts is what the next DMA read
  of the same range returns, and a read of a range the write does not reach is
  unaffected by it.
\<close>

theorem dma_write_then_read:
  assumes "view_ok (gm_view gm)" and "no_alias gm" and "length bs \<le> 2 ^ 64"
    and "dma_memory_write gm a bs = (MEMTX_OK, gm')"
  shows "dma_memory_read gm' a (length bs) = (MEMTX_OK, bs) \<and>
    (\<forall>c n. (\<forall>i<n. length bs \<le> unat (c + of_nat i - a)) \<longrightarrow>
       dma_memory_read gm' c n = dma_memory_read gm c n)"
  using sysmem.rd_after_wr [of gm bs a] sysmem.rd_frame [of gm bs _ _ a] assms
  by (simp add: sysbus_dma_def)

theorem dma_write_then_read_witness:
  "dma_memory_read (store_bytes (one_ram 0x70000000 0x10000 (\<lambda>a. 0)) 0x70000100 [1, 2, 3]) 0x70000100 3
     = (MEMTX_OK, [1, 2, 3])"
  using dma_write_then_read [of "one_ram 0x70000000 0x10000 (\<lambda>a. 0)" "[1, 2, 3]" "0x70000100"]
  by (simp add: dma_memory_write_bytes dma_ok_def less_Suc_eq numeral_3_eq_3)

end
