(* ===== verification/Block_Backend.thy ===== *)
theory Block_Backend
  imports Prelude
begin

text \<open>
  The synchronous request path of a block backend, as the backdoor device uses
  it (\<^verbatim>\<open>block/block-backend.c\<close>, \<^verbatim>\<open>block/io.c\<close>): the range and medium
  checks, the read-only and permission checks of a write, and the hand-over to
  the image.  The format driver, with the padding and fragmentation done on its
  behalf, is a parameter (\<open>blk_driver\<close>); \<open>driver_ok\<close> states what a successful
  driver call means.  Backends of devices never have
  \<^verbatim>\<open>allow_write_beyond_eof\<close> set, and requests carry no flags.  \<open>None\<close> is a
  failed assertion, which ends the emulator.

  The locale \<open>blk_disk\<close> is what a device may rely on, interpreted on the
  definitions at the end.
\<close>

abbreviation EPERM :: int where "EPERM \<equiv> 1"
abbreviation EIO :: int where "EIO \<equiv> 5"
abbreviation ENOMEDIUM :: int where "ENOMEDIUM \<equiv> 123"

definition BDRV_MAX_LENGTH :: int where
  "BDRV_MAX_LENGTH = 2 ^ 63 - 1 - (2 ^ 63 - 1) mod 2 ^ 30"

definition BDRV_REQUEST_MAX_BYTES :: int where
  "BDRV_REQUEST_MAX_BYTES = 512 * ((2 ^ 31 - 1) div 512)"

record blk_driver =
  drv_preadv :: "bytes \<Rightarrow> nat \<Rightarrow> nat \<Rightarrow> int \<times> bytes"
  drv_pwritev :: "bytes \<Rightarrow> nat \<Rightarrow> bytes \<Rightarrow> int \<times> bytes"

record BlockBackend =
  bb_inserted :: bool
  bb_tray_open :: bool
  bb_read_only :: bool
  bb_perm_write :: bool
  bb_request_alignment :: nat
  bb_image :: bytes
  bb_drv :: blk_driver

definition blk_co_is_available :: "BlockBackend \<Rightarrow> bool" where
  "blk_co_is_available blk \<longleftrightarrow> bb_inserted blk \<and> \<not> bb_tray_open blk"

definition bdrv_co_getlength :: "BlockBackend \<Rightarrow> int" where
  "bdrv_co_getlength blk = (if bb_inserted blk then int (length (bb_image blk)) else - ENOMEDIUM)"

definition blk_check_byte_request :: "BlockBackend \<Rightarrow> int \<Rightarrow> int \<Rightarrow> int" where
  "blk_check_byte_request blk offset bytes =
     (if bytes < 0 then - EIO
      else if \<not> blk_co_is_available blk then - ENOMEDIUM
      else if offset < 0 then - EIO
      else let len = bdrv_co_getlength blk
           in if len < 0 then len
              else if offset > len \<or> len - offset < bytes then - EIO
              else 0)"

definition bdrv_check_qiov_request :: "int \<Rightarrow> int \<Rightarrow> int" where
  "bdrv_check_qiov_request offset bytes =
     (if offset < 0 then - EIO
      else if bytes < 0 then - EIO
      else if bytes > BDRV_MAX_LENGTH then - EIO
      else if offset > BDRV_MAX_LENGTH then - EIO
      else if offset > BDRV_MAX_LENGTH - bytes then - EIO
      else 0)"

definition bdrv_check_request32 :: "int \<Rightarrow> int \<Rightarrow> int" where
  "bdrv_check_request32 offset bytes =
     (let ret = bdrv_check_qiov_request offset bytes
      in if ret < 0 then ret else if bytes > BDRV_REQUEST_MAX_BYTES then - EIO else 0)"

definition bdrv_co_preadv_part :: "BlockBackend \<Rightarrow> nat \<Rightarrow> nat \<Rightarrow> int \<times> bytes" where
  "bdrv_co_preadv_part blk offset bytes =
     (if \<not> bb_inserted blk then (- ENOMEDIUM, replicate bytes 0)
      else let ret = bdrv_check_request32 (int offset) (int bytes)
           in if ret < 0 then (ret, replicate bytes 0)
              else if bytes = 0 \<and> offset mod bb_request_alignment blk \<noteq> 0 then (0, [])
              else drv_preadv (bb_drv blk) (bb_image blk) offset bytes)"

text \<open>
  A read-only node refuses with \<^verbatim>\<open>-EPERM\<close>; a writable one whose parent has not
  taken the write permission fails an assertion.
\<close>

definition bdrv_co_write_req_prepare :: "BlockBackend \<Rightarrow> int option" where
  "bdrv_co_write_req_prepare blk =
     (if bb_read_only blk then Some (- EPERM) else if bb_perm_write blk then Some 0 else None)"

definition bdrv_aligned_pwritev :: "BlockBackend \<Rightarrow> nat \<Rightarrow> bytes \<Rightarrow> (int \<times> BlockBackend) option" where
  "bdrv_aligned_pwritev blk offset buf =
     (case bdrv_co_write_req_prepare blk of
        None \<Rightarrow> None
      | Some ret \<Rightarrow>
          if ret < 0 then Some (ret, blk)
          else let (ret', img) = drv_pwritev (bb_drv blk) (bb_image blk) offset buf
               in Some (if ret' \<ge> 0 then 0 else ret', blk\<lparr>bb_image := img\<rparr>))"

definition bdrv_co_pwritev_part :: "BlockBackend \<Rightarrow> nat \<Rightarrow> bytes \<Rightarrow> (int \<times> BlockBackend) option" where
  "bdrv_co_pwritev_part blk offset buf =
     (if \<not> bb_inserted blk then Some (- ENOMEDIUM, blk)
      else let ret = bdrv_check_request32 (int offset) (int (length buf))
           in if ret < 0 then Some (ret, blk)
              else if buf = [] \<and> offset mod bb_request_alignment blk \<noteq> 0 then Some (0, blk)
              else bdrv_aligned_pwritev blk offset buf)"

definition blk_co_do_preadv_part :: "BlockBackend \<Rightarrow> int \<Rightarrow> nat \<Rightarrow> int \<times> bytes" where
  "blk_co_do_preadv_part blk offset bytes =
     (let ret = blk_check_byte_request blk offset (int bytes)
      in if ret < 0 then (ret, replicate bytes 0)
         else bdrv_co_preadv_part blk (nat offset) bytes)"

definition blk_co_do_pwritev_part :: "BlockBackend \<Rightarrow> int \<Rightarrow> bytes \<Rightarrow> (int \<times> BlockBackend) option" where
  "blk_co_do_pwritev_part blk offset buf =
     (let ret = blk_check_byte_request blk offset (int (length buf))
      in if ret < 0 then Some (ret, blk) else bdrv_co_pwritev_part blk (nat offset) buf)"

section \<open>The interface a device sees\<close>

text \<open>
  The 64-bit offset of the caller becomes the signed \<^verbatim>\<open>int64_t\<close> parameter.  The
  buffer of a failed read keeps whatever the driver left in it; callers that
  check the return value never look at it.
\<close>

record 'b blk_ops =
  blk_pread :: "'b \<Rightarrow> u64 \<Rightarrow> nat \<Rightarrow> int \<times> bytes"
  blk_pwrite :: "'b \<Rightarrow> u64 \<Rightarrow> bytes \<Rightarrow> (int \<times> 'b) option"

definition qemu_blk :: "BlockBackend blk_ops" where
  "qemu_blk = \<lparr>blk_pread = (\<lambda>blk off n. blk_co_do_preadv_part blk (sint off) n),
              blk_pwrite = (\<lambda>blk off buf. blk_co_do_pwritev_part blk (sint off) buf)\<rparr>"

definition driver_ok :: "blk_driver \<Rightarrow> bool" where
  "driver_ok d \<longleftrightarrow>
     (\<forall>img off n. off + n \<le> length img \<and> fst (drv_preadv d img off n) \<ge> 0 \<longrightarrow>
        snd (drv_preadv d img off n) = bslice off n img) \<and>
     (\<forall>img off buf. off + length buf \<le> length img \<and> fst (drv_pwritev d img off buf) \<ge> 0 \<longrightarrow>
        snd (drv_pwritev d img off buf) = bsplice off buf img) \<and>
     (\<forall>img off buf. length (snd (drv_pwritev d img off buf)) = length img \<and>
        (\<forall>i<length img. i < off \<or> off + length buf \<le> i \<longrightarrow> snd (drv_pwritev d img off buf) ! i = img ! i))"

locale blk_disk =
  fixes B :: "'b blk_ops"
    and dinv :: "'b \<Rightarrow> bool"
    and image :: "'b \<Rightarrow> bytes"
  assumes pread_done: "dinv b \<Longrightarrow> blk_pread B b off n = (r, bs) \<Longrightarrow> r \<ge> 0 \<Longrightarrow>
      unat off + n \<le> length (image b) \<and> bs = bslice (unat off) n (image b)"
    and pwrite_done: "dinv b \<Longrightarrow> blk_pwrite B b off bs = Some (r, b') \<Longrightarrow> r \<ge> 0 \<Longrightarrow>
      unat off + length bs \<le> length (image b) \<and> image b' = bsplice (unat off) bs (image b)"
    and pwrite_inv: "dinv b \<Longrightarrow> blk_pwrite B b off bs = Some (r, b') \<Longrightarrow>
      dinv b' \<and> length (image b') = length (image b) \<and>
      (\<forall>i<length (image b). i < unat off \<or> unat off + length bs \<le> i \<longrightarrow> image b' ! i = image b ! i)"
begin

lemma pread_after_pwrite:
  assumes "dinv b" and "blk_pwrite B b off bs = Some (r, b')" and "r \<ge> 0"
    and "blk_pread B b' off (length bs) = (r', bs')" and "r' \<ge> 0"
  shows "bs' = bs"
proof -
  have "dinv b'" using pwrite_inv assms by blast
  then have "bs' = bslice (unat off) (length bs) (image b')" using pread_done assms by blast
  moreover have "image b' = bsplice (unat off) bs (image b)" "unat off + length bs \<le> length (image b)"
    using pwrite_done assms by blast+
  ultimately show ?thesis by (simp add: layout_simps)
qed

end

lemma check_byte_request_ok:
  assumes "blk_check_byte_request blk (sint (off :: u64)) (int n) \<ge> 0"
  shows "nat (sint off) = unat off \<and> unat off + n \<le> length (bb_image blk)"
proof -
  have s: "0 \<le> sint off" "sint off + int n \<le> int (length (bb_image blk))"
    using assms by (auto simp: blk_check_byte_request_def blk_co_is_available_def bdrv_co_getlength_def
        Let_def split: if_splits)
  have "uint off = take_bit 64 (sint off)" by (simp add: uint_sint)
  moreover have "sint off < 2 ^ 64" using sint_lt [of off] by simp
  ultimately have "sint off = uint off" using s(1) by (simp add: take_bit_int_eq_self)
  moreover have "uint off = int (unat off)" by simp
  ultimately show ?thesis using s(2) by (simp only: nat_int) linarith
qed

lemma driver_ok_read:
  "driver_ok d \<Longrightarrow> drv_preadv d img off n = (r, bs) \<Longrightarrow> r \<ge> 0 \<Longrightarrow> off + n \<le> length img \<Longrightarrow> bs = bslice off n img"
  by (metis driver_ok_def fst_conv snd_conv)

lemma driver_ok_write:
  "driver_ok d \<Longrightarrow> drv_pwritev d img off buf = (r, img') \<Longrightarrow>
    length img' = length img \<and>
    (\<forall>i<length img. i < off \<or> off + length buf \<le> i \<longrightarrow> img' ! i = img ! i) \<and>
    (r \<ge> 0 \<longrightarrow> off + length buf \<le> length img \<longrightarrow> img' = bsplice off buf img)"
  by (metis driver_ok_def fst_conv snd_conv)

lemma check_request32_cases: "bdrv_check_request32 off n \<in> {0, - EIO}"
  by (simp add: bdrv_check_request32_def bdrv_check_qiov_request_def Let_def)

interpretation qblk: blk_disk qemu_blk "\<lambda>blk. driver_ok (bb_drv blk)" bb_image
proof
  fix b :: BlockBackend and off :: u64 and n r bs
  assume d: "driver_ok (bb_drv b)" and p: "blk_pread qemu_blk b off n = (r, bs)" and r: "r \<ge> 0"
  have c: "blk_check_byte_request b (sint off) (int n) \<ge> 0"
    using p r by (auto simp: qemu_blk_def blk_co_do_preadv_part_def Let_def split: if_splits)
  note chk = check_byte_request_ok [OF c]
  have "bdrv_co_preadv_part b (unat off) n = (r, bs)"
    using p c chk by (simp add: qemu_blk_def blk_co_do_preadv_part_def Let_def)
  then show "unat off + n \<le> length (bb_image b) \<and> bs = bslice (unat off) n (bb_image b)"
    using d r chk check_request32_cases [of "int (unat off)" "int n"]
    by (auto simp: bdrv_co_preadv_part_def Let_def bslice_def split: if_splits
        dest!: driver_ok_read [OF d])
next
  fix b b' :: BlockBackend and off :: u64 and bs r
  assume d: "driver_ok (bb_drv b)" and p: "blk_pwrite qemu_blk b off bs = Some (r, b')" and r: "r \<ge> 0"
  have c: "blk_check_byte_request b (sint off) (int (length bs)) \<ge> 0"
    using p r by (auto simp: qemu_blk_def blk_co_do_pwritev_part_def Let_def split: if_splits)
  note chk = check_byte_request_ok [OF c]
  have "bdrv_co_pwritev_part b (unat off) bs = Some (r, b')"
    using p c chk by (simp add: qemu_blk_def blk_co_do_pwritev_part_def Let_def)
  then show "unat off + length bs \<le> length (bb_image b) \<and> bb_image b' = bsplice (unat off) bs (bb_image b)"
    using d r chk check_request32_cases [of "int (unat off)" "int (length bs)"]
    by (auto simp: bdrv_co_pwritev_part_def bdrv_aligned_pwritev_def bdrv_co_write_req_prepare_def
        Let_def bsplice_def split: if_splits option.splits prod.splits dest!: driver_ok_write [OF d])
next
  fix b b' :: BlockBackend and off :: u64 and bs r
  assume d: "driver_ok (bb_drv b)" and p: "blk_pwrite qemu_blk b off bs = Some (r, b')"
  show "driver_ok (bb_drv b') \<and> length (bb_image b') = length (bb_image b) \<and>
    (\<forall>i<length (bb_image b). i < unat off \<or> unat off + length bs \<le> i \<longrightarrow> bb_image b' ! i = bb_image b ! i)"
  proof (cases "blk_check_byte_request b (sint off) (int (length bs)) \<ge> 0")
    case True
    then show ?thesis
      using d p check_byte_request_ok [OF True]
      by (auto simp: qemu_blk_def blk_co_do_pwritev_part_def bdrv_co_pwritev_part_def
          bdrv_aligned_pwritev_def bdrv_co_write_req_prepare_def Let_def
          split: if_splits option.splits prod.splits dest: driver_ok_write)
  next
    case False
    then show ?thesis using d p by (auto simp: qemu_blk_def blk_co_do_pwritev_part_def)
  qed
qed

section \<open>A raw image\<close>

text \<open>The driver of an image held byte for byte, with no I/O errors.\<close>

definition raw_driver :: blk_driver where
  "raw_driver = \<lparr>drv_preadv = (\<lambda>img off n. (0, bslice off n img)),
     drv_pwritev = (\<lambda>img off buf. if off + length buf \<le> length img then (0, bsplice off buf img) else (- EIO, img))\<rparr>"

lemma raw_driver_ok [simp]: "driver_ok raw_driver"
  by (auto simp: driver_ok_def raw_driver_def layout_simps nth_bsplice)

definition raw_disk :: "bytes \<Rightarrow> BlockBackend" where
  "raw_disk img = \<lparr>bb_inserted = True, bb_tray_open = False, bb_read_only = False, bb_perm_write = True,
     bb_request_alignment = 1, bb_image = img, bb_drv = raw_driver\<rparr>"

lemmas blk_eval = qemu_blk_def blk_co_do_preadv_part_def blk_co_do_pwritev_part_def
  blk_check_byte_request_def blk_co_is_available_def bdrv_co_getlength_def bdrv_co_preadv_part_def
  bdrv_co_pwritev_part_def bdrv_aligned_pwritev_def bdrv_co_write_req_prepare_def
  bdrv_check_request32_def bdrv_check_qiov_request_def BDRV_MAX_LENGTH_def BDRV_REQUEST_MAX_BYTES_def
  raw_disk_def raw_driver_def

end
