(* ===== verification/Bdif.thy ===== *)
theory Bdif
  imports Guest_Memory Block_Backend
begin

text \<open>
  The backdoor interface \<^verbatim>\<open>hw/vmapple/bdif.c\<close>: register window, the two block
  channels (\<^verbatim>\<open>vblk_cmd\<close>) and the USB channel (\<^verbatim>\<open>vusb_*\<close>).  Guest memory and
  the block backends are reached through \<open>dma_ops\<close> and \<open>blk_ops\<close>; the USB
  character device is the connection flag of the state, the answer of
  \<^verbatim>\<open>qemu_chr_fe_write_all\<close> (the parameter \<open>chr_write_all\<close>) and the list
  \<open>usb_output\<close> of buffers handed to it.  Tracing is left out, and so is the
  \<^verbatim>\<open>usb_input == NULL\<close> case, which only exists after finalization.  \<open>None\<close> is a
  failed assertion of the block layer.

  First the model, then the block channel inside \<open>vblk_host\<close> (a DMA bus and a
  disk), then the USB channel: its invariant over all reachable states and the
  delivery of frames.
\<close>

section \<open>State and registers\<close>

record 'b VMAppleBdifState =
  bd_aux :: 'b
  bd_root :: 'b
  usb_connected :: bool
  usb_input :: bytes
  usb_output :: "bytes list"
  usb_queue :: u32
  usb_rx_ready :: bool
  usb_rx_posted :: bool
  usb_rx_addr :: u64
  usb_rx_len :: u32
  usb_rx_pending :: bool
  usb_rx_pending_addr :: u64
  usb_rx_pending_len :: u32

abbreviation (input) REG_DEVID_MASK :: u64 where "REG_DEVID_MASK \<equiv> 0xffff0000"
abbreviation (input) DEVID_ROOT :: u64 where "DEVID_ROOT \<equiv> 0"
abbreviation (input) DEVID_AUX :: u64 where "DEVID_AUX \<equiv> 0x10000"
abbreviation (input) DEVID_USB :: u64 where "DEVID_USB \<equiv> 0x100000"
abbreviation (input) REG_STATUS :: u64 where "REG_STATUS \<equiv> 0"
abbreviation (input) REG_CFG :: u64 where "REG_CFG \<equiv> 4"
abbreviation (input) REG_UNK1 :: u64 where "REG_UNK1 \<equiv> 8"
abbreviation (input) REG_BUSY :: u64 where "REG_BUSY \<equiv> 0x10"
abbreviation (input) REG_UNK2 :: u64 where "REG_UNK2 \<equiv> 0x400"
abbreviation (input) REG_CMD :: u64 where "REG_CMD \<equiv> 0x408"
abbreviation (input) REG_QUEUE :: u64 where "REG_QUEUE \<equiv> 0x410"
abbreviation (input) REG_NEXT_DEVICE :: u64 where "REG_NEXT_DEVICE \<equiv> 0x420"
abbreviation (input) REG_UNK3 :: u64 where "REG_UNK3 \<equiv> 0x434"

text \<open>The request structures, read from their little-endian images.\<close>

record VblkReqCmd =
  rc_addr :: u64
  rc_len :: u32
  rc_flags :: u32

record VblkReq =
  rq_sector :: VblkReqCmd
  rq_data :: VblkReqCmd
  rq_retval :: VblkReqCmd

definition le2cpu_reqcmd :: "bytes \<Rightarrow> VblkReqCmd" where
  "le2cpu_reqcmd bs = \<lparr>rc_addr = le64 bs, rc_len = le32 (drop 8 bs), rc_flags = le32 (drop 12 bs)\<rparr>"

definition le2cpu_req :: "bytes \<Rightarrow> VblkReq" where
  "le2cpu_req bs = \<lparr>rq_sector = le2cpu_reqcmd bs, rq_data = le2cpu_reqcmd (drop 16 bs),
                    rq_retval = le2cpu_reqcmd (drop 32 bs)\<rparr>"

definition le2cpu_sector :: "bytes \<Rightarrow> u32" where
  "le2cpu_sector bs = le32 (drop 8 bs)"

abbreviation (input) VBLK_DATA_FLAGS_READ :: u32 where "VBLK_DATA_FLAGS_READ \<equiv> 0x00030001"
abbreviation (input) VBLK_DATA_FLAGS_WRITE :: u32 where "VBLK_DATA_FLAGS_WRITE \<equiv> 0x00010001"
abbreviation (input) VBLK_RET_SUCCESS :: u8 where "VBLK_RET_SUCCESS \<equiv> 0"
abbreviation (input) VBLK_RET_FAILED :: u8 where "VBLK_RET_FAILED \<equiv> 1"

definition bdif_usb_enabled :: "'b VMAppleBdifState \<Rightarrow> bool" where
  "bdif_usb_enabled s = usb_connected s"

definition vusb_reset_state :: "'b VMAppleBdifState \<Rightarrow> 'b VMAppleBdifState" where
  "vusb_reset_state s = s\<lparr>usb_queue := 0, usb_rx_ready := False, usb_rx_posted := False,
     usb_rx_addr := 0, usb_rx_len := 0, usb_rx_pending := False, usb_rx_pending_addr := 0,
     usb_rx_pending_len := 0, usb_input := []\<rparr>"

section \<open>The block channel\<close>

text \<open>
  The part of \<^verbatim>\<open>vblk_cmd\<close> between the request fetch and the label
  \<^verbatim>\<open>out\<close>: the status byte with the memory and disk it leaves.
\<close>

definition vblk_request ::
    "'m dma_ops \<Rightarrow> 'b blk_ops \<Rightarrow> 'b \<Rightarrow> 'm \<Rightarrow> VblkReq \<Rightarrow> u64 \<Rightarrow> (u8 \<times> 'm \<times> 'b) option" where
  "vblk_request D B blk m req static_off =
     (if rc_len (rq_sector req) \<noteq> 16 then Some (VBLK_RET_FAILED, m, blk)
      else let (dma_result, sbuf) = dma_read D m (rc_addr (rq_sector req)) 16 in
      if dma_result \<noteq> MEMTX_OK then Some (VBLK_RET_FAILED, m, blk)
      else let off = ucast (le2cpu_sector sbuf) * 512 + static_off; len = rc_len (rq_data req) in
      if len > 0x8000000 then Some (VBLK_RET_FAILED, m, blk)
      else if rc_flags (rq_data req) = VBLK_DATA_FLAGS_READ then
        (let (r, buf) = blk_pread B blk off (unat len) in
         if r < 0 then Some (VBLK_RET_FAILED, m, blk)
         else let (dma_result, m') = dma_write D m (rc_addr (rq_data req)) buf in
              Some (if dma_result = MEMTX_OK then VBLK_RET_SUCCESS else VBLK_RET_FAILED, m', blk))
      else if rc_flags (rq_data req) = VBLK_DATA_FLAGS_WRITE then
        (let (dma_result, buf) = dma_read D m (rc_addr (rq_data req)) (unat len) in
         if dma_result \<noteq> MEMTX_OK then Some (VBLK_RET_FAILED, m, blk)
         else case blk_pwrite B blk off buf of
                None \<Rightarrow> None
              | Some (r, blk') \<Rightarrow> Some (if r < 0 then VBLK_RET_FAILED else VBLK_RET_SUCCESS, m, blk'))
      else Some (VBLK_RET_FAILED, m, blk))"

text \<open>
  The status byte goes to \<^verbatim>\<open>req.retval.addr\<close> on every path, also when the
  request itself could not be fetched.
\<close>

definition vblk_cmd ::
    "'m dma_ops \<Rightarrow> 'b blk_ops \<Rightarrow> 'b \<Rightarrow> 'm \<Rightarrow> u64 \<Rightarrow> u64 \<Rightarrow> ('m \<times> 'b) option" where
  "vblk_cmd D B blk m gp_addr static_off =
     (let (dma_result, rbuf) = dma_read D m gp_addr 48; req = le2cpu_req rbuf in
      case (if dma_result \<noteq> MEMTX_OK then Some (VBLK_RET_FAILED, m, blk)
            else vblk_request D B blk m req static_off) of
        None \<Rightarrow> None
      | Some (ret, m', blk') \<Rightarrow> Some (snd (dma_write D m' (rc_addr (rq_retval req)) [ret]), blk'))"

section \<open>The USB channel\<close>

record VUsbDesc =
  ud_addr :: u64
  ud_len :: u32
  ud_next :: u16
  ud_flags :: u16

definition parse_desc :: "bytes \<Rightarrow> VUsbDesc" where
  "parse_desc bs = \<lparr>ud_addr = le64 bs, ud_len = le32 (drop 8 bs), ud_next = le16 (drop 12 bs),
                    ud_flags = le16 (drop 14 bs)\<rparr>"

abbreviation (input) VUSB_MAX_PACKET :: nat where "VUSB_MAX_PACKET \<equiv> 131072"
abbreviation (input) VUSB_MAX_TX :: nat where "VUSB_MAX_TX \<equiv> 4096"
abbreviation (input) VUSB_MAX_RX :: nat where "VUSB_MAX_RX \<equiv> 262152"

definition vusb_try_deliver ::
    "'m dma_ops \<Rightarrow> 'b VMAppleBdifState \<Rightarrow> 'm \<Rightarrow> 'b VMAppleBdifState \<times> 'm" where
  "vusb_try_deliver D s m =
     (if \<not> usb_rx_posted s \<or> usb_rx_ready s \<or> length (usb_input s) < 4 then (s, m)
      else let len = le32 (usb_input s) in
      if unat len > VUSB_MAX_PACKET then (s\<lparr>usb_input := []\<rparr>, m)
      else if length (usb_input s) < 4 + unat len then (s, m)
      else if len > usb_rx_len s then (s, m)
      else let (s', m') =
             (if len = 0 then (s\<lparr>usb_rx_ready := True\<rparr>, m)
              else let (dma_result, m') = dma_write D m (usb_rx_addr s) (bslice 4 (unat len) (usb_input s))
                   in (if dma_result \<noteq> MEMTX_OK then s else s\<lparr>usb_rx_ready := True\<rparr>, m'))
           in (s'\<lparr>usb_input := drop (4 + unat len) (usb_input s)\<rparr>, m'))"

definition vusb_can_receive :: "'b VMAppleBdifState \<Rightarrow> nat" where
  "vusb_can_receive s =
     (if length (usb_input s) \<ge> VUSB_MAX_RX then 0 else VUSB_MAX_RX - length (usb_input s))"

definition vusb_receive ::
    "'m dma_ops \<Rightarrow> 'b VMAppleBdifState \<Rightarrow> 'm \<Rightarrow> bytes \<Rightarrow> 'b VMAppleBdifState \<times> 'm" where
  "vusb_receive D s m buf =
     (if buf = [] then (s, m)
      else if length (usb_input s) \<ge> VUSB_MAX_RX then (s, m)
      else if length (usb_input s) + length buf > VUSB_MAX_RX then (s, m)
      else vusb_try_deliver D (s\<lparr>usb_input := usb_input s @ buf\<rparr>) m)"

datatype QEMUChrEvent = CHR_EVENT_BREAK | CHR_EVENT_OPENED | CHR_EVENT_MUX_IN | CHR_EVENT_MUX_OUT | CHR_EVENT_CLOSED

definition vusb_event :: "'b VMAppleBdifState \<Rightarrow> QEMUChrEvent \<Rightarrow> 'b VMAppleBdifState" where
  "vusb_event s event =
     (if event = CHR_EVENT_CLOSED \<or> event = CHR_EVENT_BREAK
      then s\<lparr>usb_rx_ready := False, usb_rx_posted := False, usb_rx_pending := False,
             usb_rx_pending_addr := 0, usb_rx_pending_len := 0, usb_input := []\<rparr>
      else s)"

text \<open>Queue 0 posts a receive buffer, queue 1 transmits a frame with its length in front.\<close>

definition vusb_rx_cmd ::
    "'m dma_ops \<Rightarrow> 'b VMAppleBdifState \<Rightarrow> 'm \<Rightarrow> VUsbDesc \<Rightarrow> 'b VMAppleBdifState \<times> 'm" where
  "vusb_rx_cmd D s m desc =
     (if usb_rx_ready s then
        (if ud_len desc = 0 \<or> unat (ud_len desc) > VUSB_MAX_PACKET then (s, m)
         else (s\<lparr>usb_rx_pending_addr := ud_addr desc, usb_rx_pending_len := ud_len desc,
                 usb_rx_pending := True\<rparr>, m))
      else if ud_len desc = 0 \<or> unat (ud_len desc) > VUSB_MAX_PACKET then (s, m)
      else vusb_try_deliver D
             (s\<lparr>usb_rx_addr := ud_addr desc, usb_rx_len := ud_len desc, usb_rx_posted := True\<rparr>) m)"

definition vusb_tx_cmd ::
    "'m dma_ops \<Rightarrow> (bytes \<Rightarrow> int) \<Rightarrow> 'b VMAppleBdifState \<Rightarrow> 'm \<Rightarrow> VUsbDesc \<Rightarrow> 'b VMAppleBdifState" where
  "vusb_tx_cmd D chr_write_all s m desc =
     (if ud_len desc = 0 \<or> unat (ud_len desc) > VUSB_MAX_TX then s
      else let (dma_result, buf) = dma_read D m (ud_addr desc) (unat (ud_len desc)) in
      if dma_result \<noteq> MEMTX_OK then s
      else if usb_connected s then
        (let wire_len = to_le32 (ud_len desc); s1 = s\<lparr>usb_output := usb_output s @ [wire_len]\<rparr> in
         if chr_write_all wire_len \<noteq> 4 then s1
         else s1\<lparr>usb_output := usb_output s1 @ [buf]\<rparr>)
      else s)"

definition vusb_cmd ::
    "'m dma_ops \<Rightarrow> (bytes \<Rightarrow> int) \<Rightarrow> 'b VMAppleBdifState \<Rightarrow> 'm \<Rightarrow> u64 \<Rightarrow> 'b VMAppleBdifState \<times> 'm" where
  "vusb_cmd D chr_write_all s m gp_addr =
     (let (dma_result, words) = dma_read D m gp_addr 128 in
      if dma_result \<noteq> MEMTX_OK then (s, m)
      else let desc = parse_desc words in
           if usb_queue s = 0 then vusb_rx_cmd D s m desc
           else if usb_queue s = 1 then (vusb_tx_cmd D chr_write_all s m desc, m)
           else (s, m))"

section \<open>The register window\<close>

definition bdif_read ::
    "'m dma_ops \<Rightarrow> 'b VMAppleBdifState \<Rightarrow> 'm \<Rightarrow> u64 \<Rightarrow> u64 \<times> 'b VMAppleBdifState \<times> 'm" where
  "bdif_read D s m offset =
     (let devid = offset AND REG_DEVID_MASK; reg = offset AND 0xffff;
          usb = (devid = DEVID_USB \<and> bdif_usb_enabled s) in
      if reg = REG_STATUS then (1, s, m)
      else if reg = REG_CFG then (if usb then 0x1a01 else 2, s, m)
      else if reg = REG_UNK1 then (0x420, s, m)
      else if reg = REG_BUSY then
        (if usb \<and> usb_queue s = 0 then
           (if usb_rx_ready s then
              (let s1 = s\<lparr>usb_rx_posted := False, usb_rx_ready := False\<rparr>;
                   (s2, m2) =
                     (if usb_rx_pending s1
                      then vusb_try_deliver D
                             (s1\<lparr>usb_rx_pending := False, usb_rx_addr := usb_rx_pending_addr s1,
                                 usb_rx_len := usb_rx_pending_len s1, usb_rx_pending_addr := 0,
                                 usb_rx_pending_len := 0, usb_rx_posted := True\<rparr>) m
                      else (s1, m))
               in (1, s2, m2))
            else (0, s, m))
         else (1, s, m))
      else if reg = REG_UNK2 then (1, s, m)
      else if reg = REG_QUEUE then (if usb then ucast (usb_queue s) else - 1, s, m)
      else if reg = REG_UNK3 then (0, s, m)
      else if reg = REG_NEXT_DEVICE then
        (if devid = DEVID_ROOT then 0x8000000 else if devid = DEVID_AUX then 0x10000 else - 1, s, m)
      else (- 1, s, m))"

definition bdif_write ::
    "'m dma_ops \<Rightarrow> 'b blk_ops \<Rightarrow> (bytes \<Rightarrow> int) \<Rightarrow> 'b VMAppleBdifState \<Rightarrow> 'm \<Rightarrow> u64 \<Rightarrow> u64 \<Rightarrow>
       ('b VMAppleBdifState \<times> 'm) option" where
  "bdif_write D B chr_write_all s m offset val =
     (let devid = offset AND REG_DEVID_MASK; reg = offset AND 0xffff in
      if reg = REG_QUEUE then
        Some (if devid = DEVID_USB \<and> bdif_usb_enabled s \<and> \<not> val > 1
              then s\<lparr>usb_queue := ucast val\<rparr> else s, m)
      else if reg = REG_CMD then
        (if devid = DEVID_ROOT then
           (case vblk_cmd D B (bd_root s) m val 0 of
              None \<Rightarrow> None | Some (m', blk') \<Rightarrow> Some (s\<lparr>bd_root := blk'\<rparr>, m'))
         else if devid = DEVID_AUX then
           (case vblk_cmd D B (bd_aux s) m val 0 of
              None \<Rightarrow> None | Some (m', blk') \<Rightarrow> Some (s\<lparr>bd_aux := blk'\<rparr>, m'))
         else if devid = DEVID_USB then
           Some (if bdif_usb_enabled s then vusb_cmd D chr_write_all s m val else (s, m))
         else Some (s, m))
      else Some (s, m))"

definition bdif_reset :: "'b VMAppleBdifState \<Rightarrow> 'b VMAppleBdifState" where
  "bdif_reset s = vusb_reset_state s"

section \<open>Block channel: a DMA bus and a disk\<close>

text \<open>
  A request block in guest memory that passes every check up to the transfer:
  it is readable, names a 16-byte sector descriptor that is readable, and asks
  for at most 128 MiB.
\<close>

definition vblk_req_ok :: "'m dma_ops \<Rightarrow> 'm \<Rightarrow> u64 \<Rightarrow> VblkReq \<Rightarrow> u32 \<Rightarrow> bool" where
  "vblk_req_ok D m gp req sector \<longleftrightarrow>
     fst (dma_read D m gp 48) = MEMTX_OK \<and> le2cpu_req (snd (dma_read D m gp 48)) = req \<and>
     rc_len (rq_sector req) = 16 \<and>
     fst (dma_read D m (rc_addr (rq_sector req)) 16) = MEMTX_OK \<and>
     le2cpu_sector (snd (dma_read D m (rc_addr (rq_sector req)) 16)) = sector \<and>
     rc_len (rq_data req) \<le> 0x8000000"

definition sector_off :: "u32 \<Rightarrow> nat" where
  "sector_off sector = unat (ucast sector * 512 :: u64)"

lemma sector_off_exact: "sector_off sector = 512 * unat sector"
  using unat_bounds(3) [of sector] by (simp add: sector_off_def unat_word_ariths)

locale vblk_host = dma_bus D inv byte_at readable writable + blk_disk B dinv image
  for D :: "'m dma_ops" and inv byte_at readable writable
    and B :: "'b blk_ops" and dinv image
begin

lemma vblk_cmd_read_eq:
  assumes "vblk_req_ok D m gp req sector" and "rc_flags (rq_data req) = VBLK_DATA_FLAGS_READ"
    and "blk_pread B b (ucast sector * 512) (unat (rc_len (rq_data req))) = (r, buf)"
  shows "vblk_cmd D B b m gp 0 =
    (if r < 0 then Some (snd (dma_write D m (rc_addr (rq_retval req)) [VBLK_RET_FAILED]), b)
     else let (res, m1) = dma_write D m (rc_addr (rq_data req)) buf in
       Some (snd (dma_write D m1 (rc_addr (rq_retval req))
         [if res = MEMTX_OK then VBLK_RET_SUCCESS else VBLK_RET_FAILED]), b))"
  using assms by (simp add: vblk_cmd_def vblk_request_def vblk_req_ok_def Let_def case_prod_unfold leD)

lemma vblk_cmd_write_eq:
  assumes "vblk_req_ok D m gp req sector" and "rc_flags (rq_data req) = VBLK_DATA_FLAGS_WRITE"
    and "dma_read D m (rc_addr (rq_data req)) (unat (rc_len (rq_data req))) = (res, buf)"
  shows "vblk_cmd D B b m gp 0 =
    (if res \<noteq> MEMTX_OK then Some (snd (dma_write D m (rc_addr (rq_retval req)) [VBLK_RET_FAILED]), b)
     else case blk_pwrite B b (ucast sector * 512) buf of
       None \<Rightarrow> None
     | Some (r, b') \<Rightarrow> Some (snd (dma_write D m (rc_addr (rq_retval req))
         [if r < 0 then VBLK_RET_FAILED else VBLK_RET_SUCCESS]), b'))"
  using assms
  by (simp add: vblk_cmd_def vblk_request_def vblk_req_ok_def Let_def case_prod_unfold leD split: option.split)

lemma status_byte:
  "inv m \<Longrightarrow> byte_at (snd (dma_write D m ra [v])) x = (if x = ra \<and> writable m ra then v else byte_at m x)"
proof -
  have "unat (x - ra) < 1 \<longleftrightarrow> x = ra" by (simp add: unat_eq_0)
  then show "inv m \<Longrightarrow> byte_at (snd (dma_write D m ra [v])) x = (if x = ra \<and> writable m ra then v else byte_at m x)"
    by (auto simp: wr_byte)
qed

text \<open>A read that succeeds on the disk and on the bus fills the buffer from the image.\<close>

lemma vblk_read_done:
  assumes m: "inv m" and b: "dinv b" and q: "vblk_req_ok D m gp req sector"
    and fl: "rc_flags (rq_data req) = VBLK_DATA_FLAGS_READ"
    and c: "vblk_cmd D B b m gp 0 = Some (m', b')"
    and w: "writable m (rc_addr (rq_retval req))"
    and sep: "unat (rc_len (rq_data req)) \<le> unat (rc_addr (rq_retval req) - rc_addr (rq_data req))"
    and ok: "byte_at m' (rc_addr (rq_retval req)) = VBLK_RET_SUCCESS"
  shows "b' = b \<and> sector_off sector + unat (rc_len (rq_data req)) \<le> length (image b) \<and>
    (\<forall>i<unat (rc_len (rq_data req)). byte_at m' (rc_addr (rq_data req) + of_nat i) =
       image b ! (sector_off sector + i))"
proof -
  let ?n = "unat (rc_len (rq_data req))" and ?da = "rc_addr (rq_data req)" and ?ra = "rc_addr (rq_retval req)"
  obtain r buf where p: "blk_pread B b (ucast sector * 512) ?n = (r, buf)" by fastforce
  obtain res m1 where d: "dma_write D m ?da buf = (res, m1)" by fastforce
  have r: "\<not> r < 0" using vblk_cmd_read_eq [OF q fl p] c ok w m by (auto simp: status_byte)
  with pread_done [OF b p]
  have rng: "sector_off sector + ?n \<le> length (image b)" "buf = bslice (sector_off sector) ?n (image b)"
    by (simp_all add: sector_off_def)
  then have len: "length buf = ?n" by (simp add: bslice_def)
  have "?n \<le> 2 ^ 64" using unat_bounds(3) [of "rc_len (rq_data req)"] by simp
  note wb = wr_byte [OF m this [folded len], of ?da, unfolded d snd_conv]
  have m1: "inv m1" "writable m1 ?ra = writable m ?ra" using wr_inv [OF m] wr_writable [OF m] d by (metis snd_conv)+
  have eq: "m' = snd (dma_write D m1 ?ra [if res = MEMTX_OK then VBLK_RET_SUCCESS else VBLK_RET_FAILED])" "b' = b"
    using vblk_cmd_read_eq [OF q fl p] r c d by auto
  have "res = MEMTX_OK" using ok w m1 by (auto simp: eq status_byte split: if_splits)
  then have wr: "\<forall>i<?n. writable m (?da + of_nat i)" using wr_ok [OF m, of ?da buf] d len by simp
  have "byte_at m' (?da + of_nat i) = image b ! (sector_off sector + i)" if i: "i < ?n" for i
  proof -
    have u: "unat (?da + of_nat i - ?da) = i"
      using i unat_bounds(3) [of "rc_len (rq_data req)"] by (simp add: unat_of_nat)
    then have "?da + of_nat i \<noteq> ?ra" using sep i by (metis not_le)
    then show ?thesis using i u wr rng wb [of "?da + of_nat i"] len m1 by (simp add: eq status_byte bslice_def)
  qed
  then show ?thesis using rng eq by blast
qed

text \<open>A write that reports success put the buffer into the image.\<close>

lemma vblk_write_done:
  assumes m: "inv m" and b: "dinv b" and q: "vblk_req_ok D m gp req sector"
    and fl: "rc_flags (rq_data req) = VBLK_DATA_FLAGS_WRITE"
    and c: "vblk_cmd D B b m gp 0 = Some (m', b')"
    and w: "writable m (rc_addr (rq_retval req))"
    and ok: "byte_at m' (rc_addr (rq_retval req)) = VBLK_RET_SUCCESS"
  shows "dinv b' \<and> sector_off sector + unat (rc_len (rq_data req)) \<le> length (image b) \<and>
    image b' = bsplice (sector_off sector)
      (map (\<lambda>i. byte_at m (rc_addr (rq_data req) + of_nat i)) [0..<unat (rc_len (rq_data req))]) (image b)"
proof -
  obtain res buf where d: "dma_read D m (rc_addr (rq_data req)) (unat (rc_len (rq_data req))) = (res, buf)"
    by fastforce
  have buf: "buf = map (\<lambda>i. byte_at m (rc_addr (rq_data req) + of_nat i)) [0..<unat (rc_len (rq_data req))]"
    using rd_bytes [OF m] d by (metis snd_conv)
  have res: "res = MEMTX_OK"
    using vblk_cmd_write_eq [OF q fl d] c ok w m by (auto simp: status_byte split: if_splits)
  then obtain r where p: "blk_pwrite B b (ucast sector * 512) buf = Some (r, b')" "r \<ge> 0"
    using vblk_cmd_write_eq [OF q fl d] c ok w m
    by (auto simp: status_byte split: if_splits option.splits prod.splits)
  show ?thesis using pwrite_done [OF b p] pwrite_inv [OF b p(1)] by (simp add: buf sector_off_def)
qed

text \<open>Any other request is answered with the failure status and nothing else.\<close>

lemma vblk_cmd_reject:
  assumes "req = le2cpu_req (snd (dma_read D m gp 48))"
    and "\<not> vblk_req_ok D m gp req (le2cpu_sector (snd (dma_read D m (rc_addr (rq_sector req)) 16))) \<or>
      rc_flags (rq_data req) \<notin> {VBLK_DATA_FLAGS_READ, VBLK_DATA_FLAGS_WRITE}"
  shows "vblk_cmd D B b m gp 0 = Some (snd (dma_write D m (rc_addr (rq_retval req)) [VBLK_RET_FAILED]), b)"
  using assms
  by (auto simp: vblk_cmd_def vblk_request_def vblk_req_ok_def Let_def case_prod_unfold not_le)

lemma vblk_cmd_frame:
  assumes m: "inv m" and b: "dinv b" and c: "vblk_cmd D B b m gp 0 = Some (m', b')"
    and req: "req = le2cpu_req (snd (dma_read D m gp 48))"
    and sector: "sector = le2cpu_sector (snd (dma_read D m (rc_addr (rq_sector req)) 16))"
  shows "(\<forall>x. byte_at m' x \<noteq> byte_at m x \<longrightarrow> x = rc_addr (rq_retval req) \<or>
      rc_flags (rq_data req) = VBLK_DATA_FLAGS_READ \<and>
      unat (x - rc_addr (rq_data req)) < unat (rc_len (rq_data req))) \<and>
    (rc_flags (rq_data req) \<noteq> VBLK_DATA_FLAGS_WRITE \<longrightarrow> b' = b) \<and>
    length (image b') = length (image b) \<and>
    (\<forall>i<length (image b). i < sector_off sector \<or> sector_off sector + unat (rc_len (rq_data req)) \<le> i \<longrightarrow>
       image b' ! i = image b ! i)"
proof -
  let ?n = "unat (rc_len (rq_data req))"
  consider (reject) "\<not> vblk_req_ok D m gp req sector \<or>
      rc_flags (rq_data req) \<notin> {VBLK_DATA_FLAGS_READ, VBLK_DATA_FLAGS_WRITE}"
    | (read) "vblk_req_ok D m gp req sector" "rc_flags (rq_data req) = VBLK_DATA_FLAGS_READ"
    | (wr) "vblk_req_ok D m gp req sector" "rc_flags (rq_data req) = VBLK_DATA_FLAGS_WRITE"
    by blast
  then show ?thesis
  proof cases
    case reject
    then show ?thesis using vblk_cmd_reject [OF req, of b] c m by (auto simp: sector status_byte)
  next
    case read
    obtain r buf where p: "blk_pread B b (ucast sector * 512) ?n = (r, buf)" by fastforce
    show ?thesis
    proof (cases "r < 0")
      case True
      then show ?thesis using vblk_cmd_read_eq [OF read p] c m by (auto simp: status_byte)
    next
      case False
      then have len: "length buf = ?n" using pread_done [OF b p] by (auto simp: length_bslice)
      then have "length buf \<le> 2 ^ 64" using unat_bounds(3) [of "rc_len (rq_data req)"] by simp
      note wb = wr_byte [OF m this, of "rc_addr (rq_data req)"]
      have "m' = snd (dma_write D (snd (dma_write D m (rc_addr (rq_data req)) buf)) (rc_addr (rq_retval req))
          [if fst (dma_write D m (rc_addr (rq_data req)) buf) = MEMTX_OK then VBLK_RET_SUCCESS else VBLK_RET_FAILED])"
        "b' = b"
        using vblk_cmd_read_eq [OF read p] c False by (simp_all add: Let_def case_prod_unfold)
      then show ?thesis
        using m len read(2) by (auto simp: wb status_byte wr_inv split: if_splits)
    qed
  next
    case wr
    obtain res buf where d: "dma_read D m (rc_addr (rq_data req)) ?n = (res, buf)" by fastforce
    then have len: "length buf = ?n" using rd_length [OF m] by (metis snd_conv)
    show ?thesis
      using vblk_cmd_write_eq [OF wr d] c m wr(2) pwrite_inv [OF b, of "ucast sector * 512" buf] len
      by (auto simp: status_byte sector_off_def split: if_splits option.splits prod.splits)
  qed
qed

end

interpretation bdif_host: vblk_host sysbus_dma "\<lambda>gm. view_ok (gm_view gm) \<and> no_alias gm" dma_byte
    "\<lambda>gm a. ram_slot gm False a \<noteq> None" "\<lambda>gm a. ram_slot gm True a \<noteq> None"
    qemu_blk "\<lambda>blk. driver_ok (bb_drv blk)" bb_image
  by unfold_locales

section \<open>USB channel\<close>

text \<open>
  What holds of the receive side at any time: a completed frame belongs to a
  posted buffer, a stashed buffer waits for a completion, posted and stashed
  buffers have a legal length, and the input never exceeds its bound.
\<close>

definition vusb_inv :: "'b VMAppleBdifState \<Rightarrow> bool" where
  "vusb_inv s \<longleftrightarrow>
     (usb_rx_ready s \<longrightarrow> usb_rx_posted s) \<and>
     (usb_rx_pending s \<longrightarrow> usb_rx_ready s) \<and>
     (usb_rx_posted s \<longrightarrow> 0 < usb_rx_len s \<and> unat (usb_rx_len s) \<le> VUSB_MAX_PACKET) \<and>
     (usb_rx_pending s \<longrightarrow> 0 < usb_rx_pending_len s \<and> unat (usb_rx_pending_len s) \<le> VUSB_MAX_PACKET) \<and>
     usb_queue s \<le> 1 \<and> length (usb_input s) \<le> VUSB_MAX_RX"

text \<open>Everything that can happen to the device, from the guest, the host side and the machine.\<close>

datatype bdif_event =
    Ev_read u64
  | Ev_write u64 u64
  | Ev_receive bytes
  | Ev_chr QEMUChrEvent
  | Ev_connect bool
  | Ev_reset

definition bdif_step ::
    "'m dma_ops \<Rightarrow> 'b blk_ops \<Rightarrow> (bytes \<Rightarrow> int) \<Rightarrow> 'b VMAppleBdifState \<times> 'm \<Rightarrow> bdif_event \<Rightarrow>
       ('b VMAppleBdifState \<times> 'm) option" where
  "bdif_step D B chr_write_all = (\<lambda>(s, m) ev.
     case ev of
       Ev_read off \<Rightarrow> Some (snd (bdif_read D s m off))
     | Ev_write off v \<Rightarrow> bdif_write D B chr_write_all s m off v
     | Ev_receive buf \<Rightarrow> Some (vusb_receive D s m buf)
     | Ev_chr e \<Rightarrow> Some (vusb_event s e, m)
     | Ev_connect c \<Rightarrow> Some (s\<lparr>usb_connected := c\<rparr>, m)
     | Ev_reset \<Rightarrow> Some (bdif_reset s, m))"

inductive bdif_reach ::
    "'m dma_ops \<Rightarrow> 'b blk_ops \<Rightarrow> (bytes \<Rightarrow> int) \<Rightarrow> 'b VMAppleBdifState \<times> 'm \<Rightarrow> bool"
  for D B chr_write_all where
  power_on: "bdif_reach D B chr_write_all (vusb_reset_state s, m)"
| event: "bdif_reach D B chr_write_all st \<Longrightarrow> bdif_step D B chr_write_all st ev = Some st' \<Longrightarrow>
    bdif_reach D B chr_write_all st'"

lemma try_deliver_inv:
  "vusb_try_deliver D s m = (s', m') \<Longrightarrow>
    usb_rx_posted s' = usb_rx_posted s \<and> usb_rx_len s' = usb_rx_len s \<and>
    usb_rx_addr s' = usb_rx_addr s \<and> usb_queue s' = usb_queue s \<and>
    usb_rx_pending s' = usb_rx_pending s \<and> usb_rx_pending_len s' = usb_rx_pending_len s \<and>
    (usb_rx_ready s \<longrightarrow> usb_rx_ready s') \<and> (usb_rx_ready s' \<longrightarrow> usb_rx_ready s \<or> usb_rx_posted s) \<and>
    length (usb_input s') \<le> length (usb_input s)"
  by (auto simp: vusb_try_deliver_def Let_def split: if_splits prod.splits)

lemma vusb_inv_try_deliver:
  assumes "vusb_inv s" and "vusb_try_deliver D s m = (s', m')"
  shows "vusb_inv s'"
  using assms(1) try_deliver_inv [OF assms(2)] unfolding vusb_inv_def by auto

lemma vusb_inv_reset: "vusb_inv (vusb_reset_state s)"
  by (simp add: vusb_inv_def vusb_reset_state_def)

lemma vusb_inv_event: "vusb_inv s \<Longrightarrow> vusb_inv (vusb_event s e)"
  by (simp add: vusb_inv_def vusb_event_def)

lemma vusb_inv_receive:
  assumes "vusb_inv s" and "vusb_receive D s m buf = (s', m')"
  shows "vusb_inv s'"
proof (cases "buf = [] \<or> length (usb_input s) + length buf > VUSB_MAX_RX")
  case True
  then show ?thesis using assms by (auto simp: vusb_receive_def split: if_splits)
next
  case False
  then have "vusb_inv (s\<lparr>usb_input := usb_input s @ buf\<rparr>)" using assms(1) by (simp add: vusb_inv_def)
  then show ?thesis using False assms by (auto simp: vusb_receive_def intro: vusb_inv_try_deliver split: if_splits)
qed

lemma vusb_inv_rx_cmd:
  assumes "vusb_inv s" and "vusb_rx_cmd D s m desc = (s', m')"
  shows "vusb_inv s'"
proof (cases "ud_len desc = 0 \<or> unat (ud_len desc) > VUSB_MAX_PACKET \<or> usb_rx_ready s")
  case True
  then show ?thesis using assms by (auto simp: vusb_rx_cmd_def vusb_inv_def word_neq_0_conv split: if_splits)
next
  case False
  let ?s1 = "s\<lparr>usb_rx_addr := ud_addr desc, usb_rx_len := ud_len desc, usb_rx_posted := True\<rparr>"
  have "vusb_inv ?s1" using False assms(1) by (auto simp: vusb_inv_def word_neq_0_conv)
  moreover have "vusb_try_deliver D ?s1 m = (s', m')" using False assms(2) by (simp add: vusb_rx_cmd_def)
  ultimately show ?thesis by (rule vusb_inv_try_deliver)
qed

lemma vusb_inv_cmd:
  assumes "vusb_inv s" and "vusb_cmd D w s m gp = (s', m')"
  shows "vusb_inv s'"
proof -
  have "vusb_inv (vusb_tx_cmd D w s m desc)" for desc
    using assms(1) by (simp add: vusb_inv_def vusb_tx_cmd_def Let_def split: prod.split)
  then show ?thesis
    using assms by (auto simp: vusb_cmd_def Let_def intro: vusb_inv_rx_cmd split: if_splits prod.splits)
qed

lemma vusb_inv_read:
  assumes "vusb_inv s" and "bdif_read D s m off = (v, s', m')"
  shows "vusb_inv s'"
proof (cases "off AND 0xffff = REG_BUSY \<and> off AND REG_DEVID_MASK = DEVID_USB \<and> usb_connected s \<and>
    usb_queue s = 0 \<and> usb_rx_ready s \<and> usb_rx_pending s")
  case True
  let ?s1 = "s\<lparr>usb_rx_ready := False, usb_rx_pending := False,
    usb_rx_addr := usb_rx_pending_addr s, usb_rx_len := usb_rx_pending_len s,
    usb_rx_pending_addr := 0, usb_rx_pending_len := 0, usb_rx_posted := True\<rparr>"
  have "vusb_inv ?s1" using True assms(1) by (simp add: vusb_inv_def)
  moreover have "vusb_try_deliver D ?s1 m = (s', m')"
    using True assms(2) by (simp add: bdif_read_def bdif_usb_enabled_def Let_def split: prod.splits)
  ultimately show ?thesis by (rule vusb_inv_try_deliver)
next
  case False
  then show ?thesis
    using assms by (auto simp: bdif_read_def bdif_usb_enabled_def Let_def vusb_inv_def split: if_splits prod.splits)
qed

lemma vusb_inv_other [simp]:
  "vusb_inv (s\<lparr>bd_root := b\<rparr>) = vusb_inv s" "vusb_inv (s\<lparr>bd_aux := b\<rparr>) = vusb_inv s"
  "vusb_inv (s\<lparr>usb_connected := c\<rparr>) = vusb_inv s"
  by (simp_all add: vusb_inv_def)

lemma vusb_inv_queue:
  assumes "vusb_inv s" and "\<not> 1 < (v :: u64)"
  shows "vusb_inv (s\<lparr>usb_queue := ucast v\<rparr>)"
proof -
  have "unat v = 0 \<or> unat v = 1" using assms(2) by (auto simp: not_less word_le_nat_alt)
  then have "v = 0 \<or> v = 1" by (metis unsigned_0 unsigned_1 unsigned_word_eqI)
  then show ?thesis using assms(1) by (auto simp: vusb_inv_def)
qed

lemma vusb_inv_write:
  assumes "vusb_inv s" and "bdif_write D B w s m off v = Some (s', m')"
  shows "vusb_inv s'"
  using assms vusb_inv_queue [OF assms(1), of v] unfolding bdif_write_def Let_def
  by (force split: if_split_asm option.split_asm prod.split_asm dest: vusb_inv_cmd [OF assms(1)])

lemma vusb_inv_step:
  assumes "vusb_inv s" and "bdif_step D B w (s, m) ev = Some (s', m')"
  shows "vusb_inv s'"
proof (cases ev)
  case (Ev_read off)
  then show ?thesis using assms vusb_inv_read [OF assms(1), of D m off]
    by (cases "bdif_read D s m off") (auto simp: bdif_step_def)
qed (use assms vusb_inv_write vusb_inv_receive in
    \<open>auto simp: bdif_step_def bdif_reset_def vusb_inv_reset vusb_inv_event\<close>)

lemma bdif_reach_inv: "bdif_reach D B w st \<Longrightarrow> vusb_inv (fst st)"
proof (induction rule: bdif_reach.induct)
  case (event st ev st')
  then show ?case by (cases st; cases st') (auto intro: vusb_inv_step)
qed (simp add: vusb_inv_reset)

text \<open>The wire form of a frame.\<close>

definition usb_frame :: "bytes \<Rightarrow> bytes" where
  "usb_frame f = to_le32 (of_nat (length f)) @ f"

lemma try_deliver_frame:
  assumes "usb_rx_posted s" "\<not> usb_rx_ready s" "usb_input s = usb_frame f @ rest"
    and "length f \<le> VUSB_MAX_PACKET" "length f \<le> unat (usb_rx_len s)"
    and "f = [] \<or> fst (dma_write D m (usb_rx_addr s) f) = MEMTX_OK"
  shows "vusb_try_deliver D s m =
    (s\<lparr>usb_rx_ready := True, usb_input := rest\<rparr>, if f = [] then m else snd (dma_write D m (usb_rx_addr s) f))"
proof -
  have u: "unat (of_nat (length f) :: u32) = length f" using assms(4) by (simp add: unat_of_nat)
  have i: "le32 (usb_input s) = of_nat (length f)" "bslice 4 (length f) (usb_input s) = f"
    "drop (4 + length f) (usb_input s) = rest" "length (usb_input s) = 4 + length f + length rest"
    using assms(3) by (simp_all add: usb_frame_def le32_append bslice_def layout_simps)
  have "\<not> usb_rx_len s < of_nat (length f)" using assms(5) u by (simp add: word_less_nat_alt)
  moreover have "of_nat (length f) = (0 :: u32) \<longleftrightarrow> f = []" using u by (metis length_0_conv unat_eq_zero)
  ultimately show ?thesis
    using assms(1,2,4,6) i u by (auto simp: vusb_try_deliver_def Let_def case_prod_unfold)
qed

text \<open>
  Cutting a byte stream into pieces does not matter: the host side may hand over
  a frame in any number of reads.
\<close>

lemma vusb_receive_split:
  assumes ne: "a \<noteq> []" "b \<noteq> []"
    and bound: "length (usb_input s) + length a + length b \<le> VUSB_MAX_RX"
    and hdr: "4 \<le> length (usb_input s @ a) \<Longrightarrow> unat (le32 (usb_input s @ a)) \<le> VUSB_MAX_PACKET"
    and dma: "\<And>bs. length bs \<le> unat (usb_rx_len s) \<Longrightarrow> fst (dma_write D m (usb_rx_addr s) bs) = MEMTX_OK"
  shows "(case vusb_receive D s m a of (s', m') \<Rightarrow> vusb_receive D s' m' b) = vusb_receive D s m (a @ b)"
proof -
  have lt: "length (usb_input s) < VUSB_MAX_RX" "length (usb_input s) + length a < VUSB_MAX_RX"
    using bound length_greater_0_conv [of a] length_greater_0_conv [of b] ne by linarith+
  show ?thesis
  proof (cases "\<not> usb_rx_posted s \<or> usb_rx_ready s \<or> length (usb_input s @ a) < 4")
    case True
    have "vusb_receive D s m a = (s\<lparr>usb_input := usb_input s @ a\<rparr>, m)"
      using True ne bound lt by (auto simp: vusb_receive_def vusb_try_deliver_def)
    then show ?thesis using ne bound lt by (simp add: vusb_receive_def)
  next
    case False
    define len where "len = le32 (usb_input s @ a)"
    have h: "le32 (usb_input s @ a @ b) = len"
      using False by (simp add: le32_def len_def min_def)
    have l: "unat len \<le> VUSB_MAX_PACKET" using False hdr by (simp add: len_def)
    let ?n = "length (usb_input s @ a)"
    consider (wait) "?n < 4 + unat len \<or> len > usb_rx_len s" | (deliver) "\<not> ?n < 4 + unat len" "\<not> len > usb_rx_len s"
      by blast
    then show ?thesis
    proof cases
      case wait
      have "vusb_receive D s m a = (s\<lparr>usb_input := usb_input s @ a\<rparr>, m)"
        using False wait l ne bound lt by (auto simp: vusb_receive_def vusb_try_deliver_def Let_def len_def [symmetric])
      then show ?thesis using ne bound lt by (simp add: vusb_receive_def)
    next
      case deliver
      have "bslice 4 (unat len) (usb_input s @ a @ b) = bslice 4 (unat len) (usb_input s @ a)"
        "drop (4 + unat len) (usb_input s @ a @ b) = drop (4 + unat len) (usb_input s @ a) @ b"
        using deliver(1) by (auto simp: bslice_def)
      moreover have "fst (dma_write D m (usb_rx_addr s) (bslice 4 (unat len) (usb_input s @ a))) = MEMTX_OK"
        using deliver by (intro dma) (auto simp: bslice_def not_less word_le_nat_alt)
      ultimately show ?thesis
        using False deliver l ne bound lt h
        by (auto simp: vusb_receive_def vusb_try_deliver_def Let_def case_prod_unfold len_def [symmetric])
    qed
  qed
qed

lemma vusb_receive_fold:
  assumes "chunks \<noteq> []" "[] \<notin> set chunks"
    and "length (usb_input s) + length (concat chunks) \<le> VUSB_MAX_RX"
    and "4 \<le> length (usb_input s @ concat chunks) \<Longrightarrow> unat (le32 (usb_input s @ concat chunks)) \<le> VUSB_MAX_PACKET"
    and "\<And>bs. length bs \<le> unat (usb_rx_len s) \<Longrightarrow> fst (dma_write D m (usb_rx_addr s) bs) = MEMTX_OK"
  shows "fold (\<lambda>c (s, m). vusb_receive D s m c) chunks (s, m) = vusb_receive D s m (concat chunks)"
  using assms(1-4)
proof (induction chunks rule: rev_induct)
  case (snoc c cs)
  show ?case
  proof (cases "cs = []")
    case False
    have h: "unat (le32 (usb_input s @ concat cs)) \<le> VUSB_MAX_PACKET" if "4 \<le> length (usb_input s @ concat cs)"
      using snoc.prems(4) that le32_append [OF that, of c] by simp
    have ne: "concat cs \<noteq> []" using False snoc.prems(2) by (cases cs) auto
    have "fold (\<lambda>c (s, m). vusb_receive D s m c) cs (s, m) = vusb_receive D s m (concat cs)"
      using snoc.prems(2,3) False h by (intro snoc.IH) auto
    then show ?thesis
      using vusb_receive_split [OF ne _ _ h assms(5), of c] snoc.prems(2,3) by auto
  qed simp
qed simp

section \<open>A sample request\<close>

text \<open>
  A request block at \<open>0x70000000\<close> for two bytes of sector 0, with the sector
  descriptor behind it, the data at \<open>0x70000040\<close> and the status byte at
  \<open>0x70000044\<close>.
\<close>

definition sample_mem :: "u8 \<Rightarrow> u8 \<Rightarrow> u8 \<Rightarrow> u8 \<Rightarrow> guest_mem" where
  "sample_mem fl d0 d1 st = list_ram 0x70000000 0x1000
     [0x30, 0, 0, 0x70, 0, 0, 0, 0, 0x10, 0, 0, 0, 0, 0, 0, 0,
      0x40, 0, 0, 0x70, 0, 0, 0, 0, 2, 0, 0, 0, 1, 0, fl, 0,
      0x44, 0, 0, 0x70, 0, 0, 0, 0, 1, 0, 0, 0, 0, 0, 0, 0,
      0, 0, 0, 0, 0, 0, 0, 0, 0, 0, 0, 0, 0, 0, 0, 0,
      d0, d1, 0, 0, st, 0, 0, 0]"

definition sample_req :: "u32 \<Rightarrow> VblkReq" where
  "sample_req fl = \<lparr>rq_sector = \<lparr>rc_addr = 0x70000030, rc_len = 16, rc_flags = 0\<rparr>,
     rq_data = \<lparr>rc_addr = 0x70000040, rc_len = 2, rc_flags = fl\<rparr>,
     rq_retval = \<lparr>rc_addr = 0x70000044, rc_len = 1, rc_flags = 0\<rparr>\<rparr>"

lemma sample_mem_ok [simp]: "view_ok (gm_view (sample_mem fl d0 d1 st))" "no_alias (sample_mem fl d0 d1 st)"
  by (simp_all add: sample_mem_def)

lemmas sample_eval = sample_mem_def sysbus_dma_def list_ram_read list_ram_write ram_fits_def bslice_def bsplice_def
  le2cpu_req_def le2cpu_reqcmd_def le2cpu_sector_def le64_def le32_def

lemma sample_req_ok [simp]:
  "vblk_req_ok sysbus_dma (sample_mem 1 d0 d1 st) 0x70000000 (sample_req VBLK_DATA_FLAGS_WRITE) 0"
  "vblk_req_ok sysbus_dma (sample_mem 3 d0 d1 st) 0x70000000 (sample_req VBLK_DATA_FLAGS_READ) 0"
  by (simp_all add: vblk_req_ok_def sample_eval sample_req_def)

lemma sample_write_cmd:
  "vblk_cmd sysbus_dma qemu_blk (raw_disk [0, 0, 0, 0]) (sample_mem 1 0xAA 0xBB 0xFF) 0x70000000 0 =
    Some (sample_mem 1 0xAA 0xBB 0, raw_disk [0xAA, 0xBB, 0, 0])"
  by (simp add: vblk_cmd_def vblk_request_def sample_eval blk_eval Let_def)

lemma sample_read_cmd:
  "vblk_cmd sysbus_dma qemu_blk (raw_disk [0xAA, 0xBB, 0, 0]) (sample_mem 3 0 0 0xFF) 0x70000000 0 =
    Some (sample_mem 3 0xAA 0xBB 0, raw_disk [0xAA, 0xBB, 0, 0])"
  by (simp add: vblk_cmd_def vblk_request_def sample_eval blk_eval Let_def)

lemma sample_bytes:
  "dma_byte (sample_mem fl d0 d1 st) 0x70000040 = d0" "dma_byte (sample_mem fl d0 d1 st) 0x70000041 = d1"
  "dma_byte (sample_mem fl d0 d1 st) 0x70000044 = st" "ram_slot (sample_mem fl d0 d1 st) w 0x70000044 = Some 0x44"
  by (simp_all add: sample_mem_def dma_byte_def list_ram_def ram_of_def, simp_all add: one_ram_def ram_of_def)

text \<open>A device with a posted four-byte receive buffer, and given USB input.\<close>

definition sample_bdif :: "bytes \<Rightarrow> unit VMAppleBdifState" where
  "sample_bdif inp = \<lparr>bd_aux = (), bd_root = (), usb_connected = True, usb_input = inp, usb_output = [],
     usb_queue = 0, usb_rx_ready = False, usb_rx_posted = True, usb_rx_addr = 0x70000000, usb_rx_len = 4,
     usb_rx_pending = False, usb_rx_pending_addr = 0, usb_rx_pending_len = 0\<rparr>"

text \<open>A receive descriptor at \<open>0x70000000\<close> for a four-byte buffer at \<open>0x70000080\<close>.\<close>

definition sample_desc :: guest_mem where
  "sample_desc = list_ram 0x70000000 256 ([0x80, 0, 0, 0x70, 0, 0, 0, 0, 4, 0, 0, 0] @ replicate 124 0)"

lemma sample_desc_ok: "view_ok (gm_view sample_desc)" "no_alias sample_desc"
  by (simp_all add: sample_desc_def)

section \<open>Properties\<close>

text \<open>
  C2. What the guest writes through the block channel it reads back: if a WRITE
  request completes with the success status, and later (with any guest memory
  in between) a READ request for the same sector and length completes with the
  success status, then the read buffer holds the bytes the write buffer held.
  This is what makes a variable store on the AUX device persistent.
\<close>

theorem vblk_write_then_read:
  assumes "view_ok (gm_view m1)" "no_alias m1" "view_ok (gm_view m2)" "no_alias m2" "driver_ok (bb_drv blk)"
    and "vblk_req_ok sysbus_dma m1 gp1 req1 sector" "rc_flags (rq_data req1) = VBLK_DATA_FLAGS_WRITE"
    and "ram_slot m1 True (rc_addr (rq_retval req1)) \<noteq> None"
    and "vblk_cmd sysbus_dma qemu_blk blk m1 gp1 0 = Some (m1', blk1)"
    and "dma_byte m1' (rc_addr (rq_retval req1)) = VBLK_RET_SUCCESS"
    and "vblk_req_ok sysbus_dma m2 gp2 req2 sector" "rc_flags (rq_data req2) = VBLK_DATA_FLAGS_READ"
    and "rc_len (rq_data req2) = rc_len (rq_data req1)"
    and "ram_slot m2 True (rc_addr (rq_retval req2)) \<noteq> None"
    and "unat (rc_len (rq_data req2)) \<le> unat (rc_addr (rq_retval req2) - rc_addr (rq_data req2))"
    and "vblk_cmd sysbus_dma qemu_blk blk1 m2 gp2 0 = Some (m2', blk2)"
    and "dma_byte m2' (rc_addr (rq_retval req2)) = VBLK_RET_SUCCESS"
  shows "blk2 = blk1 \<and> (\<forall>i<unat (rc_len (rq_data req1)).
    dma_byte m2' (rc_addr (rq_data req2) + of_nat i) = dma_byte m1 (rc_addr (rq_data req1) + of_nat i))"
proof -
  have w: "driver_ok (bb_drv blk1)" "sector_off sector + unat (rc_len (rq_data req1)) \<le> length (bb_image blk)"
    "bb_image blk1 = bsplice (sector_off sector)
      (map (\<lambda>i. dma_byte m1 (rc_addr (rq_data req1) + of_nat i)) [0..<unat (rc_len (rq_data req1))]) (bb_image blk)"
    using bdif_host.vblk_write_done [OF _ assms(5-7,9,8,10)] assms(1,2) by blast+
  have r: "blk2 = blk1" "\<forall>i<unat (rc_len (rq_data req2)). dma_byte m2' (rc_addr (rq_data req2) + of_nat i) =
      bb_image blk1 ! (sector_off sector + i)"
    using bdif_host.vblk_read_done [OF _ w(1) assms(11,12,16,14,15,17)] assms(3,4) by blast+
  then show ?thesis using w(2) assms(13) by (simp add: w(3) nth_bsplice)
qed

theorem vblk_write_then_read_witness:
  "\<exists>m2' blk2. vblk_cmd sysbus_dma qemu_blk (raw_disk [0xAA, 0xBB, 0, 0]) (sample_mem 3 0 0 0xFF) 0x70000000 0
      = Some (m2', blk2) \<and>
    (\<forall>i<2. dma_byte m2' (0x70000040 + of_nat i) = dma_byte (sample_mem 1 0xAA 0xBB 0xFF) (0x70000040 + of_nat i))"
  using vblk_write_then_read [OF _ _ _ _ _ sample_req_ok(1) _ _ sample_write_cmd _ sample_req_ok(2) _ _ _ _
      sample_read_cmd] sample_read_cmd
  by (simp add: sample_req_def sample_bytes raw_disk_def)

text \<open>
  C16. A block request touches nothing it does not name.  Whatever the request
  block contains, guest memory changes at most at the status byte and, for a
  READ, inside the data buffer; the image changes at most inside the addressed
  range, only for a WRITE, and never changes size.
\<close>

theorem vblk_cmd_touches_only:
  assumes "view_ok (gm_view m)" "no_alias m" "driver_ok (bb_drv blk)"
    and "vblk_cmd sysbus_dma qemu_blk blk m gp 0 = Some (m', blk')"
    and "req = le2cpu_req (snd (dma_memory_read m gp 48))"
    and "sector = le2cpu_sector (snd (dma_memory_read m (rc_addr (rq_sector req)) 16))"
  shows "(\<forall>x. dma_byte m' x \<noteq> dma_byte m x \<longrightarrow> x = rc_addr (rq_retval req) \<or>
      rc_flags (rq_data req) = VBLK_DATA_FLAGS_READ \<and>
      unat (x - rc_addr (rq_data req)) < unat (rc_len (rq_data req))) \<and>
    (rc_flags (rq_data req) \<noteq> VBLK_DATA_FLAGS_WRITE \<longrightarrow> blk' = blk) \<and>
    length (bb_image blk') = length (bb_image blk) \<and>
    (\<forall>i<length (bb_image blk). i < 512 * unat sector \<or> 512 * unat sector + unat (rc_len (rq_data req)) \<le> i \<longrightarrow>
       bb_image blk' ! i = bb_image blk ! i)"
  using bdif_host.vblk_cmd_frame [OF _ assms(3,4), of req sector] assms
  by (simp add: sysbus_dma_def sector_off_exact)

theorem vblk_cmd_touches_only_witness:
  "dma_byte (sample_mem 1 0xAA 0xBB 0) 0x70000040 = dma_byte (sample_mem 1 0xAA 0xBB 0xFF) 0x70000040 \<and>
   bb_image (raw_disk [0xAA, 0xBB, 0, 0]) ! 2 = bb_image (raw_disk [0, 0, 0, 0]) ! 2"
proof -
  have q: "le2cpu_req (snd (dma_memory_read (sample_mem 1 0xAA 0xBB 0xFF) 0x70000000 48)) = sample_req VBLK_DATA_FLAGS_WRITE"
    "le2cpu_sector (snd (dma_memory_read (sample_mem 1 0xAA 0xBB 0xFF) 0x70000030 16)) = 0"
    using sample_req_ok(1) [of "0xAA" "0xBB" "0xFF"] by (simp_all add: vblk_req_ok_def sysbus_dma_def sample_req_def)
  show ?thesis
    using vblk_cmd_touches_only [OF _ _ _ sample_write_cmd q(1) [symmetric] refl] q
    by (auto simp: raw_disk_def sample_req_def)
qed

text \<open>
  C10. Whatever the guest, the host side of the USB channel and the machine do,
  in every order, the receive side stays consistent: a completion belongs to a
  posted buffer, a stashed buffer waits behind a completion, posted and stashed
  buffers have between 1 byte and 128 KiB, the queue selector is 0 or 1, and
  the buffered input is bounded, so the room announced to the host side is
  exactly what a receive call then accepts.
\<close>

theorem bdif_usb_invariant:
  assumes "bdif_reach D B w (s, m)"
  shows "(usb_rx_ready s \<longrightarrow> usb_rx_posted s) \<and> (usb_rx_pending s \<longrightarrow> usb_rx_ready s) \<and>
    (usb_rx_posted s \<longrightarrow> 0 < usb_rx_len s \<and> unat (usb_rx_len s) \<le> VUSB_MAX_PACKET) \<and>
    (usb_rx_pending s \<longrightarrow> 0 < usb_rx_pending_len s \<and> unat (usb_rx_pending_len s) \<le> VUSB_MAX_PACKET) \<and>
    usb_queue s \<le> 1 \<and> length (usb_input s) + vusb_can_receive s = VUSB_MAX_RX"
  using bdif_reach_inv [OF assms] by (simp add: vusb_inv_def vusb_can_receive_def)

theorem bdif_usb_invariant_witness:
  "length (usb_input (fst (vusb_receive sysbus_dma (vusb_reset_state (sample_bdif [])) (sample_mem 0 0 0 0) [1, 0]))) +
    vusb_can_receive (fst (vusb_receive sysbus_dma (vusb_reset_state (sample_bdif [])) (sample_mem 0 0 0 0) [1, 0]))
    = VUSB_MAX_RX"
proof -
  let ?st = "vusb_receive sysbus_dma (vusb_reset_state (sample_bdif [])) (sample_mem 0 0 0 0) [1, 0]"
  let ?B = "\<lparr>blk_pread = (\<lambda>_ _ _. (0, [])), blk_pwrite = (\<lambda>_ _ _. None)\<rparr> :: unit blk_ops"
  have "bdif_reach sysbus_dma ?B (\<lambda>_. 0) ?st"
    by (rule bdif_reach.event [OF bdif_reach.power_on, of _ _ _ "sample_bdif []" "sample_mem 0 0 0 0" "Ev_receive [1, 0]"])
       (simp add: bdif_step_def)
  then show ?thesis using bdif_usb_invariant [of sysbus_dma ?B "\<lambda>_. 0" "fst ?st" "snd ?st"] by simp
qed



text \<open>
  C26. One posted receive buffer takes exactly one frame.  With a complete frame
  at the head of the input and a large enough writable buffer, the post command
  copies the frame into the buffer and removes just that frame; the next BUSY
  poll reports it once, and the poll after that reports nothing.
\<close>

theorem vusb_frame_delivery:
  assumes "view_ok (gm_view m)" "no_alias m"
    and "usb_connected s" "usb_queue s = 0" "\<not> usb_rx_ready s" "\<not> usb_rx_pending s"
    and "usb_input s = usb_frame f @ rest" "desc = parse_desc (snd (dma_memory_read m gp 128))"
    and "fst (dma_memory_read m gp 128) = MEMTX_OK"
    and "ud_len desc \<noteq> 0" "unat (ud_len desc) \<le> VUSB_MAX_PACKET" "length f \<le> unat (ud_len desc)"
    and "\<forall>i<length f. ram_slot m True (ud_addr desc + of_nat i) \<noteq> None"
  shows "\<exists>s1 m1 s2. vusb_cmd sysbus_dma w s m gp = (s1, m1) \<and> usb_input s1 = rest \<and>
    dma_memory_read m1 (ud_addr desc) (length f) = (MEMTX_OK, f) \<and>
    bdif_read sysbus_dma s1 m1 0x100010 = (1, s2, m1) \<and> usb_input s2 = rest \<and>
    bdif_read sysbus_dma s2 m1 0x100010 = (0, s2, m1)"
proof -
  define s0 where "s0 = s\<lparr>usb_rx_addr := ud_addr desc, usb_rx_len := ud_len desc, usb_rx_posted := True\<rparr>"
  define m1 where "m1 = (if f = [] then m else snd (dma_memory_write m (ud_addr desc) f))"
  have wr: "fst (dma_memory_write m (ud_addr desc) f) = MEMTX_OK"
    using sysmem.wr_ok [of m "ud_addr desc" f] assms(1,2,13) by (simp add: sysbus_dma_def)
  have "vusb_try_deliver sysbus_dma s0 m = (s0\<lparr>usb_rx_ready := True, usb_input := rest\<rparr>, m1)"
    using try_deliver_frame [of s0 f rest sysbus_dma m] assms wr by (simp add: s0_def sysbus_dma_def m1_def)
  then have c: "vusb_cmd sysbus_dma w s m gp = (s0\<lparr>usb_rx_ready := True, usb_input := rest\<rparr>, m1)"
    using assms by (simp add: vusb_cmd_def vusb_rx_cmd_def sysbus_dma_def case_prod_unfold s0_def Let_def)
  have "dma_memory_read m1 (ud_addr desc) (length f) = (MEMTX_OK, f)"
    using sysmem.rd_after_wr [of m f "ud_addr desc"] assms(1,2,11,12) wr
    by (auto simp: m1_def sysbus_dma_def dma_memory_read_bytes dma_ok_def)
  then show ?thesis using c assms(3-6) by (simp add: bdif_read_def bdif_usb_enabled_def Let_def s0_def)
qed

theorem vusb_frame_delivery_witness:
  "\<exists>s1 m1. vusb_cmd sysbus_dma (\<lambda>_. 0) (sample_bdif [2, 0, 0, 0, 7, 8, 9]) sample_desc 0x70000000 = (s1, m1) \<and>
    usb_input s1 = [9] \<and> dma_memory_read m1 0x70000080 (length [7, 8 :: u8]) = (MEMTX_OK, [7, 8])"
proof -
  have r: "dma_memory_read sample_desc 0x70000000 128 = (MEMTX_OK, [0x80, 0, 0, 0x70, 0, 0, 0, 0, 4, 0, 0, 0] @ replicate 116 0)"
    by (simp add: sample_desc_def list_ram_read ram_fits_def bslice_def)
  have d: "ud_addr (parse_desc (snd (dma_memory_read sample_desc 0x70000000 128))) = 0x70000080"
    "ud_len (parse_desc (snd (dma_memory_read sample_desc 0x70000000 128))) = 4"
    by (simp_all add: r parse_desc_def le64_def le32_def)
  have "\<forall>i<2. ram_slot sample_desc True (0x70000080 + of_nat i) \<noteq> None"
    by (auto simp: sample_desc_def list_ram_slot [where n = 2] ram_fits_def)
  then show ?thesis
    using vusb_frame_delivery [of sample_desc "sample_bdif [2, 0, 0, 0, 7, 8, 9]" "[7, 8]" "[9]" _ "0x70000000" "\<lambda>_. 0",
        OF _ _ _ _ _ _ _ refl] d r
    by (simp add: sample_bdif_def sample_desc_ok usb_frame_def to_le32_def nat_le_numeral) blast
qed

end
