(* ===== verification/Aes.thy ===== *)
theory Aes
  imports Guest_Memory
begin

text \<open>
  The AES engine \<^verbatim>\<open>hw/vmapple/aes.c\<close>: a command FIFO of nine words, two
  key contexts, four IV contexts and an interrupt line.  Guest memory is reached
  through \<open>dma_ops\<close>; the cipher library (\<^verbatim>\<open>crypto/cipher.h\<close>) is the
  parameter \<open>qcrypto\<close>, a record of its four calls.  The FIFO index is a number
  bounded by 9 (\<open>aes_inv\<close>), words are 32 bits wide, and the memory core splits
  wider register accesses into 32-bit ones before they reach the model.

  After the model come the well-formedness invariant, the interrupt line, what a
  complete command does, and what an unknown command does.
\<close>

section \<open>State\<close>

datatype QCryptoCipherAlgo = AES_128 | AES_192 | AES_256
datatype QCryptoCipherMode = MODE_ECB | MODE_CBC

record 'c qcrypto =
  qcrypto_cipher_new :: "QCryptoCipherAlgo \<Rightarrow> QCryptoCipherMode \<Rightarrow> bytes \<Rightarrow> 'c option"
  qcrypto_cipher_setiv :: "'c \<Rightarrow> bytes \<Rightarrow> 'c option"
  qcrypto_cipher_encrypt :: "'c \<Rightarrow> bytes \<Rightarrow> bytes option"
  qcrypto_cipher_decrypt :: "'c \<Rightarrow> bytes \<Rightarrow> bytes option"

abbreviation (input) MAX_FIFO_SIZE :: nat where "MAX_FIFO_SIZE \<equiv> 9"

record Key =
  key_len :: u32
  key_bytes :: bytes

record AESState =
  aes_irq :: bool
  aes_status :: u32
  aes_q_status :: u32
  aes_irq_status :: u32
  aes_irq_enable :: u32
  aes_watermark :: u32
  aes_flag_info :: u32
  aes_fifo :: "u32 list"
  aes_fifo_idx :: nat
  aes_key :: "Key list"
  aes_iv :: "u32 list list"
  aes_is_encrypt :: bool
  aes_block_mode :: QCryptoCipherMode

definition key_lens :: "u32 list" where
  "key_lens = [16, 24, 32, 64]"

definition builtin_keys :: "Key list" where
  "builtin_keys =
     (let none = \<lparr>key_len = 0, key_bytes = replicate 32 0\<rparr>;
          fixed = (\<lambda>b. \<lparr>key_len = 32, key_bytes = b # replicate 31 0\<rparr>)
      in [none, fixed 1, fixed 2, fixed 3, none, none, none, none])"

text \<open>\<open>words_bytes\<close>: the bytes of a word array in memory.\<close>

definition words_bytes :: "u32 list \<Rightarrow> bytes" where
  "words_bytes ws = concat (map to_le32 ws)"

section \<open>Commands\<close>

definition aes_update_irq :: "AESState \<Rightarrow> AESState" where
  "aes_update_irq s = s\<lparr>aes_irq := (aes_irq_status s AND aes_irq_enable s \<noteq> 0)\<rparr>"

definition aes1_read :: "AESState \<Rightarrow> u64 \<Rightarrow> u64" where
  "aes1_read s offset =
     (if offset = 0xc then ucast (aes_status s)
      else if offset = 0x18 then ucast (aes_irq_status s)
      else if offset = 0x1c then ucast (aes_irq_enable s)
      else if offset = 0x20 then ucast (aes_watermark s)
      else if offset = 0x24 then ucast (aes_q_status s)
      else if offset = 0x30 then ucast (aes_flag_info s)
      else 0)"

definition fifo_append :: "AESState \<Rightarrow> u64 \<Rightarrow> AESState" where
  "fifo_append s val =
     (if aes_fifo_idx s = MAX_FIFO_SIZE then s
      else s\<lparr>aes_fifo := (aes_fifo s)[aes_fifo_idx s := ucast val], aes_fifo_idx := aes_fifo_idx s + 1\<rparr>)"

definition has_payload :: "AESState \<Rightarrow> nat \<Rightarrow> bool" where
  "has_payload s elems \<longleftrightarrow> aes_fifo_idx s \<ge> elems + 1"

definition cmd_key :: "AESState \<Rightarrow> bool \<times> AESState" where
  "cmd_key s =
     (let cmd = aes_fifo s ! 0;
          key_select = unat (drop_bit 24 (cmd AND 0x07000000));
          ctxt = unat (drop_bit 27 (cmd AND 0x08000000));
          mode = drop_bit 16 (cmd AND 0x00030000)
      in if mode \<noteq> 0 \<and> mode \<noteq> 1 then (False, s)
         else let s1 = s\<lparr>aes_block_mode := (if mode = 0 then MODE_ECB else MODE_CBC),
                         aes_is_encrypt := (cmd AND 0x00100000 \<noteq> 0)\<rparr>;
                  klen = key_lens ! unat (drop_bit 22 (cmd AND 0x00C00000))
              in if key_select \<noteq> 0 then (True, s1\<lparr>aes_key := (aes_key s1)[ctxt := builtin_keys ! key_select]\<rparr>)
                 else if klen > 32 then (False, s1)
                 else if \<not> has_payload s1 (unat klen div 4) then (False, s1)
                 else (True, s1\<lparr>aes_key := (aes_key s1)[ctxt :=
                        \<lparr>key_len = klen,
                         key_bytes = bsplice 0 (take (unat klen) (words_bytes (drop 1 (aes_fifo s1))))
                                       (key_bytes (aes_key s1 ! ctxt))\<rparr>]\<rparr>))"

text \<open>
  The IV context as the code extracts it: masked with
  \<^verbatim>\<open>0x3 << CMD_KEY_CONTEXT_SHIFT\<close>, shifted by \<^verbatim>\<open>CMD_IV_CONTEXT_SHIFT\<close>.
\<close>

definition iv_context :: "u32 \<Rightarrow> nat" where
  "iv_context cmd = unat (drop_bit 26 (cmd AND push_bit 27 3))"

definition cmd_iv :: "AESState \<Rightarrow> bool \<times> AESState" where
  "cmd_iv s =
     (let ctxt = iv_context (aes_fifo s ! 0)
      in if \<not> has_payload s 4 then (False, s)
         else (True, s\<lparr>aes_iv := (aes_iv s)[ctxt := take 4 (drop 1 (aes_fifo s))]\<rparr>))"

definition key_algo :: "u32 \<Rightarrow> QCryptoCipherAlgo option" where
  "key_algo klen =
     (if klen = 16 then Some AES_128 else if klen = 24 then Some AES_192
      else if klen = 32 then Some AES_256 else None)"

definition data_len :: "AESState \<Rightarrow> nat" where
  "data_len s = unat (aes_fifo s ! 0 AND 0xffffff)"

definition data_src :: "AESState \<Rightarrow> u64" where
  "data_src s = ucast (aes_fifo s ! 2) OR (push_bit 16 (ucast (aes_fifo s ! 1)) AND 0xffff00000000)"

definition data_dst :: "AESState \<Rightarrow> u64" where
  "data_dst s = ucast (aes_fifo s ! 3) OR (push_bit 32 (ucast (aes_fifo s ! 1)) AND 0xffff00000000)"

definition cmd_data :: "'m dma_ops \<Rightarrow> 'c qcrypto \<Rightarrow> AESState \<Rightarrow> 'm \<Rightarrow> bool \<times> 'm" where
  "cmd_data D Q s m =
     (let cmd = aes_fifo s ! 0;
          ctxt_iv = 0;
          ctxt_key = unat (drop_bit 27 (cmd AND 0x08000000));
          len = data_len s; src_addr = data_src s; dst_addr = data_dst s
      in if \<not> has_payload s 3 then (False, m)
         else if ctxt_key \<ge> length (aes_key s) \<or> ctxt_iv \<ge> length (aes_iv s) then (False, m)
         else let (r, src) = dma_read D m src_addr len; k = aes_key s ! ctxt_key
              in if r \<noteq> MEMTX_OK then (False, m)
         else case key_algo (key_len k) of
           None \<Rightarrow> (False, m)
         | Some alg \<Rightarrow>
        (case qcrypto_cipher_new Q alg (aes_block_mode s) (take (unat (key_len k)) (key_bytes k)) of
           None \<Rightarrow> (False, m)
         | Some c0 \<Rightarrow>
        (case (if aes_block_mode s \<noteq> MODE_ECB
               then qcrypto_cipher_setiv Q c0 (words_bytes (aes_iv s ! ctxt_iv)) else Some c0) of
           None \<Rightarrow> (False, m)
         | Some c \<Rightarrow>
        (case (if aes_is_encrypt s then qcrypto_cipher_encrypt Q c src else qcrypto_cipher_decrypt Q c src) of
           None \<Rightarrow> (False, m)
         | Some dst \<Rightarrow>
             let (r2, m') = dma_write D m dst_addr dst in (r2 = MEMTX_OK, m')))))"

definition cmd_store_iv :: "'m dma_ops \<Rightarrow> AESState \<Rightarrow> 'm \<Rightarrow> bool \<times> 'm" where
  "cmd_store_iv D s m =
     (let cmd = aes_fifo s ! 0; ctxt = iv_context cmd
      in if \<not> has_payload s 1 then (False, m)
         else if ctxt \<ge> length (aes_iv s) then (False, m)
         else let addr = ucast (aes_fifo s ! 1) OR (push_bit 32 (ucast cmd) AND 0xff00000000);
                  (r, m') = dma_write D m addr (words_bytes (aes_iv s ! ctxt))
              in (r = MEMTX_OK, m'))"

definition cmd_flag :: "AESState \<Rightarrow> bool \<times> AESState" where
  "cmd_flag s =
     (let cmd = aes_fifo s ! 0;
          s1 = (if cmd AND push_bit 27 1 \<noteq> 0 then s\<lparr>aes_irq_status := aes_irq_status s OR push_bit 5 1\<rparr> else s)
      in (True, s1\<lparr>aes_flag_info := cmd AND 0xff\<rparr>))"

definition fifo_process :: "'m dma_ops \<Rightarrow> 'c qcrypto \<Rightarrow> AESState \<Rightarrow> 'm \<Rightarrow> AESState \<times> 'm" where
  "fifo_process D Q s m =
     (let cmd = drop_bit 28 (aes_fifo s ! 0)
      in if aes_fifo_idx s = 0 then (s, m)
         else let (success, s1, m1) =
                (if cmd = 1 then (case cmd_key s of (ok, s1) \<Rightarrow> (ok, s1, m))
                 else if cmd = 2 then (case cmd_iv s of (ok, s1) \<Rightarrow> (ok, s1, m))
                 else if cmd = 5 then (case cmd_data D Q s m of (ok, m1) \<Rightarrow> (ok, s, m1))
                 else if cmd = 6 then (case cmd_store_iv D s m of (ok, m1) \<Rightarrow> (ok, s, m1))
                 else if cmd = 8 then (case cmd_flag s of (ok, s1) \<Rightarrow> (ok, s1, m))
                 else (False, s\<lparr>aes_irq_status := aes_irq_status s OR push_bit 2 1\<rparr>, m))
              in (if success then s1\<lparr>aes_fifo_idx := 0\<rparr> else s1, m1))"

definition aes1_write :: "'m dma_ops \<Rightarrow> 'c qcrypto \<Rightarrow> AESState \<Rightarrow> 'm \<Rightarrow> u64 \<Rightarrow> u64 \<Rightarrow> AESState \<times> 'm" where
  "aes1_write D Q s m offset val =
     (if offset = 0x18 then
        (aes_update_irq (s\<lparr>aes_irq_status := ucast (ucast (aes_irq_status s) AND NOT val)\<rparr>), m)
      else if offset = 0x1c then (aes_update_irq (s\<lparr>aes_irq_enable := ucast val\<rparr>), m)
      else if offset = 0x200 then
        (let (s1, m1) = fifo_process D Q (fifo_append s val) m in (aes_update_irq s1, m1))
      else (s, m))"

definition aes2_read :: "u64 \<Rightarrow> u64" where
  "aes2_read offset = (if offset = 0 then 0 else 0)"

definition aes_reset :: "AESState \<Rightarrow> AESState" where
  "aes_reset s = s\<lparr>aes_status := 0x3f80, aes_q_status := 2, aes_irq_status := 0, aes_irq_enable := 0,
     aes_watermark := 0\<rparr>"

text \<open>A new object is zero-filled.\<close>

definition aes_new :: AESState where
  "aes_new = \<lparr>aes_irq = False, aes_status = 0, aes_q_status = 0, aes_irq_status = 0, aes_irq_enable = 0,
     aes_watermark = 0, aes_flag_info = 0, aes_fifo = replicate 9 0, aes_fifo_idx = 0,
     aes_key = replicate 2 \<lparr>key_len = 0, key_bytes = replicate 32 0\<rparr>,
     aes_iv = replicate 4 (replicate 4 0), aes_is_encrypt = False, aes_block_mode = MODE_ECB\<rparr>"

section \<open>Well-formed states\<close>

definition aes_inv :: "AESState \<Rightarrow> bool" where
  "aes_inv s \<longleftrightarrow> length (aes_fifo s) = MAX_FIFO_SIZE \<and> aes_fifo_idx s \<le> MAX_FIFO_SIZE \<and>
     length (aes_key s) = 2 \<and>
     (\<forall>k\<in>set (aes_key s). length (key_bytes k) = 32 \<and> key_len k \<in> {0, 16, 24, 32}) \<and>
     length (aes_iv s) = 4 \<and> (\<forall>v\<in>set (aes_iv s). length v = 4)"

lemma field_le: "unat (drop_bit n (w AND m)) \<le> unat (drop_bit n (m :: u32))"
proof -
  have "drop_bit n (w AND m) = drop_bit n w AND drop_bit n m" by (simp add: drop_bit_and)
  then show ?thesis by (metis word_and_le1 word_le_nat_alt)
qed

lemma field_bounds:
  "unat (drop_bit 27 (w AND 0x08000000 :: u32)) < 2"
  "unat (drop_bit 24 (w AND 0x07000000 :: u32)) < 8"
  "unat (drop_bit 22 (w AND 0x00C00000 :: u32)) < 4"
  using field_le [of 27 w "0x08000000"] field_le [of 24 w "0x07000000"] field_le [of 22 w "0x00C00000"]
  by (simp_all add: drop_bit_eq_div)

lemma length_words_bytes [simp]: "length (words_bytes ws) = 4 * length ws"
  by (induction ws) (auto simp: words_bytes_def)

lemma words_bytes_take: "take (4 * n) (words_bytes ws) = words_bytes (take n ws)"
proof (induction ws arbitrary: n)
  case (Cons w ws)
  then show ?case by (cases n) (simp_all add: words_bytes_def)
qed (simp add: words_bytes_def)

lemma key_lens_cases:
  assumes "i < 4" and "\<not> key_lens ! i > 32"
  shows "key_lens ! i \<in> {16, 24, 32}"
proof -
  have "i = 0 \<or> i = 1 \<or> i = 2 \<or> i = 3" using assms(1) by linarith
  then show ?thesis using assms(2) by (elim disjE) (simp_all add: key_lens_def)
qed

lemma builtin_key_ok:
  assumes "i < 8"
  shows "length (key_bytes (builtin_keys ! i)) = 32 \<and> key_len (builtin_keys ! i) \<in> {0, 16, 24, 32}"
proof -
  have "i = 0 \<or> i = 1 \<or> i = 2 \<or> i = 3 \<or> i = 4 \<or> i = 5 \<or> i = 6 \<or> i = 7" using assms by linarith
  then show ?thesis by (elim disjE) (simp_all add: builtin_keys_def Let_def)
qed

lemma aes_inv_other [simp]:
  "aes_inv (s\<lparr>aes_irq_status := v\<rparr>) = aes_inv s" "aes_inv (s\<lparr>aes_irq_enable := v\<rparr>) = aes_inv s"
  "aes_inv (s\<lparr>aes_flag_info := v\<rparr>) = aes_inv s" "aes_inv (s\<lparr>aes_irq := b\<rparr>) = aes_inv s"
  "aes_inv (s\<lparr>aes_status := v\<rparr>) = aes_inv s" "aes_inv (s\<lparr>aes_q_status := v\<rparr>) = aes_inv s"
  "aes_inv (s\<lparr>aes_watermark := v\<rparr>) = aes_inv s"
  by (simp_all add: aes_inv_def)

lemma aes_inv_update:
  "aes_inv s \<Longrightarrow> aes_inv (aes_update_irq s)"
  "aes_inv s \<Longrightarrow> aes_inv (aes_reset s)"
  "aes_inv s \<Longrightarrow> aes_inv (fifo_append s v)"
  "aes_inv aes_new"
  by (auto simp: aes_inv_def aes_update_irq_def aes_reset_def fifo_append_def aes_new_def)

lemma aes_inv_cmd_key:
  assumes inv: "aes_inv s" and cmd: "cmd_key s = (ok, s')"
  shows "aes_inv s' \<and> aes_fifo s' = aes_fifo s \<and> aes_fifo_idx s' = aes_fifo_idx s"
proof -
  let ?cmd = "aes_fifo s ! 0"
  let ?ctxt = "unat (drop_bit 27 (?cmd AND 0x08000000))" and ?klen = "key_lens ! unat (drop_bit 22 (?cmd AND 0x00C00000))"
  let ?new = "bsplice 0 (take (unat ?klen) (words_bytes (drop 1 (aes_fifo s)))) (key_bytes (aes_key s ! ?ctxt))"
  have upd: "aes_inv (s\<lparr>aes_block_mode := bm, aes_is_encrypt := e, aes_key := (aes_key s)[?ctxt := k]\<rparr>)"
    if "length (key_bytes k) = 32 \<and> key_len k \<in> {0, 16, 24, 32}" for k bm e
    using inv that by (auto simp: aes_inv_def dest!: set_update_subset_insert [THEN subsetD])
  have "length (key_bytes (aes_key s ! ?ctxt)) = 32"
    using inv field_bounds(1) [of ?cmd] by (auto simp: aes_inv_def)
  then have new: "length ?new = 32 \<and> ?klen \<in> {0, 16, 24, 32}" if "\<not> ?klen > 32"
    using key_lens_cases [OF field_bounds(3) [of ?cmd] that] inv
    by (elim insertE emptyE) (simp_all add: aes_inv_def bsplice_def)
  have "s' = s \<or> (\<exists>bm e. s' = s\<lparr>aes_block_mode := bm, aes_is_encrypt := e\<rparr>) \<or>
    (\<exists>bm e k. s' = s\<lparr>aes_block_mode := bm, aes_is_encrypt := e, aes_key := (aes_key s)[?ctxt := k]\<rparr> \<and>
      (k = builtin_keys ! unat (drop_bit 24 (?cmd AND 0x07000000)) \<or> \<not> ?klen > 32 \<and> k = \<lparr>key_len = ?klen, key_bytes = ?new\<rparr>))"
    using cmd unfolding cmd_key_def Let_def by (simp split: if_split_asm) blast+
  then show ?thesis
  proof (elim disjE exE conjE)
    fix bm e k
    assume s': "s' = s\<lparr>aes_block_mode := bm, aes_is_encrypt := e, aes_key := (aes_key s)[?ctxt := k]\<rparr>"
    assume "k = builtin_keys ! unat (drop_bit 24 (?cmd AND 0x07000000))"
    then show ?thesis using upd [where k = k and bm = bm and e = e] builtin_key_ok [OF field_bounds(2) [of ?cmd]] s' by simp
  next
    fix bm e k
    assume s': "s' = s\<lparr>aes_block_mode := bm, aes_is_encrypt := e, aes_key := (aes_key s)[?ctxt := k]\<rparr>"
    assume "\<not> ?klen > 32" "k = \<lparr>key_len = ?klen, key_bytes = ?new\<rparr>"
    then show ?thesis using upd [where k = k and bm = bm and e = e] new s' by simp
  qed (use inv in \<open>auto simp: aes_inv_def\<close>)
qed

text \<open>
  The mask of the IV commands selects bits 27 and 28, and the opcodes of both
  commands leave bit 28 clear, so the context is 0 or 2.
\<close>

lemma iv_context_even:
  assumes "drop_bit 28 cmd = (2 :: u32) \<or> drop_bit 28 cmd = (6 :: u32)"
  shows "iv_context cmd = (if bit cmd 27 then 2 else 0)"
proof -
  have "\<not> bit cmd 28"
  proof -
    have "bit (drop_bit 28 cmd) 0 = bit cmd 28" by (simp add: bit_drop_bit_eq)
    with assms show ?thesis by auto
  qed
  moreover have "3 = (mask 2 :: u32)" by (simp add: mask_eq_exp_minus_1)
  ultimately have "bit (drop_bit 26 (cmd AND push_bit 27 3)) n = bit (if bit cmd 27 then push_bit 1 1 else 0 :: u32) n"
    for n
  proof (cases "n = 1 \<or> n = 2")
    case True
    then show ?thesis using \<open>\<not> bit cmd 28\<close> by (elim disjE) (auto simp: \<open>3 = mask 2\<close> bit_simps)
  next
    case False
    then have "n = 0 \<or> 3 \<le> n" by linarith
    then show ?thesis by (elim disjE) (auto simp: \<open>3 = mask 2\<close> bit_simps simp del: mask_numeral)
  qed
  then have "drop_bit 26 (cmd AND push_bit 27 3) = (if bit cmd 27 then push_bit 1 1 else 0 :: u32)"
    by (rule bit_word_eqI)
  then show ?thesis by (simp add: iv_context_def)
qed

lemma aes_inv_cmd_iv:
  assumes "aes_inv s" and "cmd_iv s = (ok, s')"
  shows "aes_inv s'"
  using assms
  by (auto simp: cmd_iv_def Let_def aes_inv_def split: if_splits dest!: set_update_subset_insert [THEN subsetD])

lemma aes_inv_cmd_flag: "aes_inv s \<Longrightarrow> cmd_flag s = (ok, s') \<Longrightarrow> aes_inv s'"
  by (auto simp: cmd_flag_def Let_def split: if_splits)

lemma aes_inv_fifo_process:
  assumes inv: "aes_inv s" and p: "fifo_process D Q s m = (s', m')"
  shows "aes_inv s'"
proof -
  have idx: "aes_inv t \<Longrightarrow> aes_inv (t\<lparr>aes_fifo_idx := 0\<rparr>)" for t
    by (simp add: aes_inv_def)
  obtain k1 s1 k2 s2 k3 s3 where "cmd_key s = (k1, s1)" "cmd_iv s = (k2, s2)" "cmd_flag s = (k3, s3)"
    by fastforce
  with aes_inv_cmd_key [OF inv] aes_inv_cmd_iv [OF inv] aes_inv_cmd_flag [OF inv] inv p show ?thesis
    by (auto simp: fifo_process_def Let_def case_prod_unfold idx split: if_split_asm)
qed

lemma aes_inv_write: "aes_inv s \<Longrightarrow> aes_inv (fst (aes1_write D Q s m off v))"
  by (auto simp: aes1_write_def aes_inv_update Let_def split: prod.split dest: aes_inv_fifo_process [rotated])

section \<open>Feeding the FIFO\<close>

definition fifo_write :: "'m dma_ops \<Rightarrow> 'c qcrypto \<Rightarrow> u32 \<Rightarrow> AESState \<times> 'm \<Rightarrow> AESState \<times> 'm" where
  "fifo_write D Q w = (\<lambda>(s, m). aes1_write D Q s m 0x200 (ucast w))"

text \<open>A command word that loads a new key of \<open>n\<close> words, and what it selects.\<close>

definition key_cmd :: "u32 \<Rightarrow> nat \<Rightarrow> bool" where
  "key_cmd cmd n \<longleftrightarrow> drop_bit 28 cmd = 1 \<and> drop_bit 24 (cmd AND 0x07000000) = 0 \<and>
     drop_bit 16 (cmd AND 0x00030000) \<in> {0, 1} \<and>
     key_lens ! unat (drop_bit 22 (cmd AND 0x00C00000)) \<le> 32 \<and>
     n = unat (key_lens ! unat (drop_bit 22 (cmd AND 0x00C00000))) div 4"

definition key_ctxt :: "u32 \<Rightarrow> nat" where
  "key_ctxt cmd = unat (drop_bit 27 (cmd AND 0x08000000))"

definition key_mode :: "u32 \<Rightarrow> QCryptoCipherMode" where
  "key_mode cmd = (if drop_bit 16 (cmd AND 0x00030000) = 0 then MODE_ECB else MODE_CBC)"

lemma key_cmd_len:
  assumes "key_cmd cmd n"
  shows "n \<in> {4, 6, 8} \<and> key_lens ! unat (drop_bit 22 (cmd AND 0x00C00000)) = of_nat (4 * n)"
  using assms key_lens_cases [OF field_bounds(3) [of cmd]] by (auto simp: key_cmd_def not_less)

text \<open>The FIFO holds the command word and the payload words \<open>p\<close> so far.\<close>

definition holds_words :: "AESState \<Rightarrow> u32 \<Rightarrow> u32 list \<Rightarrow> bool" where
  "holds_words s cmd p \<longleftrightarrow> aes_inv s \<and> aes_fifo_idx s = Suc (length p) \<and> take (Suc (length p)) (aes_fifo s) = cmd # p"

lemma holds_words_nth:
  assumes "holds_words s cmd p"
  shows "aes_fifo s ! 0 = cmd" "take (length p) (drop (Suc 0) (aes_fifo s)) = p"
proof -
  have "length (aes_fifo s) = 9" "take (Suc (length p)) (aes_fifo s) = cmd # p"
    using assms by (auto simp: holds_words_def aes_inv_def)
  then show "aes_fifo s ! 0 = cmd" "take (length p) (drop (Suc 0) (aes_fifo s)) = p"
    by (cases "aes_fifo s"; simp)+
qed

lemma holds_words_append:
  assumes "holds_words s cmd p" and "length p < 8"
  shows "holds_words (fifo_append s (ucast w)) cmd (p @ [w])"
proof -
  have "take (Suc (Suc (length p))) ((aes_fifo s)[Suc (length p) := w]) = cmd # p @ [w]"
    using assms by (simp add: holds_words_def aes_inv_def take_Suc_conv_app_nth)
  then show ?thesis
    using assms aes_inv_update(3) [of s "ucast w"]
    by (auto simp: holds_words_def fifo_append_def)
qed

lemma holds_words_first:
  assumes "aes_inv s" and "aes_fifo_idx s = 0"
  shows "holds_words (fifo_append s (ucast w)) w []"
  using assms aes_inv_update(3) [of s "ucast w"]
  by (cases "aes_fifo s") (auto simp: holds_words_def fifo_append_def aes_inv_def)

lemma fifo_append_other [simp]:
  "aes_key (fifo_append s v) = aes_key s" "aes_iv (fifo_append s v) = aes_iv s"
  "aes_irq_status (fifo_append s v) = aes_irq_status s" "aes_irq_enable (fifo_append s v) = aes_irq_enable s"
  "aes_is_encrypt (fifo_append s v) = aes_is_encrypt s" "aes_block_mode (fifo_append s v) = aes_block_mode s"
  by (simp_all add: fifo_append_def)

lemma holds_words_other [simp]:
  "holds_words (s\<lparr>aes_irq := b\<rparr>) cmd p = holds_words s cmd p"
  "holds_words (s\<lparr>aes_block_mode := bm\<rparr>) cmd p = holds_words s cmd p"
  "holds_words (s\<lparr>aes_is_encrypt := e\<rparr>) cmd p = holds_words s cmd p"
  by (simp_all add: holds_words_def aes_inv_def)

lemma cmd_key_eq:
  assumes h: "holds_words s cmd p" and l: "length p \<le> n"
    and f: "drop_bit 24 (cmd AND 0x07000000) = 0" "drop_bit 16 (cmd AND 0x00030000) \<in> {0, 1}"
    and K: "key_lens ! unat (drop_bit 22 (cmd AND 0x00C00000)) = K" "unat K = 4 * n" "\<not> K > 32"
  shows "cmd_key s = (let s1 = s\<lparr>aes_block_mode := key_mode cmd, aes_is_encrypt := (cmd AND 0x00100000 \<noteq> 0)\<rparr> in
     if length p < n then (False, s1)
     else (True, s1\<lparr>aes_key := (aes_key s)[key_ctxt cmd := \<lparr>key_len = K,
         key_bytes = bsplice 0 (words_bytes p) (key_bytes (aes_key s ! key_ctxt cmd))\<rparr>]\<rparr>))"
proof -
  have idx: "aes_fifo_idx s = Suc (length p)" using h by (simp add: holds_words_def)
  have m: "\<not> (drop_bit 16 (cmd AND 0x00030000) \<noteq> 0 \<and> drop_bit 16 (cmd AND 0x00030000) \<noteq> 1)" using f(2) by auto
  have pay: "take (4 * n) (words_bytes (drop (Suc 0) (aes_fifo s))) = words_bytes p" if "\<not> length p < n"
    using holds_words_nth(2) [OF h] that l by (simp add: words_bytes_take)
  show ?thesis
    unfolding cmd_key_def Let_def holds_words_nth(1) [OF h] if_not_P [OF m] f(1) K(1) unsigned_0
      has_payload_def key_mode_def [symmetric] key_ctxt_def [symmetric]
    using pay idx K(2,3) by simp
qed

lemma key_process:
  assumes h: "holds_words s cmd p" and k: "key_cmd cmd n" and l: "length p \<le> n"
  shows "fifo_process D Q s m =
    (let s1 = s\<lparr>aes_block_mode := key_mode cmd, aes_is_encrypt := (cmd AND 0x00100000 \<noteq> 0)\<rparr> in
     if length p < n then s1
     else s1\<lparr>aes_key := (aes_key s)[key_ctxt cmd := \<lparr>key_len = of_nat (4 * n),
         key_bytes = bsplice 0 (words_bytes p) (key_bytes (aes_key s ! key_ctxt cmd))\<rparr>],
       aes_fifo_idx := 0\<rparr>, m)"
proof -
  have n: "n \<in> {4, 6, 8}" "key_lens ! unat (drop_bit 22 (cmd AND 0x00C00000)) = of_nat (4 * n)"
    using key_cmd_len [OF k] by auto
  have u: "unat (of_nat (4 * n) :: u32) = 4 * n" "\<not> (of_nat (4 * n) :: u32) > 32" using n(1) by auto
  have "aes_fifo_idx s \<noteq> 0" "drop_bit 28 cmd = 1" using h k by (simp_all add: holds_words_def key_cmd_def)
  moreover have "drop_bit 24 (cmd AND 0x07000000) = 0" "drop_bit 16 (cmd AND 0x00030000) \<in> {0, 1}"
    using k unfolding key_cmd_def by blast+
  ultimately show ?thesis
    unfolding fifo_process_def Let_def holds_words_nth(1) [OF h]
    by (simp add: cmd_key_eq [OF h l _ _ n(2) u] Let_def del: drop_bit_and of_nat_mult)
qed

lemma aes_update_irq_other [simp]:
  "aes_key (aes_update_irq s) = aes_key s" "aes_iv (aes_update_irq s) = aes_iv s"
  "aes_fifo_idx (aes_update_irq s) = aes_fifo_idx s" "aes_is_encrypt (aes_update_irq s) = aes_is_encrypt s"
  "aes_block_mode (aes_update_irq s) = aes_block_mode s" "aes_fifo (aes_update_irq s) = aes_fifo s"
  "aes_inv (aes_update_irq s) = aes_inv s" "holds_words (aes_update_irq s) cmd p = holds_words s cmd p"
  by (simp_all add: aes_update_irq_def)

lemma key_feed:
  assumes "key_cmd cmd n" and "holds_words s cmd p" and "ws \<noteq> []" and "length p + length ws = n"
    and "fold (fifo_write D Q) ws (s, m) = (s', m')"
  shows "m' = m \<and> aes_inv s' \<and> aes_fifo_idx s' = 0 \<and> aes_iv s' = aes_iv s \<and> aes_block_mode s' = key_mode cmd \<and>
    aes_is_encrypt s' = (cmd AND 0x00100000 \<noteq> 0) \<and>
    aes_key s' = (aes_key s)[key_ctxt cmd := \<lparr>key_len = of_nat (4 * n),
      key_bytes = bsplice 0 (words_bytes (p @ ws)) (key_bytes (aes_key s ! key_ctxt cmd))\<rparr>]"
  using assms(2-)
proof (induction ws arbitrary: s p)
  case (Cons w ws)
  have n: "n \<le> 8" using key_cmd_len [OF assms(1)] by auto
  define s0 where "s0 = fifo_append s (ucast w)"
  have h: "holds_words s0 cmd (p @ [w])"
    unfolding s0_def using Cons.prems(1,3) n by (intro holds_words_append) auto
  have pr: "fifo_write D Q w (s, m) = (case fifo_process D Q s0 m of (t, m1) \<Rightarrow> (aes_update_irq t, m1))"
    by (simp add: fifo_write_def aes1_write_def s0_def)
  note kp = key_process [OF h assms(1), of D Q m]
  show ?case
  proof (cases "ws = []")
    case True
    with Cons.prems(3) have "length (p @ [w]) = n" by simp
    with kp have p: "fifo_process D Q s0 m = (s0\<lparr>aes_block_mode := key_mode cmd,
        aes_is_encrypt := (cmd AND 0x00100000 \<noteq> 0),
        aes_key := (aes_key s)[key_ctxt cmd := \<lparr>key_len = of_nat (4 * n),
         key_bytes = bsplice 0 (words_bytes (p @ [w])) (key_bytes (aes_key s ! key_ctxt cmd))\<rparr>],
       aes_fifo_idx := 0\<rparr>, m)" by (simp add: s0_def)
    then have "aes_inv s'"
      using aes_inv_fifo_process [OF _ p] h Cons.prems(4) True pr by (auto simp: holds_words_def)
    with p pr Cons.prems(4) True show ?thesis by (auto simp: s0_def)
  next
    case False
    with Cons.prems(3) have "length (p @ [w]) < n" by (cases ws) auto
    with kp have "fifo_write D Q w (s, m) = (aes_update_irq (s0\<lparr>aes_block_mode := key_mode cmd,
        aes_is_encrypt := (cmd AND 0x00100000 \<noteq> 0)\<rparr>), m)" by (simp add: pr)
    with Cons.prems(4) have "fold (fifo_write D Q) ws (aes_update_irq (s0\<lparr>aes_block_mode := key_mode cmd,
        aes_is_encrypt := (cmd AND 0x00100000 \<noteq> 0)\<rparr>), m) = (s', m')" by simp
    from Cons.IH [OF _ False _ this, of "p @ [w]"] show ?thesis
      using h Cons.prems(3) by (simp add: s0_def)
  qed
qed simp

section \<open>Data commands\<close>

text \<open>The cipher a data command runs with.\<close>

definition data_cipher :: "'c qcrypto \<Rightarrow> AESState \<Rightarrow> 'c option" where
  "data_cipher Q s =
     (let k = aes_key s ! unat (drop_bit 27 (aes_fifo s ! 0 AND 0x08000000)) in
      case key_algo (key_len k) of
        None \<Rightarrow> None
      | Some alg \<Rightarrow>
          (case qcrypto_cipher_new Q alg (aes_block_mode s) (take (unat (key_len k)) (key_bytes k)) of
             None \<Rightarrow> None
           | Some c0 \<Rightarrow> if aes_block_mode s \<noteq> MODE_ECB
                        then qcrypto_cipher_setiv Q c0 (words_bytes (aes_iv s ! 0)) else Some c0))"

lemma cmd_data_done:
  assumes "aes_inv s"
  shows "cmd_data D Q s m = (True, m') \<longleftrightarrow> has_payload s 3 \<and>
    (\<exists>src c dst. dma_read D m (data_src s) (data_len s) = (MEMTX_OK, src) \<and> data_cipher Q s = Some c \<and>
      (if aes_is_encrypt s then qcrypto_cipher_encrypt Q c src else qcrypto_cipher_decrypt Q c src) = Some dst \<and>
      dma_write D m (data_dst s) dst = (MEMTX_OK, m'))"
proof -
  have "\<not> (unat (drop_bit 27 (aes_fifo s ! 0 AND 0x08000000)) \<ge> length (aes_key s) \<or> 0 \<ge> length (aes_iv s))"
    using assms field_bounds(1) [of "aes_fifo s ! 0"] by (simp add: aes_inv_def)
  then show ?thesis
    unfolding cmd_data_def data_cipher_def Let_def case_prod_unfold
    by (simp add: prod_eq_iff split: option.split if_split)
qed

section \<open>Histories\<close>

datatype aes_event = AES_write u64 u64 | AES_reset

fun aes_step :: "'m dma_ops \<Rightarrow> 'c qcrypto \<Rightarrow> aes_event \<Rightarrow> AESState \<times> 'm \<Rightarrow> AESState \<times> 'm" where
  "aes_step D Q (AES_write off v) (s, m) = aes1_write D Q s m off v"
| "aes_step D Q AES_reset (s, m) = (aes_reset s, m)"

lemma aes_step_inv: "aes_inv (fst st) \<Longrightarrow> aes_inv (fst (aes_step D Q ev st))"
  by (cases st; cases ev) (simp_all add: aes_inv_write aes_inv_update)

lemma aes_fold_inv: "aes_inv (fst st) \<Longrightarrow> aes_inv (fst (fold (aes_step D Q) evs st))"
  by (induction evs arbitrary: st) (simp_all add: aes_step_inv)

text \<open>An opcode the engine does not implement sits at the head of the FIFO.\<close>

definition wedged :: "AESState \<Rightarrow> bool" where
  "wedged s \<longleftrightarrow> aes_inv s \<and> 0 < aes_fifo_idx s \<and> drop_bit 28 (aes_fifo s ! 0) \<notin> {1, 2, 5, 6, 8}"

lemma wedged_append: "wedged s \<Longrightarrow> wedged (fifo_append s v)"
  using aes_inv_update(3) [of s v] by (auto simp: wedged_def fifo_append_def)

lemma wedged_process:
  "wedged s \<Longrightarrow> fifo_process D Q s m = (s\<lparr>aes_irq_status := aes_irq_status s OR push_bit 2 1\<rparr>, m)"
  by (simp add: wedged_def fifo_process_def)

lemma wedged_other [simp]:
  "wedged (s\<lparr>aes_irq_status := v\<rparr>) = wedged s" "wedged (s\<lparr>aes_irq_enable := v\<rparr>) = wedged s"
  "wedged (aes_update_irq s) = wedged s" "wedged (aes_reset s) = wedged s"
  by (simp_all add: wedged_def aes_reset_def)

lemma wedged_step:
  assumes "wedged s" and "aes_step D Q ev (s, m) = (s', m')"
  shows "wedged s' \<and> m' = m \<and> aes_key s' = aes_key s \<and> aes_iv s' = aes_iv s"
proof (cases ev)
  case (AES_write off v)
  with assms wedged_append [OF assms(1), of v] wedged_process [OF wedged_append [OF assms(1)], of D Q v m]
  show ?thesis by (auto simp: aes1_write_def split: if_splits)
qed (use assms in \<open>auto simp: aes_reset_def wedged_def\<close>)

lemma wedged_fold:
  "wedged s \<Longrightarrow> fold (aes_step D Q) evs (s, m) = (s', m') \<Longrightarrow>
    wedged s' \<and> m' = m \<and> aes_key s' = aes_key s \<and> aes_iv s' = aes_iv s"
proof (induction evs arbitrary: s)
  case (Cons ev evs)
  obtain s1 m1 where "aes_step D Q ev (s, m) = (s1, m1)" by fastforce
  with wedged_step [OF Cons.prems(1) this] Cons.IH [of s1] Cons.prems(2) show ?case by simp
qed simp

text \<open>A concrete cipher for examples: every byte is combined with the first key byte.\<close>

definition sample_cipher :: "bytes qcrypto" where
  "sample_cipher = \<lparr>qcrypto_cipher_new = (\<lambda>alg mode key. Some key), qcrypto_cipher_setiv = (\<lambda>c iv. Some c),
     qcrypto_cipher_encrypt = (\<lambda>c x. Some (map (\<lambda>b. b XOR hd c) x)),
     qcrypto_cipher_decrypt = (\<lambda>c x. Some (map (\<lambda>b. b XOR hd c) x))\<rparr>"

section \<open>Properties\<close>

text \<open>
  C23. Starting from the created object, no sequence of register writes and
  resets breaks the engine's state: the FIFO index stays within the nine-word
  FIFO, both key contexts hold 32 key bytes and a length of 0, 16, 24 or 32, all
  four IV contexts hold four words, and the IV context selected by the queued
  IV or STORE_IV command is a valid index.
\<close>

theorem aes_state_invariant:
  assumes "fold (aes_step D Q) evs (aes_new, m) = (s, m')"
  shows "length (aes_fifo s) = 9 \<and> aes_fifo_idx s \<le> 9 \<and> length (aes_key s) = 2 \<and>
    (\<forall>k. k \<in> set (aes_key s) \<longrightarrow> length (key_bytes k) = 32 \<and> key_len k \<in> {0, 16, 24, 32}) \<and>
    length (aes_iv s) = 4 \<and> (\<forall>v. v \<in> set (aes_iv s) \<longrightarrow> length v = 4) \<and>
    (drop_bit 28 (aes_fifo s ! 0) \<in> {2, 6} \<longrightarrow> iv_context (aes_fifo s ! 0) < length (aes_iv s))"
proof -
  have inv: "aes_inv s" using aes_fold_inv [of "(aes_new, m)" D Q evs] assms aes_inv_update(4) by simp
  moreover have "drop_bit 28 (aes_fifo s ! 0) \<in> {2, 6} \<Longrightarrow> iv_context (aes_fifo s ! 0) < 4"
    by (subst iv_context_even) auto
  ultimately show ?thesis unfolding aes_inv_def by metis
qed

theorem aes_state_invariant_witness:
  "aes_fifo_idx (fst (fold (aes_step sysbus_dma sample_cipher)
      [AES_write 0x200 0x20000000, AES_reset] (aes_new, list_ram 0 0 []))) \<le> 9"
  by (rule aes_state_invariant [OF surjective_pairing, THEN conjunct2, THEN conjunct1])

text \<open>
  C22. Feeding a KEY command for a fresh key, word by word, loads it: once the
  command word and exactly the announced number of key words have been written
  to an empty FIFO, the selected key context holds these bytes and their length,
  mode and direction are those of the command word, and the FIFO is empty again.
  The other key context, the IVs and guest memory are untouched.
\<close>

theorem aes_key_load:
  assumes "aes_inv s" "aes_fifo_idx s = 0" "key_cmd cmd (length ws)"
    and "fold (fifo_write D Q) (cmd # ws) (s, m) = (s', m')"
  shows "m' = m \<and> aes_fifo_idx s' = 0 \<and> aes_iv s' = aes_iv s \<and> aes_block_mode s' = key_mode cmd \<and>
    aes_is_encrypt s' = (cmd AND 0x00100000 \<noteq> 0) \<and>
    aes_key s' = (aes_key s)[key_ctxt cmd := \<lparr>key_len = of_nat (4 * length ws),
      key_bytes = bsplice 0 (words_bytes ws) (key_bytes (aes_key s ! key_ctxt cmd))\<rparr>]"
proof -
  define s0 where "s0 = fifo_append s (ucast cmd)"
  have h: "holds_words s0 cmd []" unfolding s0_def using assms(1,2) by (rule holds_words_first)
  have n: "0 < length ws" using key_cmd_len [OF assms(3)] by auto
  then have "fifo_write D Q cmd (s, m) = (aes_update_irq (s0\<lparr>aes_block_mode := key_mode cmd,
      aes_is_encrypt := (cmd AND 0x00100000 \<noteq> 0)\<rparr>), m)"
    using key_process [OF h assms(3), of D Q m] by (simp add: fifo_write_def aes1_write_def s0_def)
  then have "fold (fifo_write D Q) ws (aes_update_irq (s0\<lparr>aes_block_mode := key_mode cmd,
      aes_is_encrypt := (cmd AND 0x00100000 \<noteq> 0)\<rparr>), m) = (s', m')" using assms(4) by simp
  from key_feed [OF assms(3) _ _ _ this, of "[]"] h n show ?thesis by (auto simp: s0_def)
qed

theorem aes_key_load_witness:
  "aes_key (fst (fold (fifo_write sysbus_dma sample_cipher) [0x10110000, 1, 2, 3, 4] (aes_new, list_ram 0 0 []))) ! 0 =
    \<lparr>key_len = 16, key_bytes = words_bytes [1, 2, 3, 4] @ replicate 16 0\<rparr>"
proof -
  have "key_cmd 0x10110000 (length [1, 2, 3, 4 :: u32])" by (simp add: key_cmd_def key_lens_def)
  from aes_key_load [OF aes_inv_update(4) _ this surjective_pairing, of sysbus_dma sample_cipher "list_ram 0 0 []"]
  show ?thesis by (simp add: aes_new_def key_ctxt_def bsplice_def)
qed

text \<open>
  C3. Decryption undoes encryption through guest memory.  If a data command in
  encrypt direction succeeds, then a data command in decrypt direction with the
  same key context, key, IV and mode that reads the produced bytes succeeds too
  whenever its destination is writable memory, and leaves the original bytes
  there.  The cipher is only assumed to be length preserving and to decrypt
  what it encrypted.
\<close>

theorem aes_encrypt_decrypt:
  assumes "view_ok (gm_view m)" "no_alias m"
    and cipher: "\<forall>c x y. qcrypto_cipher_encrypt Q c x = Some y \<longrightarrow> length y = length x \<and> qcrypto_cipher_decrypt Q c y = Some x"
    and "aes_inv s" "aes_is_encrypt s" "cmd_data sysbus_dma Q s m = (True, m1)"
    and "aes_inv s'" "\<not> aes_is_encrypt s'" "has_payload s' 3"
    and "aes_key s' = aes_key s" "aes_iv s' = aes_iv s" "aes_block_mode s' = aes_block_mode s"
    and "aes_fifo s' ! 0 = aes_fifo s ! 0" "data_src s' = data_dst s"
    and "\<forall>i<data_len s. ram_slot m1 True (data_dst s' + of_nat i) \<noteq> None"
  shows "\<exists>m2. cmd_data sysbus_dma Q s' m1 = (True, m2) \<and>
    dma_memory_read m2 (data_dst s') (data_len s) = (MEMTX_OK, snd (dma_memory_read m (data_src s) (data_len s)))"
proof -
  obtain x c y where rd: "dma_memory_read m (data_src s) (data_len s) = (MEMTX_OK, x)"
    and c: "data_cipher Q s = Some c" and e: "qcrypto_cipher_encrypt Q c x = Some y"
    and wr: "dma_memory_write m (data_dst s) y = (MEMTX_OK, m1)"
    using assms(5,6) cmd_data_done [OF assms(4), of sysbus_dma Q m m1] by (auto simp: sysbus_dma_def)
  have len: "length x = data_len s" "length y = data_len s" "data_len s \<le> 2 ^ 64"
    using sysmem.rd_length [of m "data_src s" "data_len s"] assms(1,2) rd cipher e unat_bounds(3) [of "aes_fifo s ! 0 AND 0xffffff"]
    by (auto simp: sysbus_dma_def data_len_def)
  have m1: "view_ok (gm_view m1)" "no_alias m1" "dma_memory_read m1 (data_dst s) (data_len s) = (MEMTX_OK, y)"
    using sysmem.wr_inv [of m "data_dst s" y] sysmem.rd_after_wr [of m y "data_dst s"] assms(1,2) wr len
    by (auto simp: sysbus_dma_def)
  obtain m2 where w2: "dma_memory_write m1 (data_dst s') x = (MEMTX_OK, m2)"
    using sysmem.wr_ok [of m1 "data_dst s'" x] m1(1,2) assms(15) len
    by (cases "dma_memory_write m1 (data_dst s') x") (auto simp: sysbus_dma_def)
  have "data_cipher Q s' = Some c" "data_len s' = data_len s"
    using c unfolding data_cipher_def data_len_def assms(10-13) by simp_all
  then have "cmd_data sysbus_dma Q s' m1 = (True, m2)"
    using cmd_data_done [OF assms(7), of sysbus_dma Q m1 m2] assms(8,9,14) m1(3) cipher e w2
    by (auto simp: sysbus_dma_def)
  moreover have "dma_memory_read m2 (data_dst s') (data_len s) = (MEMTX_OK, x)"
    using sysmem.rd_after_wr [of m1 x "data_dst s'"] m1(1,2) len w2 by (simp add: sysbus_dma_def)
  ultimately show ?thesis using rd by simp
qed

definition sample_aes :: "bool \<Rightarrow> u32 \<Rightarrow> u32 \<Rightarrow> AESState" where
  "sample_aes e src dst = aes_new\<lparr>aes_fifo := [0x50000002, 0, src, dst, 0, 0, 0, 0, 0], aes_fifo_idx := 4,
     aes_key := replicate 2 \<lparr>key_len = 16, key_bytes = 0x55 # replicate 31 0\<rparr>, aes_is_encrypt := e\<rparr>"

theorem aes_encrypt_decrypt_witness:
  "\<exists>m1 m2. cmd_data sysbus_dma sample_cipher (sample_aes True 0x70000000 0x70000010)
      (list_ram 0x70000000 64 ([7, 8] @ replicate 62 0)) = (True, m1) \<and>
    cmd_data sysbus_dma sample_cipher (sample_aes False 0x70000010 0x70000020) m1 = (True, m2) \<and>
    dma_memory_read m2 0x70000020 2 = (MEMTX_OK, [7, 8])"
proof -
  let ?m = "list_ram 0x70000000 64 ([7, 8] @ replicate 62 0)"
  let ?m1 = "list_ram 0x70000000 64 (bsplice 16 [0x52, 0x5D] ([7, 8] @ replicate 62 0))"
  have inv: "aes_inv (sample_aes e src dst)" for e src dst
    by (simp add: sample_aes_def aes_inv_def aes_new_def)
  have a: "data_src (sample_aes e src dst) = ucast src" "data_dst (sample_aes e src dst) = ucast dst"
    "data_len (sample_aes e src dst) = 2" "has_payload (sample_aes e src dst) 3" for e src dst
    by (simp_all add: sample_aes_def data_src_def data_dst_def data_len_def has_payload_def)
  have f: "aes_is_encrypt (sample_aes e src dst) = e" "aes_iv (sample_aes e src dst) = replicate 4 (replicate 4 0)"
    "aes_key (sample_aes e src dst) = replicate 2 \<lparr>key_len = 16, key_bytes = 0x55 # replicate 31 0\<rparr>" "aes_fifo (sample_aes e src dst) ! 0 = 0x50000002"
    "aes_block_mode (sample_aes e src dst) = MODE_ECB" for e src dst
    by (simp_all add: sample_aes_def aes_new_def)
  have q: "\<forall>c x y. qcrypto_cipher_encrypt sample_cipher c x = Some y \<longrightarrow>
      length y = length x \<and> qcrypto_cipher_decrypt sample_cipher c y = Some x"
    by (auto simp: sample_cipher_def o_def xor.assoc)
  have c: "data_cipher sample_cipher (sample_aes e src dst) = Some (0x55 # replicate 15 0)" for e src dst
    by (simp add: data_cipher_def sample_aes_def key_algo_def sample_cipher_def aes_new_def)
  have r: "dma_memory_read ?m 0x70000000 2 = (MEMTX_OK, [7, 8])"
    by (simp add: list_ram_read ram_fits_def bslice_def)
  have d1: "cmd_data sysbus_dma sample_cipher (sample_aes True 0x70000000 0x70000010) ?m = (True, ?m1)"
    unfolding cmd_data_done [OF inv] a c
    using r by (simp add: sysbus_dma_def sample_cipher_def sample_aes_def list_ram_write ram_fits_def
        has_payload_def)
  have w: "\<forall>i<2. ram_slot ?m1 True (0x70000020 + of_nat i) \<noteq> None"
    by (auto simp: list_ram_slot [where n = 2] ram_fits_def bsplice_def)
  have "\<exists>m2. cmd_data sysbus_dma sample_cipher (sample_aes False 0x70000010 0x70000020) ?m1 = (True, m2) \<and>
      dma_memory_read m2 0x70000020 2 = (MEMTX_OK, [7, 8])"
    using aes_encrypt_decrypt [OF _ _ q inv _ d1 inv, of False "0x70000010" "0x70000020"] w r by (simp add: a f)
  with d1 show ?thesis by blast
qed

text \<open>
  C27. One command with an unknown opcode wedges the engine for good: while it
  is queued, every FIFO write only raises the invalid-command status, a reset
  leaves the FIFO as it is, and so no later sequence of register writes and
  resets ever loads a key or an IV or touches guest memory again.
\<close>

theorem aes_unknown_command_wedges:
  assumes "aes_inv s" "aes_fifo_idx s = 0" "drop_bit 28 (cmd :: u32) \<notin> {1, 2, 5, 6, 8}"
    and "fold (aes_step D Q) (AES_write 0x200 (ucast cmd) # evs) (s, m) = (s', m')"
  shows "0 < aes_fifo_idx s' \<and> m' = m \<and> aes_key s' = aes_key s \<and> aes_iv s' = aes_iv s"
proof -
  have w: "wedged (fifo_append s (ucast cmd))"
    using assms(1-3) aes_inv_update(3) [OF assms(1), of "ucast cmd"]
    by (cases "aes_fifo s") (auto simp: wedged_def fifo_append_def aes_inv_def)
  let ?s1 = "aes_update_irq ((fifo_append s (ucast cmd))\<lparr>aes_irq_status := aes_irq_status s OR push_bit 2 1\<rparr>)"
  have "aes_step D Q (AES_write 0x200 (ucast cmd)) (s, m) = (?s1, m)"
    by (simp add: aes1_write_def wedged_process [OF w])
  then have "fold (aes_step D Q) evs (?s1, m) = (s', m')" using assms(4) by simp
  from wedged_fold [OF _ this] w show ?thesis by (simp add: wedged_def)
qed

theorem aes_unknown_command_wedges_witness:
  "aes_key (fst (fold (aes_step sysbus_dma sample_cipher)
     (AES_write 0x200 (ucast (0x40000000 :: u32)) # [AES_reset, AES_write 0x200 0x11000000]) (aes_new, list_ram 0 0 []))) =
   aes_key aes_new"
proof -
  have i: "aes_fifo_idx aes_new = 0" by (simp add: aes_new_def)
  have "drop_bit 28 (0x40000000 :: u32) \<notin> {1, 2, 5, 6, 8}" by simp
  show ?thesis
    by (rule aes_unknown_command_wedges [OF aes_inv_update(4) i \<open>_ \<notin> _\<close> surjective_pairing,
          THEN conjunct2, THEN conjunct2, THEN conjunct1])
qed

text \<open>
  C28. The interrupt line follows the registers: after every write to a
  register the engine knows, the line is high exactly when an enabled status
  bit is set, and writing ones to the status register clears exactly these bits.
\<close>

theorem aes_interrupt_line:
  assumes "off \<in> {0x18, 0x1c, 0x200}" and "aes1_write D Q s m off v = (s', m')"
  shows "(aes_irq s' \<longleftrightarrow> aes_irq_status s' AND aes_irq_enable s' \<noteq> 0) \<and>
    (off = 0x18 \<longrightarrow> aes_irq_status s' = aes_irq_status s AND NOT (ucast v))"
proof -
  have "(ucast (ucast (aes_irq_status s) AND NOT v) :: u32) = aes_irq_status s AND NOT (ucast v)"
    by (auto intro!: bit_eqI simp: bit_simps)
  then show ?thesis using assms by (auto simp: aes1_write_def aes_update_irq_def split: prod.splits)
qed

theorem aes_interrupt_line_witness:
  "\<not> aes_irq (fst (aes1_write sysbus_dma sample_cipher (aes_new\<lparr>aes_irq := True, aes_irq_status := 0x20, aes_irq_enable := 0x20\<rparr>)
     (list_ram 0 0 []) 0x18 0x20))"
  using aes_interrupt_line [OF _ surjective_pairing, of "0x18" sysbus_dma sample_cipher
      "aes_new\<lparr>aes_irq := True, aes_irq_status := 0x20, aes_irq_enable := 0x20\<rparr>" "list_ram 0 0 []" "0x20"]
  by simp

end
