(* ===== verification/Arm_Cpu.thy ===== *)
theory Arm_Cpu
  imports Prelude
begin

text \<open>
  The part of an ARM virtual CPU that power control, PSCI and the vendor
  hypercalls read and change (\<^verbatim>\<open>target/arm/cpu.h\<close>, \<^verbatim>\<open>target/arm/cpu.c\<close>):
  general registers, exception level and register width, the
  pointer-authentication keys, the PSCI power state with its halt reason, and the
  queue of work items other threads hand to the CPU.  System registers are kept
  only as far as \<^verbatim>\<open>arm_el_is_aa64\<close> reads them, and the M profile is left out.
\<close>

record ARMPACKey =
  pk_lo :: u64
  pk_hi :: u64

record ARMPACKeys =
  apia :: ARMPACKey
  apib :: ARMPACKey
  apda :: ARMPACKey
  apdb :: ARMPACKey
  apga :: ARMPACKey

definition no_key :: ARMPACKey where
  "no_key = \<lparr>pk_lo = 0, pk_hi = 0\<rparr>"

definition no_keys :: ARMPACKeys where
  "no_keys = \<lparr>apia = no_key, apib = no_key, apda = no_key, apdb = no_key, apga = no_key\<rparr>"

datatype ARMPSCIState = PSCI_ON | PSCI_OFF | PSCI_ON_PENDING
datatype ARMHaltReason = NOT_HALTED | HALT_PSCI | HALT_WFI | HALT_WFE
datatype psci_conduit = CONDUIT_DISABLED | CONDUIT_SMC | CONDUIT_HVC

record CpuOnInfo =
  on_entry :: u64
  on_context_id :: u64
  on_target_el :: nat
  on_target_aa64 :: bool

datatype cpu_work = Work_on CpuOnInfo | Work_on_and_reset | Work_off | Work_reset

record ARMCPU =
  cpu_mp_affinity :: u64
  cpu_start_powered_off :: bool
  cpu_power_state :: ARMPSCIState
  cpu_halted :: bool
  cpu_halt_reason :: ARMHaltReason
  cpu_exception_index :: int
  cpu_xregs :: "u64 list"
  cpu_regs :: "u32 list"
  cpu_pc :: u64
  cpu_aarch64 :: bool
  cpu_el :: nat
  cpu_rvbar :: u64
  feat_el2 :: bool
  feat_el3 :: bool
  feat_aarch64 :: bool
  feat_v8 :: bool
  cpu_scr_rw :: bool
  cpu_el2_enabled :: bool
  cpu_hcr_rw :: bool
  cpu_keys :: ARMPACKeys
  cpu_psci_conduit :: psci_conduit
  cpu_gt_cntfrq_hz :: u64
  cpu_work_queue :: "cpu_work list"

abbreviation (input) EXCP_HLT :: int where "EXCP_HLT \<equiv> 0x10001"

definition psci_state_num :: "ARMPSCIState \<Rightarrow> int" where
  "psci_state_num st = (case st of PSCI_ON \<Rightarrow> 0 | PSCI_OFF \<Rightarrow> 1 | PSCI_ON_PENDING \<Rightarrow> 2)"

definition arm_set_cpu_power_state :: "ARMCPU \<Rightarrow> ARMPSCIState \<Rightarrow> ARMCPU" where
  "arm_set_cpu_power_state cpu state =
     cpu\<lparr>cpu_power_state := state, cpu_halt_reason := (if state = PSCI_OFF then HALT_PSCI else NOT_HALTED)\<rparr>"

text \<open>
  Reset clears the register file and the keys and enters the highest level; the
  high-vector setting of AArch32 is taken to be off.
\<close>

definition cpu_reset_entry :: "ARMCPU \<Rightarrow> ARMCPU" where
  "cpu_reset_entry cpu =
     (let top = (if feat_el3 cpu then 3 else if feat_el2 cpu then 2 else 1)
      in if feat_aarch64 cpu then cpu\<lparr>cpu_aarch64 := True, cpu_el := top, cpu_pc := cpu_rvbar cpu\<rparr>
         else if feat_v8 cpu then cpu\<lparr>cpu_regs := (cpu_regs cpu)[15 := ucast (cpu_rvbar cpu)], cpu_el := top\<rparr>
         else cpu\<lparr>cpu_el := top\<rparr>)"

definition cpu_reset :: "ARMCPU \<Rightarrow> ARMCPU" where
  "cpu_reset cpu =
     (let c1 = cpu\<lparr>cpu_halted := cpu_start_powered_off cpu, cpu_exception_index := - 1,
            cpu_xregs := replicate 32 0, cpu_regs := replicate 16 0, cpu_pc := 0, cpu_aarch64 := False,
            cpu_scr_rw := False, cpu_hcr_rw := False, cpu_keys := no_keys\<rparr>
      in cpu_reset_entry (arm_set_cpu_power_state c1 (if cpu_start_powered_off cpu then PSCI_OFF else PSCI_ON)))"

text \<open>\<open>None\<close> is a failed assertion: the CPU lacks the level it is asked to enter.\<close>

definition arm_emulate_firmware_reset :: "ARMCPU \<Rightarrow> nat \<Rightarrow> ARMCPU option" where
  "arm_emulate_firmware_reset cpu target_el =
     (let lower =
        (let c1 = (if feat_el3 cpu \<and> cpu_aarch64 cpu then cpu\<lparr>cpu_scr_rw := True\<rparr> else cpu);
             c2 = (if feat_el2 cpu \<and> target_el < 2 \<and> cpu_aarch64 cpu then c1\<lparr>cpu_hcr_rw := True\<rparr> else c1)
         in c2\<lparr>cpu_el := target_el\<rparr>)
      in if target_el = 3 then (if feat_el3 cpu then Some cpu else None)
         else if target_el = 2 then
           (if \<not> feat_el2 cpu then None else if \<not> feat_el3 cpu then Some cpu else Some lower)
         else if target_el = 1 then
           (if \<not> feat_el3 cpu \<and> \<not> feat_el2 cpu then Some cpu else Some lower)
         else None)"

definition arm_el_is_aa64 :: "ARMCPU \<Rightarrow> nat \<Rightarrow> bool" where
  "arm_el_is_aa64 cpu el =
     (let aa64 = feat_aarch64 cpu in
      if el = 3 then aa64
      else let aa64 = (if feat_el3 cpu then aa64 \<and> cpu_scr_rw cpu else aa64) in
      if el = 2 then aa64
      else if cpu_el2_enabled cpu then aa64 \<and> cpu_hcr_rw cpu else aa64)"

definition cpu_set_pc :: "ARMCPU \<Rightarrow> u64 \<Rightarrow> ARMCPU" where
  "cpu_set_pc cpu v =
     (if cpu_aarch64 cpu then cpu\<lparr>cpu_pc := v\<rparr>
      else cpu\<lparr>cpu_regs := (cpu_regs cpu)[15 := ucast v AND NOT 1]\<rparr>)"

text \<open>The position of the first CPU with the given affinity.\<close>

fun arm_get_cpu_by_id :: "ARMCPU list \<Rightarrow> u64 \<Rightarrow> nat option" where
  "arm_get_cpu_by_id [] cpuid = None"
| "arm_get_cpu_by_id (c # cs) cpuid =
     (if cpu_mp_affinity c = cpuid then Some 0 else map_option Suc (arm_get_cpu_by_id cs cpuid))"

definition async_run_on_cpu :: "ARMCPU list \<Rightarrow> nat \<Rightarrow> cpu_work \<Rightarrow> ARMCPU list" where
  "async_run_on_cpu cpus i w =
     cpus[i := (cpus ! i)\<lparr>cpu_work_queue := cpu_work_queue (cpus ! i) @ [w]\<rparr>]"

lemma arm_get_cpu_by_id_Some:
  "arm_get_cpu_by_id cpus cpuid = Some i \<Longrightarrow>
    i < length cpus \<and> cpu_mp_affinity (cpus ! i) = cpuid \<and> (\<forall>j<i. cpu_mp_affinity (cpus ! j) \<noteq> cpuid)"
proof (induction cpus arbitrary: i)
  case (Cons c cs)
  then show ?case by (auto simp: nth_Cons split: if_splits nat.splits)
qed simp

lemma arm_get_cpu_by_id_None: "arm_get_cpu_by_id cpus cpuid = None \<longleftrightarrow> (\<forall>c\<in>set cpus. cpu_mp_affinity c \<noteq> cpuid)"
  by (induction cpus) auto

text \<open>With distinct affinities the lookup finds every CPU of the machine.\<close>

lemma arm_get_cpu_by_id_nth:
  assumes "distinct (map cpu_mp_affinity cpus)" and "i < length cpus"
  shows "arm_get_cpu_by_id cpus (cpu_mp_affinity (cpus ! i)) = Some i"
proof (cases "arm_get_cpu_by_id cpus (cpu_mp_affinity (cpus ! i))")
  case None
  then show ?thesis using assms(2) by (auto simp: arm_get_cpu_by_id_None)
next
  case (Some j)
  with arm_get_cpu_by_id_Some [OF Some] have "j < length cpus" "map cpu_mp_affinity cpus ! j = map cpu_mp_affinity cpus ! i"
    using assms(2) by auto
  with assms show ?thesis using Some nth_eq_iff_index_eq [OF assms(1), of j i] by simp
qed

lemma cpu_reset_simps [simp]:
  "cpu_mp_affinity (cpu_reset c) = cpu_mp_affinity c" "feat_el2 (cpu_reset c) = feat_el2 c"
  "feat_el3 (cpu_reset c) = feat_el3 c" "feat_aarch64 (cpu_reset c) = feat_aarch64 c"
  "cpu_aarch64 (cpu_reset c) = feat_aarch64 c" "cpu_keys (cpu_reset c) = no_keys"
  "cpu_xregs (cpu_reset c) = replicate 32 0" "cpu_work_queue (cpu_reset c) = cpu_work_queue c"
  "cpu_power_state (cpu_reset c) = (if cpu_start_powered_off c then PSCI_OFF else PSCI_ON)"
  "cpu_halt_reason (cpu_reset c) = (if cpu_start_powered_off c then HALT_PSCI else NOT_HALTED)"
  "cpu_halted (cpu_reset c) = cpu_start_powered_off c"
  "cpu_start_powered_off (cpu_reset c) = cpu_start_powered_off c"
  "cpu_el (cpu_reset c) = (if feat_el3 c then 3 else if feat_el2 c then 2 else 1)"
  by (simp_all add: cpu_reset_def cpu_reset_entry_def arm_set_cpu_power_state_def Let_def)

lemma firmware_reset_el:
  assumes "arm_emulate_firmware_reset (cpu_reset c) el = Some c'"
  shows "cpu_el c' = el \<and> cpu_xregs c' = replicate 32 0 \<and> cpu_keys c' = no_keys \<and> cpu_aarch64 c' = feat_aarch64 c \<and>
    cpu_mp_affinity c' = cpu_mp_affinity c \<and> cpu_work_queue c' = cpu_work_queue c \<and> feat_el2 c' = feat_el2 c \<and>
    feat_el3 c' = feat_el3 c \<and> feat_aarch64 c' = feat_aarch64 c \<and> cpu_start_powered_off c' = cpu_start_powered_off c"
  using assms by (auto simp: arm_emulate_firmware_reset_def Let_def split: if_splits)

section \<open>A concrete CPU\<close>

definition sample_cpu :: "u64 \<Rightarrow> bool \<Rightarrow> ARMCPU" where
  "sample_cpu aff off = \<lparr>cpu_mp_affinity = aff, cpu_start_powered_off = off,
     cpu_power_state = (if off then PSCI_OFF else PSCI_ON), cpu_halted = off,
     cpu_halt_reason = (if off then HALT_PSCI else NOT_HALTED), cpu_exception_index = - 1,
     cpu_xregs = replicate 32 0, cpu_regs = replicate 16 0, cpu_pc = 0, cpu_aarch64 = True, cpu_el = 1,
     cpu_rvbar = 0, feat_el2 = False, feat_el3 = False, feat_aarch64 = True, feat_v8 = True, cpu_scr_rw = False,
     cpu_el2_enabled = False, cpu_hcr_rw = False, cpu_keys = no_keys, cpu_psci_conduit = CONDUIT_HVC,
     cpu_gt_cntfrq_hz = 62500000, cpu_work_queue = []\<rparr>"

end
