(* ===== verification/Powerctl.thy ===== *)
theory Powerctl
  imports Arm_Cpu
begin

text \<open>
  CPU power control, \<^verbatim>\<open>target/arm/arm-powerctl.c\<close>: the four requests and the
  work items they queue on the target CPU.  A request runs in the caller's
  thread under the big lock, a work item later in the target's; a history of the
  machine is any interleaving of both (\<open>power_step\<close>).  \<open>None\<close> is a failed
  assertion.
\<close>

abbreviation (input) POWERCTL_RET_SUCCESS :: int where "POWERCTL_RET_SUCCESS \<equiv> 0"
abbreviation (input) POWERCTL_INVALID_PARAM :: int where "POWERCTL_INVALID_PARAM \<equiv> - 2"
abbreviation (input) POWERCTL_IS_OFF :: int where "POWERCTL_IS_OFF \<equiv> - 3"
abbreviation (input) POWERCTL_ALREADY_ON :: int where "POWERCTL_ALREADY_ON \<equiv> - 4"
abbreviation (input) POWERCTL_ON_PENDING :: int where "POWERCTL_ON_PENDING \<equiv> - 5"

definition arm_set_cpu_on_async_work :: "ARMCPU \<Rightarrow> CpuOnInfo \<Rightarrow> ARMCPU option" where
  "arm_set_cpu_on_async_work cpu info =
     (case arm_emulate_firmware_reset (cpu_reset cpu) (on_target_el info) of
        None \<Rightarrow> None
      | Some c0 \<Rightarrow>
          (let c1 = c0\<lparr>cpu_halted := False\<rparr> in
           if on_target_el info \<noteq> cpu_el c1 then None
           else let c2 = (if on_target_aa64 info
                          then c1\<lparr>cpu_xregs := (cpu_xregs c1)[0 := on_context_id info]\<rparr>
                          else c1\<lparr>cpu_regs := (cpu_regs c1)[0 := ucast (on_context_id info)]\<rparr>)
                in Some (arm_set_cpu_power_state (cpu_set_pc c2 (on_entry info)) PSCI_ON)))"

definition arm_set_cpu_on ::
    "ARMCPU list \<Rightarrow> u64 \<Rightarrow> u64 \<Rightarrow> u64 \<Rightarrow> nat \<Rightarrow> bool \<Rightarrow> (int \<times> ARMCPU list) option" where
  "arm_set_cpu_on cpus cpuid entry context_id target_el target_aa64 =
     (if \<not> (0 < target_el \<and> target_el < 4) then None
      else if target_aa64 \<and> entry AND 3 \<noteq> 0 then Some (POWERCTL_INVALID_PARAM, cpus)
      else case arm_get_cpu_by_id cpus cpuid of
        None \<Rightarrow> Some (POWERCTL_INVALID_PARAM, cpus)
      | Some i \<Rightarrow>
          (let target = cpus ! i in
           if cpu_power_state target = PSCI_ON then Some (POWERCTL_ALREADY_ON, cpus)
           else if (target_el = 3 \<and> \<not> feat_el3 target) \<or> (target_el = 2 \<and> \<not> feat_el2 target)
             then Some (POWERCTL_INVALID_PARAM, cpus)
           else if \<not> target_aa64 \<and> feat_aarch64 target then Some (POWERCTL_INVALID_PARAM, cpus)
           else if cpu_power_state target = PSCI_ON_PENDING then Some (POWERCTL_ON_PENDING, cpus)
           else Some (POWERCTL_RET_SUCCESS,
                  async_run_on_cpu cpus i (Work_on \<lparr>on_entry = entry, on_context_id = context_id,
                    on_target_el = target_el, on_target_aa64 = target_aa64\<rparr>))))"

definition arm_set_cpu_on_and_reset_async_work :: "ARMCPU \<Rightarrow> ARMCPU" where
  "arm_set_cpu_on_and_reset_async_work cpu =
     arm_set_cpu_power_state ((cpu_reset cpu)\<lparr>cpu_halted := False\<rparr>) PSCI_ON"

definition arm_set_cpu_on_and_reset :: "ARMCPU list \<Rightarrow> u64 \<Rightarrow> int \<times> ARMCPU list" where
  "arm_set_cpu_on_and_reset cpus cpuid =
     (case arm_get_cpu_by_id cpus cpuid of
        None \<Rightarrow> (POWERCTL_INVALID_PARAM, cpus)
      | Some i \<Rightarrow>
          if cpu_power_state (cpus ! i) = PSCI_ON then (POWERCTL_ALREADY_ON, cpus)
          else if cpu_power_state (cpus ! i) = PSCI_ON_PENDING then (POWERCTL_ON_PENDING, cpus)
          else (POWERCTL_RET_SUCCESS, async_run_on_cpu cpus i Work_on_and_reset))"

definition arm_set_cpu_off_async_work :: "ARMCPU \<Rightarrow> ARMCPU" where
  "arm_set_cpu_off_async_work cpu =
     (arm_set_cpu_power_state cpu PSCI_OFF)\<lparr>cpu_halted := True, cpu_exception_index := EXCP_HLT\<rparr>"

definition arm_set_cpu_off :: "ARMCPU list \<Rightarrow> u64 \<Rightarrow> int \<times> ARMCPU list" where
  "arm_set_cpu_off cpus cpuid =
     (case arm_get_cpu_by_id cpus cpuid of
        None \<Rightarrow> (POWERCTL_INVALID_PARAM, cpus)
      | Some i \<Rightarrow>
          if cpu_power_state (cpus ! i) = PSCI_OFF then (POWERCTL_IS_OFF, cpus)
          else (POWERCTL_RET_SUCCESS, async_run_on_cpu cpus i Work_off))"

definition arm_reset_cpu_async_work :: "ARMCPU \<Rightarrow> ARMCPU" where
  "arm_reset_cpu_async_work cpu = cpu_reset cpu"

definition arm_reset_cpu :: "ARMCPU list \<Rightarrow> u64 \<Rightarrow> int \<times> ARMCPU list" where
  "arm_reset_cpu cpus cpuid =
     (case arm_get_cpu_by_id cpus cpuid of
        None \<Rightarrow> (POWERCTL_INVALID_PARAM, cpus)
      | Some i \<Rightarrow>
          if cpu_power_state (cpus ! i) = PSCI_OFF then (POWERCTL_IS_OFF, cpus)
          else (POWERCTL_RET_SUCCESS, async_run_on_cpu cpus i Work_reset))"

text \<open>The target's thread runs the oldest item of its queue.\<close>

definition run_work :: "ARMCPU \<Rightarrow> ARMCPU option" where
  "run_work cpu =
     (case cpu_work_queue cpu of
        [] \<Rightarrow> Some cpu
      | w # ws \<Rightarrow>
          (let c = cpu\<lparr>cpu_work_queue := ws\<rparr> in
           case w of
             Work_on info \<Rightarrow> arm_set_cpu_on_async_work c info
           | Work_on_and_reset \<Rightarrow> Some (arm_set_cpu_on_and_reset_async_work c)
           | Work_off \<Rightarrow> Some (arm_set_cpu_off_async_work c)
           | Work_reset \<Rightarrow> Some (arm_reset_cpu_async_work c)))"

section \<open>Interleavings\<close>

inductive power_step :: "ARMCPU list \<Rightarrow> ARMCPU list \<Rightarrow> bool" where
  req_on: "arm_set_cpu_on cpus cpuid entry ctx el aa64 = Some (r, cpus') \<Longrightarrow> power_step cpus cpus'"
| req_on_reset: "arm_set_cpu_on_and_reset cpus cpuid = (r, cpus') \<Longrightarrow> power_step cpus cpus'"
| req_off: "arm_set_cpu_off cpus cpuid = (r, cpus') \<Longrightarrow> power_step cpus cpus'"
| req_reset: "arm_reset_cpu cpus cpuid = (r, cpus') \<Longrightarrow> power_step cpus cpus'"
| work: "i < length cpus \<Longrightarrow> run_work (cpus ! i) = Some c \<Longrightarrow> power_step cpus (cpus[i := c])"

inductive_cases power_step_elim: "power_step cpus cpus'"

text \<open>
  What every history keeps: no CPU is ever in the pending state, an off CPU is
  halted for PSCI, and every queued power-on names a level its target has.
\<close>

definition start_ok :: "ARMCPU \<Rightarrow> CpuOnInfo \<Rightarrow> bool" where
  "start_ok c info \<longleftrightarrow> on_target_el info \<in> {1, 2, 3} \<and> (on_target_el info = 3 \<longrightarrow> feat_el3 c) \<and>
     (on_target_el info = 2 \<longrightarrow> feat_el2 c) \<and> (feat_aarch64 c \<longrightarrow> on_target_aa64 info)"

definition cpu_ok :: "ARMCPU \<Rightarrow> bool" where
  "cpu_ok c \<longleftrightarrow> cpu_power_state c \<noteq> PSCI_ON_PENDING \<and>
     (cpu_power_state c = PSCI_OFF \<longrightarrow> cpu_halted c \<and> cpu_halt_reason c = HALT_PSCI) \<and>
     (\<forall>info. Work_on info \<in> set (cpu_work_queue c) \<longrightarrow> start_ok c info)"

definition cpus_ok :: "ARMCPU list \<Rightarrow> bool" where
  "cpus_ok cpus \<longleftrightarrow> (\<forall>c\<in>set cpus. cpu_ok c) \<and> distinct (map cpu_mp_affinity cpus)"

lemma map_affinity_update:
  "i < length cpus \<Longrightarrow> cpu_mp_affinity c = cpu_mp_affinity (cpus ! i) \<Longrightarrow>
    map cpu_mp_affinity (cpus[i := c]) = map cpu_mp_affinity cpus"
  by (simp add: map_update list_update_same_conv)

lemma cpus_ok_update:
  assumes "cpus_ok cpus" and "i < length cpus" and "cpu_ok c" and "cpu_mp_affinity c = cpu_mp_affinity (cpus ! i)"
  shows "cpus_ok (cpus[i := c])"
  using assms map_affinity_update [OF assms(2,4)]
  by (auto simp: cpus_ok_def dest!: set_update_subset_insert [THEN subsetD])

lemma start_ok_cong:
  "feat_el2 c' = feat_el2 c \<Longrightarrow> feat_el3 c' = feat_el3 c \<Longrightarrow> feat_aarch64 c' = feat_aarch64 c \<Longrightarrow>
    start_ok c' info = start_ok c info"
  by (simp add: start_ok_def)

lemma start_ok_simps [simp]:
  "start_ok (c\<lparr>cpu_work_queue := ws\<rparr>) = start_ok c" "start_ok (c\<lparr>cpu_halted := h\<rparr>) = start_ok c"
  "start_ok (c\<lparr>cpu_exception_index := x\<rparr>) = start_ok c" "start_ok (arm_set_cpu_power_state c st) = start_ok c"
  "start_ok (cpu_reset c) = start_ok c"
  by (rule ext, rule start_ok_cong; simp add: arm_set_cpu_power_state_def)+

lemma cpus_ok_async:
  assumes "cpus_ok cpus" and "i < length cpus" and "\<And>info. w = Work_on info \<Longrightarrow> start_ok (cpus ! i) info"
  shows "cpus_ok (async_run_on_cpu cpus i w)"
  unfolding async_run_on_cpu_def
proof (rule cpus_ok_update [OF assms(1,2)])
  have "cpu_ok (cpus ! i)" using assms(1,2) by (simp add: cpus_ok_def)
  moreover have "start_ok (cpus ! i) info" if "Work_on info = w" for info using assms(3) that by blast
  ultimately show "cpu_ok ((cpus ! i)\<lparr>cpu_work_queue := cpu_work_queue (cpus ! i) @ [w]\<rparr>)"
    by (simp add: cpu_ok_def)
qed simp

text \<open>
  A queued power-on whose level the target has never fails, and leaves the CPU
  as \<open>arm_emulate_firmware_reset\<close> does, running at the entry point.
\<close>

lemma firmware_reset_some:
  assumes "start_ok c info"
  obtains c0 where "arm_emulate_firmware_reset (cpu_reset c) (on_target_el info) = Some c0"
proof -
  have "arm_emulate_firmware_reset (cpu_reset c) (on_target_el info) \<noteq> None"
    using assms unfolding start_ok_def by (simp add: arm_emulate_firmware_reset_def Let_def) blast
  then show ?thesis using that by blast
qed

lemma on_work_eq:
  assumes "arm_emulate_firmware_reset (cpu_reset c) (on_target_el info) = Some c0"
  shows "arm_set_cpu_on_async_work c info = Some (arm_set_cpu_power_state (cpu_set_pc
    (if on_target_aa64 info then c0\<lparr>cpu_halted := False, cpu_xregs := (replicate 32 0)[0 := on_context_id info]\<rparr>
     else c0\<lparr>cpu_halted := False, cpu_regs := (cpu_regs c0)[0 := ucast (on_context_id info)]\<rparr>) (on_entry info)) PSCI_ON)"
  using firmware_reset_el [OF assms] by (simp add: arm_set_cpu_on_async_work_def assms Let_def)

lemma power_state_simps [simp]:
  "cpu_power_state (arm_set_cpu_power_state c st) = st"
  "cpu_halt_reason (arm_set_cpu_power_state c st) = (if st = PSCI_OFF then HALT_PSCI else NOT_HALTED)"
  "cpu_halted (arm_set_cpu_power_state c st) = cpu_halted c" "cpu_pc (arm_set_cpu_power_state c st) = cpu_pc c"
  "cpu_xregs (arm_set_cpu_power_state c st) = cpu_xregs c" "cpu_el (arm_set_cpu_power_state c st) = cpu_el c"
  "cpu_keys (arm_set_cpu_power_state c st) = cpu_keys c" "cpu_work_queue (arm_set_cpu_power_state c st) = cpu_work_queue c"
  "cpu_mp_affinity (arm_set_cpu_power_state c st) = cpu_mp_affinity c"
  "feat_el2 (arm_set_cpu_power_state c st) = feat_el2 c" "feat_el3 (arm_set_cpu_power_state c st) = feat_el3 c"
  "feat_aarch64 (arm_set_cpu_power_state c st) = feat_aarch64 c"
  by (simp_all add: arm_set_cpu_power_state_def)

lemma set_pc_simps [simp]:
  "cpu_halted (cpu_set_pc c v) = cpu_halted c" "cpu_xregs (cpu_set_pc c v) = cpu_xregs c"
  "cpu_pc (cpu_set_pc c v) = (if cpu_aarch64 c then v else cpu_pc c)" "cpu_el (cpu_set_pc c v) = cpu_el c"
  "cpu_keys (cpu_set_pc c v) = cpu_keys c" "cpu_work_queue (cpu_set_pc c v) = cpu_work_queue c"
  "cpu_mp_affinity (cpu_set_pc c v) = cpu_mp_affinity c" "feat_el2 (cpu_set_pc c v) = feat_el2 c"
  "feat_el3 (cpu_set_pc c v) = feat_el3 c" "feat_aarch64 (cpu_set_pc c v) = feat_aarch64 c"
  by (simp_all add: cpu_set_pc_def)

lemma on_work_ok:
  assumes c: "cpu_ok c" and l: "start_ok c info" and e: "arm_set_cpu_on_async_work c info = Some c'"
  shows "cpu_ok c' \<and> cpu_mp_affinity c' = cpu_mp_affinity c"
proof -
  obtain c0 where c0: "arm_emulate_firmware_reset (cpu_reset c) (on_target_el info) = Some c0"
    using firmware_reset_some [OF l] .
  note f = firmware_reset_el [OF c0]
  have q: "cpu_power_state c' = PSCI_ON" "cpu_work_queue c' = cpu_work_queue c" "feat_el2 c' = feat_el2 c"
    "feat_el3 c' = feat_el3 c" "feat_aarch64 c' = feat_aarch64 c" "cpu_mp_affinity c' = cpu_mp_affinity c"
    using e [symmetric] f unfolding on_work_eq [OF c0] option.inject by (simp_all add: if_distrib cong: if_cong)
  have "start_ok c' = start_ok c" by (rule ext, rule start_ok_cong [OF q(3-5)])
  with c q(1,2,6) show ?thesis by (simp add: cpu_ok_def)
qed

lemma run_work_total:
  assumes "cpu_ok c"
  shows "run_work c \<noteq> None"
proof (cases "cpu_work_queue c")
  case (Cons w ws)
  show ?thesis
  proof (cases w)
    case (Work_on info)
    with Cons assms have "start_ok (c\<lparr>cpu_work_queue := ws\<rparr>) info" by (simp add: cpu_ok_def)
    then obtain c0 where "arm_emulate_firmware_reset (cpu_reset (c\<lparr>cpu_work_queue := ws\<rparr>)) (on_target_el info) = Some c0"
      by (rule firmware_reset_some)
    from on_work_eq [OF this] show ?thesis using Cons Work_on by (simp add: run_work_def Let_def)
  qed (use Cons in \<open>simp_all add: run_work_def Let_def\<close>)
qed (simp add: run_work_def)

lemma run_work_ok:
  assumes c: "cpu_ok c" and r: "run_work c = Some c'"
  shows "cpu_ok c' \<and> cpu_mp_affinity c' = cpu_mp_affinity c"
proof (cases "cpu_work_queue c")
  case Nil
  with c r show ?thesis by (simp add: run_work_def)
next
  case (Cons w ws)
  let ?c = "c\<lparr>cpu_work_queue := ws\<rparr>"
  have ws: "start_ok c info" if "Work_on info = w \<or> Work_on info \<in> set ws" for info
    using c Cons that unfolding cpu_ok_def by (metis list.set_intros)
  then have k: "cpu_ok ?c" using c by (simp add: cpu_ok_def)
  show ?thesis
  proof (cases w)
    case (Work_on info)
    then have "start_ok ?c info" using ws [of info] by simp
    from on_work_ok [OF k this, of c'] r Cons Work_on show ?thesis by (simp add: run_work_def)
  next
    case Work_on_and_reset
    then have "c' = arm_set_cpu_on_and_reset_async_work ?c" using r Cons by (simp add: run_work_def)
    then show ?thesis using ws by (simp add: arm_set_cpu_on_and_reset_async_work_def cpu_ok_def)
  next
    case Work_off
    then have "c' = arm_set_cpu_off_async_work ?c" using r Cons by (simp add: run_work_def)
    then show ?thesis using ws by (simp add: arm_set_cpu_off_async_work_def cpu_ok_def)
  next
    case Work_reset
    then have "c' = arm_reset_cpu_async_work ?c" using r Cons by (simp add: run_work_def)
    then show ?thesis using ws by (simp add: arm_reset_cpu_async_work_def cpu_ok_def)
  qed
qed

lemma set_cpu_on_ok:
  assumes "cpus_ok cpus" and "arm_set_cpu_on cpus cpuid entry ctx el aa64 = Some (r, cpus')"
  shows "cpus_ok cpus'"
proof (cases "cpus' = cpus")
  case False
  let ?info = "\<lparr>on_entry = entry, on_context_id = ctx, on_target_el = el, on_target_aa64 = aa64\<rparr>"
  obtain i where i: "arm_get_cpu_by_id cpus cpuid = Some i" and el: "0 < el" "el < 4"
    and c: "cpus' = async_run_on_cpu cpus i (Work_on ?info)"
    and f: "el = 3 \<longrightarrow> feat_el3 (cpus ! i)" "el = 2 \<longrightarrow> feat_el2 (cpus ! i)" "feat_aarch64 (cpus ! i) \<longrightarrow> aa64"
    using assms(2) False unfolding arm_set_cpu_on_def Let_def by (simp split: if_split_asm option.split_asm) blast
  have "el \<in> {1, 2, 3}" using el by auto
  with f have "start_ok (cpus ! i) ?info" by (simp add: start_ok_def)
  then show ?thesis unfolding c using assms(1) arm_get_cpu_by_id_Some [OF i] by (intro cpus_ok_async) simp_all
qed (use assms in simp)

lemma power_step_ok: "power_step cpus cpus' \<Longrightarrow> cpus_ok cpus \<Longrightarrow> cpus_ok cpus'"
proof (induction rule: power_step.induct)
  case (work i cpus c)
  then have "cpu_ok (cpus ! i)" by (simp add: cpus_ok_def)
  from run_work_ok [OF this work.hyps(2)] work show ?case by (simp add: cpus_ok_update)
next
  case (req_on cpus cpuid entry ctx el aa64 r cpus')
  then show ?case by (blast intro: set_cpu_on_ok)
next
  case (req_on_reset cpus cpuid r cpus')
  then show ?case
    by (auto simp: arm_set_cpu_on_and_reset_def split: if_split_asm option.split_asm
        intro!: cpus_ok_async dest: arm_get_cpu_by_id_Some)
next
  case (req_off cpus cpuid r cpus')
  then show ?case
    by (auto simp: arm_set_cpu_off_def split: if_split_asm option.split_asm intro!: cpus_ok_async dest: arm_get_cpu_by_id_Some)
next
  case (req_reset cpus cpuid r cpus')
  then show ?case
    by (auto simp: arm_reset_cpu_def split: if_split_asm option.split_asm intro!: cpus_ok_async dest: arm_get_cpu_by_id_Some)
qed

lemma power_steps_ok: "power_step\<^sup>*\<^sup>* cpus cpus' \<Longrightarrow> cpus_ok cpus \<Longrightarrow> cpus_ok cpus'"
  by (induction rule: rtranclp_induct) (auto intro: power_step_ok)

section \<open>Two sample CPUs\<close>

lemma sample_cpus_ok: "cpus_ok [sample_cpu 0 False, sample_cpu 1 True]"
  by (simp add: cpus_ok_def cpu_ok_def sample_cpu_def)

section \<open>Properties\<close>

text \<open>
  C30. Power control never trips over its own assertions: from a machine whose
  CPUs have distinct affinities, whatever power-on, power-off and reset requests
  are made and however the queued work items interleave with them, every queued
  item of every CPU can be run, and a CPU that is off is halted for PSCI, as the
  idle test of the CPU loop asserts.
\<close>

theorem powerctl_safe:
  assumes "cpus_ok init" and "power_step\<^sup>*\<^sup>* init cpus" and "c \<in> set cpus"
  shows "run_work c \<noteq> None \<and>
    (cpu_power_state c = PSCI_OFF \<longrightarrow> cpu_halted c \<and> cpu_halt_reason c = HALT_PSCI)"
proof -
  have "cpu_ok c" using power_steps_ok [OF assms(2,1)] assms(3) by (simp add: cpus_ok_def)
  then show ?thesis using run_work_total [of c] by (simp add: cpu_ok_def)
qed

theorem powerctl_safe_witness:
  "run_work ((sample_cpu 1 True)\<lparr>cpu_work_queue := [Work_on \<lparr>on_entry = 0x1000, on_context_id = 7,
     on_target_el = 1, on_target_aa64 = True\<rparr>]\<rparr>) \<noteq> None"
proof -
  let ?c = "(sample_cpu 1 True)\<lparr>cpu_work_queue := [Work_on \<lparr>on_entry = 0x1000, on_context_id = 7,
        on_target_el = 1, on_target_aa64 = True\<rparr>]\<rparr>"
  have "arm_set_cpu_on [sample_cpu 0 False, sample_cpu 1 True] 1 0x1000 7 1 True = Some (0, [sample_cpu 0 False, ?c])"
    by (simp add: arm_set_cpu_on_def sample_cpu_def async_run_on_cpu_def)
  then have "power_step [sample_cpu 0 False, sample_cpu 1 True] [sample_cpu 0 False, ?c]" by (rule power_step.req_on)
  then show ?thesis using powerctl_safe [OF sample_cpus_ok r_into_rtranclp, of _ ?c] by simp
qed

lemma set_cpu_on_accepts:
  assumes "distinct (map cpu_mp_affinity cpus)" "i < length cpus" "cpu_power_state (cpus ! i) = PSCI_OFF"
    and "feat_aarch64 (cpus ! i)" "el \<in> {1, 2, 3}" "el = 3 \<longrightarrow> feat_el3 (cpus ! i)" "el = 2 \<longrightarrow> feat_el2 (cpus ! i)"
    and "entry AND 3 = 0"
  shows "arm_set_cpu_on cpus (cpu_mp_affinity (cpus ! i)) entry ctx el True = Some (POWERCTL_RET_SUCCESS,
    async_run_on_cpu cpus i (Work_on \<lparr>on_entry = entry, on_context_id = ctx, on_target_el = el, on_target_aa64 = True\<rparr>))"
  using assms by (auto simp: arm_set_cpu_on_def arm_get_cpu_by_id_nth Let_def)

lemma run_on_item:
  assumes "feat_aarch64 c" "el \<in> {1, 2, 3}" "el = 3 \<longrightarrow> feat_el3 c" "el = 2 \<longrightarrow> feat_el2 c"
    and "cpu_work_queue c = [Work_on \<lparr>on_entry = entry, on_context_id = ctx, on_target_el = el, on_target_aa64 = True\<rparr>]"
  shows "case run_work c of None \<Rightarrow> False | Some c' \<Rightarrow> cpu_power_state c' = PSCI_ON \<and> \<not> cpu_halted c' \<and> cpu_el c' = el \<and>
    cpu_pc c' = entry \<and> cpu_xregs c' = ctx # replicate 31 0 \<and> cpu_keys c' = no_keys"
proof -
  let ?info = "\<lparr>on_entry = entry, on_context_id = ctx, on_target_el = el, on_target_aa64 = True\<rparr>"
  have "(replicate 32 0)[0 := ctx] = ctx # replicate 31 0" using replicate_Suc [of 31 "0 :: u64"] by simp
  moreover have "start_ok (c\<lparr>cpu_work_queue := []\<rparr>) ?info" using assms(1-4) by (simp add: start_ok_def)
  then obtain c0 where
    c0: "arm_emulate_firmware_reset (cpu_reset (c\<lparr>cpu_work_queue := []\<rparr>)) (on_target_el ?info) = Some c0"
    by (rule firmware_reset_some)
  ultimately show ?thesis
    using firmware_reset_el [OF c0] assms(1,5) by (simp add: run_work_def on_work_eq [OF c0])
qed

text \<open>
  C31. A power-on request for an off CPU of a 64-bit machine starts it as asked:
  the request succeeds, and when the target runs the queued item it is on and
  running at the requested level from the requested entry point, with the
  context identifier in x0, every other general register zero and zero
  pointer-authentication keys.
\<close>

theorem cpu_on_starts_cpu:
  assumes "distinct (map cpu_mp_affinity cpus)" "i < length cpus" "cpu_power_state (cpus ! i) = PSCI_OFF"
    and "feat_aarch64 (cpus ! i)" "el \<in> {1, 2, 3}" "el = 3 \<longrightarrow> feat_el3 (cpus ! i)" "el = 2 \<longrightarrow> feat_el2 (cpus ! i)"
    and "entry AND 3 = 0" "cpu_work_queue (cpus ! i) = []"
  shows "\<exists>cpus'. arm_set_cpu_on cpus (cpu_mp_affinity (cpus ! i)) entry ctx el True = Some (POWERCTL_RET_SUCCESS, cpus') \<and>
    (case run_work (cpus' ! i) of None \<Rightarrow> False | Some c \<Rightarrow> cpu_power_state c = PSCI_ON \<and> \<not> cpu_halted c \<and> cpu_el c = el \<and>
    cpu_pc c = entry \<and> cpu_xregs c = ctx # replicate 31 0 \<and> cpu_keys c = no_keys)"
proof -
  let ?w = "Work_on \<lparr>on_entry = entry, on_context_id = ctx, on_target_el = el, on_target_aa64 = True\<rparr>"
  have q: "async_run_on_cpu cpus i ?w ! i = (cpus ! i)\<lparr>cpu_work_queue := [?w]\<rparr>"
    using assms(2,9) by (simp add: async_run_on_cpu_def)
  show ?thesis
    using set_cpu_on_accepts [OF assms(1-8), of ctx] run_on_item [OF _ assms(5), of "(cpus ! i)\<lparr>cpu_work_queue := [?w]\<rparr>"]
      assms(4,6,7) by (auto simp: q)
qed

theorem cpu_on_starts_cpu_witness:
  "\<exists>cpus'. arm_set_cpu_on [sample_cpu 0 False, sample_cpu 1 True] 1 0x1000 7 1 True = Some (0, cpus') \<and>
    (case run_work (cpus' ! 1) of None \<Rightarrow> False | Some c \<Rightarrow> cpu_pc c = 0x1000)"
  using cpu_on_starts_cpu [of "[sample_cpu 0 False, sample_cpu 1 True]" 1 1 "0x1000" 7]
  by (simp add: sample_cpu_def) (metis (no_types, lifting) option.case_eq_if)

text \<open>
  C35. The pending state is never entered.  The comment in the request says that
  once another CPU has powered the target on, further attempts fail with
  ON_PENDING; but no request and no work item ever sets that state, so in every
  history a second power-on request that arrives before the target has run the
  first one succeeds too, and both are queued.
\<close>

theorem cpu_on_twice_succeeds:
  assumes "cpus_ok init" and "power_step\<^sup>*\<^sup>* init cpus"
    and "arm_set_cpu_on cpus cpuid entry ctx el aa64 = Some (POWERCTL_RET_SUCCESS, cpus1)"
    and "entry2 AND 3 = 0"
  shows "\<exists>i cpus2. arm_set_cpu_on cpus1 cpuid entry2 ctx2 el aa64 = Some (POWERCTL_RET_SUCCESS, cpus2) \<and>
    i < length cpus2 \<and> cpu_work_queue (cpus2 ! i) = cpu_work_queue (cpus ! i) @
      [Work_on \<lparr>on_entry = entry, on_context_id = ctx, on_target_el = el, on_target_aa64 = aa64\<rparr>,
       Work_on \<lparr>on_entry = entry2, on_context_id = ctx2, on_target_el = el, on_target_aa64 = aa64\<rparr>]"
proof -
  let ?w = "\<lambda>e c. Work_on \<lparr>on_entry = e, on_context_id = c, on_target_el = el, on_target_aa64 = aa64\<rparr>"
  obtain i where i: "arm_get_cpu_by_id cpus cpuid = Some i" and el: "0 < el" "el < 4"
    and c1: "cpus1 = async_run_on_cpu cpus i (?w entry ctx)" and st: "cpu_power_state (cpus ! i) \<noteq> PSCI_ON"
    "cpu_power_state (cpus ! i) \<noteq> PSCI_ON_PENDING"
    and f: "\<not> ((el = 3 \<and> \<not> feat_el3 (cpus ! i)) \<or> (el = 2 \<and> \<not> feat_el2 (cpus ! i)))"
    "\<not> (\<not> aa64 \<and> feat_aarch64 (cpus ! i))"
    using assms(3) unfolding arm_set_cpu_on_def Let_def by (simp split: if_split_asm option.split_asm)
  have l: "i < length cpus" and a: "cpu_mp_affinity (cpus ! i) = cpuid" using arm_get_cpu_by_id_Some [OF i] by auto
  have d: "distinct (map cpu_mp_affinity cpus1)" "cpu_mp_affinity (cpus1 ! i) = cpuid" "i < length cpus1"
    using power_steps_ok [OF assms(2,1)] map_affinity_update [OF l] l a
    by (simp_all add: c1 async_run_on_cpu_def cpus_ok_def)
  have "arm_get_cpu_by_id cpus1 cpuid = Some i" using arm_get_cpu_by_id_nth [OF d(1,3)] d(2) by simp
  then have "arm_set_cpu_on cpus1 cpuid entry2 ctx2 el aa64 =
      Some (POWERCTL_RET_SUCCESS, async_run_on_cpu cpus1 i (?w entry2 ctx2))"
    using assms(4) el st f l by (simp add: arm_set_cpu_on_def Let_def c1 async_run_on_cpu_def)
  then show ?thesis using l by (intro exI [of _ i]) (simp add: c1 async_run_on_cpu_def)
qed

theorem cpu_on_twice_succeeds_witness:
  "\<exists>cpus1 cpus2. arm_set_cpu_on [sample_cpu 0 False, sample_cpu 1 True] 1 0x1000 7 1 True = Some (0, cpus1) \<and>
    arm_set_cpu_on cpus1 1 0x2000 8 1 True = Some (0, cpus2)"
proof -
  have "\<exists>cpus1. arm_set_cpu_on [sample_cpu 0 False, sample_cpu 1 True] 1 0x1000 7 1 True = Some (0, cpus1)"
    by (simp add: arm_set_cpu_on_def sample_cpu_def)
  then obtain cpus1 where c: "arm_set_cpu_on [sample_cpu 0 False, sample_cpu 1 True] 1 0x1000 7 1 True = Some (0, cpus1)" ..
  from cpu_on_twice_succeeds [OF sample_cpus_ok rtranclp.rtrancl_refl c, of "0x2000" 8] c show ?thesis by auto
qed

end
