(* ===== verification/Hvc.thy ===== *)
theory Hvc
  imports Arm_Cpu
begin

text \<open>
  The vendor hypercalls of the machine, \<^verbatim>\<open>hw/vmapple/hvc.c\<close>, and the hook through
  which they are offered, \<^verbatim>\<open>target/arm/smccc.c\<close>.  The static variables of the
  file are the record \<open>hvc_state\<close>; the guest RAM block, which the first call on
  the boot CPU edits, is the byte list \<open>ram\<close>.  The randomness source is the
  parameter \<open>rand\<close>, the host the record \<open>hvc_host\<close>.

  The last sections show that the device-tree scan rewrites exactly the
  timebase records, and what the handler does on every call.
\<close>

section \<open>State\<close>

record hvc_state =
  boot_valid :: bool
  boot_keys :: ARMPACKeys
  default_pids :: "u64 \<times> u64"

record hvc_host =
  host_is_aarch64 :: bool
  tcg_enabled :: bool
  host_cntfrq :: u64

abbreviation (input) VMAPPLE_CPU_SERVICE_BASE :: u32 where "VMAPPLE_CPU_SERVICE_BASE \<equiv> 0xc1000000"
abbreviation (input) VMAPPLE_CPU_SERVICE_COUNT :: u32 where "VMAPPLE_CPU_SERVICE_COUNT \<equiv> 0x10000"
abbreviation (input) APPLE_TIMEBASE_HZ :: u64 where "APPLE_TIMEBASE_HZ \<equiv> 24000000"

definition keys_save :: "hvc_state \<Rightarrow> ARMCPU \<Rightarrow> hvc_state" where
  "keys_save hs cpu = hs\<lparr>boot_keys := cpu_keys cpu, boot_valid := True\<rparr>"

definition keys_install :: "hvc_state \<Rightarrow> ARMCPU \<Rightarrow> ARMCPU" where
  "keys_install hs cpu = cpu\<lparr>cpu_keys := boot_keys hs\<rparr>"

definition guest_counter_hz :: "hvc_host \<Rightarrow> ARMCPU \<Rightarrow> u64" where
  "guest_counter_hz h cpu = (if host_is_aarch64 h \<and> \<not> tcg_enabled h then host_cntfrq h else cpu_gt_cntfrq_hz cpu)"

section \<open>The device-tree timebase\<close>

text \<open>The name field of the record: \<^verbatim>\<open>timebase-frequency\<close>, zero padded to 32 bytes.\<close>

definition adt_name :: bytes where
  "adt_name = [0x74, 0x69, 0x6d, 0x65, 0x62, 0x61, 0x73, 0x65, 0x2d, 0x66, 0x72, 0x65, 0x71, 0x75, 0x65, 0x6e,
     0x63, 0x79, 0, 0, 0, 0, 0, 0, 0, 0, 0, 0, 0, 0, 0, 0]"

definition patch_timebase_record :: "bytes \<Rightarrow> nat \<Rightarrow> u64 \<Rightarrow> bool \<times> bytes" where
  "patch_timebase_record ram rec hz =
     (let len = le32 (bslice (rec + 32) 4 ram); val = le64 (bslice (rec + 36) 8 ram)
      in if len AND 0x7fffffff \<noteq> 8 \<or> val \<noteq> APPLE_TIMEBASE_HZ then (False, ram)
         else (True, bsplice (rec + 36) (to_le64 hz) ram))"

text \<open>\<^verbatim>\<open>memmem\<close> for the name: the first match at or after \<open>i\<close> that ends by \<open>e\<close>.\<close>

function memmem_name :: "bytes \<Rightarrow> nat \<Rightarrow> nat \<Rightarrow> nat option" where
  "memmem_name ram i e =
     (if e < i + 32 then None
      else if bslice i 32 ram = adt_name then Some i
      else memmem_name ram (i + 1) e)"
  by pat_completeness auto
termination by (relation "measure (\<lambda>(ram, i, e). e - i)") auto

declare memmem_name.simps [simp del]

lemma memmem_name_Some:
  "memmem_name ram i e = Some r \<Longrightarrow> i \<le> r \<and> r + 32 \<le> e \<and> bslice r 32 ram = adt_name \<and>
    (\<forall>j. i \<le> j \<and> j < r \<longrightarrow> bslice j 32 ram \<noteq> adt_name)"
proof (induction ram i e rule: memmem_name.induct)
  case (1 ram i e)
  show ?case
  proof (cases "e < i + 32 \<or> bslice i 32 ram = adt_name")
    case True
    then show ?thesis using "1.prems" by (subst (asm) memmem_name.simps) (auto split: if_splits)
  next
    case False
    then have "memmem_name ram (i + 1) e = Some r" using "1.prems" by (subst (asm) memmem_name.simps) simp
    from "1.IH" [OF _ _ this] False have h: "i + 1 \<le> r" "r + 32 \<le> e" "bslice r 32 ram = adt_name"
      "\<And>j. i + 1 \<le> j \<Longrightarrow> j < r \<Longrightarrow> bslice j 32 ram \<noteq> adt_name" by auto
    have "bslice j 32 ram \<noteq> adt_name" if "i \<le> j" "j < r" for j
      using h(4) [of j] that False by (cases "j = i") auto
    with h(1-3) show ?thesis by simp
  qed
qed

lemma memmem_name_None:
  "memmem_name ram i e = None \<Longrightarrow> i \<le> j \<Longrightarrow> j + 32 \<le> e \<Longrightarrow> bslice j 32 ram \<noteq> adt_name"
proof (induction ram i e rule: memmem_name.induct)
  case (1 ram i e)
  have ne: "\<not> e < i + 32" "bslice i 32 ram \<noteq> adt_name"
    using "1.prems" by (auto simp: memmem_name.simps [of ram i e] split: if_splits)
  then have "memmem_name ram (i + 1) e = None" using "1.prems"(1) by (subst (asm) memmem_name.simps) simp
  from "1.IH" [OF ne this] "1.prems" ne show ?case by (cases "j = i") auto
qed

function timebase_scan :: "bytes \<Rightarrow> u64 \<Rightarrow> nat \<Rightarrow> nat \<Rightarrow> nat \<Rightarrow> bytes \<times> nat" where
  "timebase_scan ram hz i e patched =
     (case memmem_name ram i e of
        None \<Rightarrow> (ram, patched)
      | Some rec \<Rightarrow>
          (let (ok, ram') = patch_timebase_record ram rec hz
           in timebase_scan ram' hz (rec + 1) e (patched + (if ok then 1 else 0))))"
  by pat_completeness auto
termination
  by (relation "measure (\<lambda>(ram, hz, i, e, patched). e - i)") (auto dest: memmem_name_Some)

declare timebase_scan.simps [simp del]

text \<open>Of RAM, the first 2 GiB are searched.\<close>

definition fix_dt_timebase :: "u64 \<Rightarrow> bytes \<Rightarrow> bytes" where
  "fix_dt_timebase hz ram =
     (if hz = APPLE_TIMEBASE_HZ then ram
      else fst (timebase_scan ram hz 0 (min (length ram) (2 * 1024 * 1024 * 1024) - (32 + 4 + 8)) 0))"

section \<open>The calls\<close>

definition set_initial_state ::
    "hvc_host \<Rightarrow> bool \<Rightarrow> hvc_state \<Rightarrow> bytes \<Rightarrow> ARMCPU \<Rightarrow> hvc_state \<times> bytes \<times> ARMCPU" where
  "set_initial_state h is_first hs ram cpu =
     (if is_first then (keys_save hs cpu, fix_dt_timebase (guest_counter_hz h cpu) ram, cpu)
      else if boot_valid hs then (hs, ram, keys_install hs cpu)
      else (hs, ram, cpu))"

definition vmapple_hvc ::
    "hvc_host \<Rightarrow> bool \<Rightarrow> hvc_state \<Rightarrow> bytes \<Rightarrow> ARMCPU \<Rightarrow> bool \<times> hvc_state \<times> bytes \<times> ARMCPU" where
  "vmapple_hvc h is_first hs ram cpu =
     (let fid = ucast (cpu_xregs cpu ! 0) :: u32 in
      if fid - VMAPPLE_CPU_SERVICE_BASE \<ge> VMAPPLE_CPU_SERVICE_COUNT then (False, hs, ram, cpu)
      else let (hs1, ram1, cpu1) =
             (if fid AND 0xffff = 0 then set_initial_state h is_first hs ram cpu
              else if fid AND 0xffff = 1 then
                (hs, ram, cpu\<lparr>cpu_xregs := (cpu_xregs cpu)[2 := fst (default_pids hs), 3 := snd (default_pids hs)]\<rparr>)
              else (hs, ram, cpu))
           in (True, hs1, ram1, cpu1\<lparr>cpu_xregs := (cpu_xregs cpu1)[0 := 0]\<rparr>))"

text \<open>
  Reset draws pid pairs until both are non-zero.  \<open>rand\<close> gives the pairs in the
  order they are drawn; \<open>None\<close> means that the loop does not end.
\<close>

partial_function (option) draw_pids :: "(nat \<Rightarrow> u64 \<times> u64) \<Rightarrow> nat \<Rightarrow> (u64 \<times> u64) option" where
  "draw_pids rand n =
     (if fst (rand n) = 0 \<or> snd (rand n) = 0 then draw_pids rand (n + 1) else Some (rand n))"

definition vmapple_hvc_reset :: "(nat \<Rightarrow> u64 \<times> u64) \<Rightarrow> hvc_state \<Rightarrow> hvc_state option" where
  "vmapple_hvc_reset rand hs =
     map_option (\<lambda>p. hs\<lparr>boot_valid := False, default_pids := p\<rparr>) (draw_pids rand 0)"

text \<open>The hook: a call is offered to the registered handler, if there is one.\<close>

definition arm_smccc_dispatch :: "(nat \<Rightarrow> 's \<Rightarrow> bool \<times> 's) option \<Rightarrow> nat \<Rightarrow> 's \<Rightarrow> bool \<times> 's" where
  "arm_smccc_dispatch handler cpu st = (case handler of None \<Rightarrow> (False, st) | Some f \<Rightarrow> f cpu st)"

section \<open>The scan rewrites exactly the timebase records\<close>

text \<open>A 24 MHz timebase record at \<open>r\<close> whose name ends by \<open>e\<close>.\<close>

definition timebase_rec :: "bytes \<Rightarrow> nat \<Rightarrow> nat \<Rightarrow> bool" where
  "timebase_rec ram e r \<longleftrightarrow> r + 32 \<le> e \<and> bslice r 32 ram = adt_name \<and>
     le32 (bslice (r + 32) 4 ram) AND 0x7fffffff = 8 \<and> le64 (bslice (r + 36) 8 ram) = APPLE_TIMEBASE_HZ"

lemma nth_bslice: "i < n \<Longrightarrow> off + n \<le> length xs \<Longrightarrow> bslice off n xs ! i = xs ! (off + i)"
  by (simp add: bslice_def)

lemma adt_name_t: "i < 32 \<Longrightarrow> adt_name ! i = 0x74 \<longleftrightarrow> i = 0"
proof (cases i)
  case 0
  then show ?thesis by (simp add: adt_name_def)
next
  case (Suc j)
  assume "i < 32"
  have l: "length adt_name = 32" by (simp add: adt_name_def)
  have "tl adt_name ! j \<in> set (tl adt_name)" using Suc \<open>i < 32\<close> l by (intro nth_mem) simp
  then have "adt_name ! i \<in> set (tl adt_name)" using Suc \<open>i < 32\<close> l by (simp add: nth_tl)
  moreover have "0x74 \<notin> set (tl adt_name)" by (simp add: adt_name_def)
  ultimately show ?thesis using Suc by auto
qed

lemma adt_name_nonzero: "i < 8 \<Longrightarrow> adt_name ! i \<noteq> 0"
proof -
  assume "i < 8"
  then have "i \<in> {0, 1, 2, 3, 4, 5, 6, 7}" by auto
  then show ?thesis by (auto simp: adt_name_def)
qed

lemma match_byte:
  assumes "bslice r 32 ram = adt_name" and "r + 32 \<le> length ram" and "i < 32"
  shows "ram ! (r + i) = 0x74 \<longleftrightarrow> i = 0"
  using nth_bslice [of i 32 r ram] adt_name_t [OF assms(3)] assms by simp

lemma length_word_cases: "(len :: u32) AND 0x7fffffff = 8 \<Longrightarrow> len = 8 \<or> len = 0x80000008"
proof -
  assume a: "len AND 0x7fffffff = 8"
  have "len AND 0x7fffffff = take_bit 31 len" by (simp add: take_bit_eq_mask mask_eq_exp_minus_1)
  with a have "unat (take_bit 31 len) = unat (8 :: u32)" by simp
  then have "take_bit 31 (unat len) = 8" by (simp only: unsigned_take_bit_eq) simp
  then have "unat len mod 2147483648 = 8" by (simp add: take_bit_eq_mod)
  then have eq: "unat len = unat len div 2147483648 * 2147483648 + 8"
    using div_mult_mod_eq [of "unat len" 2147483648] by simp
  moreover have "unat len < 4294967296" by (rule unat_bounds)
  ultimately have "unat len div 2147483648 = 0 \<or> unat len div 2147483648 = 1" by linarith
  then have "unat len = 8 \<or> unat len = 0x80000008" using eq by (elim disjE) simp_all
  then show ?thesis by (auto simp: word_unat_eq_iff)
qed

text \<open>No byte of a record after the first is the letter its name starts with.\<close>

lemma timebase_rec_byte:
  assumes r: "timebase_rec ram e r" and e: "e + 12 \<le> length ram" and i: "0 < i" "i < 44"
  shows "ram ! (r + i) \<noteq> 0x74"
proof -
  have b: "r + 44 \<le> length ram" using r e by (simp add: timebase_rec_def)
  consider "i < 32" | "32 \<le> i" "i < 36" | "36 \<le> i" by linarith
  then show ?thesis
  proof cases
    case 1
    then show ?thesis using match_byte [of r ram i] r i(1) b by (simp add: timebase_rec_def)
  next
    case 2
    have "bslice (r + 32) 4 ram \<in> {to_le32 8, to_le32 0x80000008}"
      using length_word_cases [of "le32 (bslice (r + 32) 4 ram)"] to_le_le(2) [of "bslice (r + 32) 4 ram"] r b
      by (auto simp: timebase_rec_def)
    moreover have "0x74 \<notin> set (to_le32 8)" "0x74 \<notin> set (to_le32 0x80000008)"
      by (simp_all add: to_le32_def nat_le_numeral)
    ultimately have "0x74 \<notin> set (bslice (r + 32) 4 ram)" by auto
    moreover have "i - 32 < 4" using 2 by linarith
    ultimately show ?thesis using nth_bslice [of "i - 32" 4 "r + 32" ram] 2 b nth_mem [of "i - 32" "bslice (r + 32) 4 ram"]
      by auto
  next
    case 3
    have "bslice (r + 36) 8 ram = to_le64 APPLE_TIMEBASE_HZ"
      using to_le_le(3) [of "bslice (r + 36) 8 ram"] r b by (simp add: timebase_rec_def)
    moreover have "0x74 \<notin> set (to_le64 APPLE_TIMEBASE_HZ)" by (simp add: to_le64_def nat_le_numeral)
    ultimately have "0x74 \<notin> set (bslice (r + 36) 8 ram)" by simp
    moreover have "i - 36 < 8" using i(2) by linarith
    ultimately show ?thesis using nth_bslice [of "i - 36" 8 "r + 36" ram] 3 b i nth_mem [of "i - 36" "bslice (r + 36) 8 ram"]
      by auto
  qed
qed

lemma timebase_rec_apart:
  assumes "timebase_rec ram e p" "e + 12 \<le> length ram" "p < q" "bslice q 32 ram = adt_name" "q + 32 \<le> length ram"
  shows "p + 44 \<le> q"
proof (rule ccontr)
  assume "\<not> p + 44 \<le> q"
  then have "ram ! q \<noteq> 0x74" using timebase_rec_byte [OF assms(1,2), of "q - p"] assms(3) by simp
  then show False using match_byte [OF assms(4,5), of 0] by simp
qed

text \<open>
  Rewriting one record neither makes nor destroys a match behind it, as long as
  the top byte of the new value is zero.
\<close>

lemma timebase_rec_patch:
  assumes p: "timebase_rec ram e p" and e: "e + 12 \<le> length ram" and q: "p < q" "q + 32 \<le> e"
    and hz: "to_le64 hz ! 7 = 0"
  shows "timebase_rec (bsplice (p + 36) (to_le64 hz) ram) e q = timebase_rec ram e q"
proof (cases "p + 44 \<le> q")
  case True
  have "bslice k n (bsplice (p + 36) (to_le64 hz) ram) = bslice k n ram" if "q \<le> k" "k + n \<le> length ram" for k n
    using that True by (intro bslice_bsplice_after) simp_all
  then show ?thesis using q e by (simp add: timebase_rec_def)
next
  case False
  let ?ram = "bsplice (p + 36) (to_le64 hz) ram"
  have b: "p + 44 \<le> length ram" using p e by (simp add: timebase_rec_def)
  have "bslice q 32 ?ram \<noteq> adt_name"
  proof (cases "q < p + 36")
    case True
    then have "?ram ! q \<noteq> 0x74" using timebase_rec_byte [OF p e, of "q - p"] q b by (simp add: nth_bsplice)
    then show ?thesis using match_byte [of q ?ram 0] q e b by (auto simp: layout_simps)
  next
    case F: False
    then have "?ram ! (q + (p + 43 - q)) = 0" using False b hz by (simp add: nth_bsplice)
    moreover have "p + 43 - q < 8" using F by linarith
    then have "adt_name ! (p + 43 - q) \<noteq> 0" by (rule adt_name_nonzero)
    ultimately show ?thesis using nth_bslice [of "p + 43 - q" 32 q ?ram] q e b \<open>p + 43 - q < 8\<close> by auto
  qed
  moreover have "bslice q 32 ram \<noteq> adt_name" using timebase_rec_apart [OF p e q(1)] False q e by auto
  ultimately show ?thesis by (simp add: timebase_rec_def)
qed

text \<open>The reference: every record found in the original RAM gets the new value.\<close>

definition timebase_spec :: "bytes \<Rightarrow> u64 \<Rightarrow> nat \<Rightarrow> nat \<Rightarrow> bytes \<Rightarrow> bool" where
  "timebase_spec ram hz i e ram' \<longleftrightarrow> length ram' = length ram \<and>
     (\<forall>r. i \<le> r \<longrightarrow> timebase_rec ram e r \<longrightarrow> bslice (r + 36) 8 ram' = to_le64 hz) \<and>
     (\<forall>j<length ram. (\<forall>r. i \<le> r \<longrightarrow> timebase_rec ram e r \<longrightarrow> \<not> (r + 36 \<le> j \<and> j < r + 44)) \<longrightarrow> ram' ! j = ram ! j)"

lemma timebase_spec_start:
  assumes "timebase_spec ram hz p e ram'" and "i \<le> p" and "\<And>r. i \<le> r \<Longrightarrow> timebase_rec ram e r \<Longrightarrow> p \<le> r"
  shows "timebase_spec ram hz i e ram'"
proof -
  have "(i \<le> r \<and> timebase_rec ram e r) = (p \<le> r \<and> timebase_rec ram e r)" for r
    using assms(2,3) by auto
  then show ?thesis using assms(1) unfolding timebase_spec_def imp_conjL [symmetric] by simp
qed

lemma timebase_rec_first:
  assumes "memmem_name ram i e = Some p"
  shows "i \<le> p" and "i \<le> r \<Longrightarrow> timebase_rec ram e r \<Longrightarrow> p \<le> r"
  using memmem_name_Some [OF assms] by (auto simp: timebase_rec_def not_le [symmetric])

lemma timebase_spec_skip:
  assumes m: "memmem_name ram i e = Some p" and n: "\<not> timebase_rec ram e p" and s: "timebase_spec ram hz (p + 1) e ram'"
  shows "timebase_spec ram hz i e ram'"
proof (rule timebase_spec_start [OF s])
  show "i \<le> p + 1" using timebase_rec_first(1) [OF m] by simp
  fix r assume "i \<le> r" "timebase_rec ram e r"
  then have "p \<le> r" "p \<noteq> r" using timebase_rec_first(2) [OF m] n by auto
  then show "p + 1 \<le> r" by simp
qed

lemma timebase_spec_patch:
  assumes m: "memmem_name ram i e = Some p" and p: "timebase_rec ram e p" and e: "e + 12 \<le> length ram"
    and hz: "to_le64 hz ! 7 = 0" and s: "timebase_spec (bsplice (p + 36) (to_le64 hz) ram) hz (p + 1) e ram'"
  shows "timebase_spec ram hz i e ram'"
proof -
  let ?ram1 = "bsplice (p + 36) (to_le64 hz) ram"
  have b: "p + 44 \<le> length ram" using p e by (simp add: timebase_rec_def)
  have len: "length ?ram1 = length ram" "length ram' = length ram" using s b by (simp_all add: timebase_spec_def)
  have later: "timebase_rec ?ram1 e r = timebase_rec ram e r" if "p < r" for r
  proof (cases "r + 32 \<le> e")
    case True
    with timebase_rec_patch [OF p e that _ hz] show ?thesis by blast
  qed (simp add: timebase_rec_def)
  have apart: "p + 44 \<le> r" if "p < r" "timebase_rec ram e r" for r
    using timebase_rec_apart [OF p e that(1)] that(2) e by (simp add: timebase_rec_def)
  have keep: "ram' ! j = ?ram1 ! j" if "j < length ram" "\<And>r. p < r \<Longrightarrow> timebase_rec ram e r \<Longrightarrow> \<not> (r + 36 \<le> j \<and> j < r + 44)" for j
    using s that later len unfolding timebase_spec_def by (metis Suc_eq_plus1 Suc_le_eq)
  have "bslice (r + 36) 8 ram' = to_le64 hz" if r: "i \<le> r" "timebase_rec ram e r" for r
  proof (cases "r = p")
    case True
    have "bslice (p + 36) 8 ram' = bslice (p + 36) 8 ?ram1"
    proof (rule nth_equalityI)
      fix j assume "j < length (bslice (p + 36) 8 ram')"
      then have "j < 8" by simp
      then show "bslice (p + 36) 8 ram' ! j = bslice (p + 36) 8 ?ram1 ! j"
        using keep [of "p + 36 + j"] apart b len by (fastforce simp: nth_bslice)
    qed (use b len in simp)
    then show ?thesis using True b bslice_bsplice_same [of "p + 36" "to_le64 hz" ram] by simp
  next
    case False
    then have "p < r" using timebase_rec_first(2) [OF m r] by simp
    then show ?thesis using s later r(2) unfolding timebase_spec_def by (metis Suc_eq_plus1 Suc_le_eq)
  qed
  moreover have "ram' ! j = ram ! j"
    if j: "j < length ram" "\<And>r. i \<le> r \<Longrightarrow> timebase_rec ram e r \<Longrightarrow> \<not> (r + 36 \<le> j \<and> j < r + 44)" for j
  proof -
    have ip: "i \<le> p" by (rule timebase_rec_first(1) [OF m])
    then have "ram' ! j = ?ram1 ! j" using keep j by (meson less_imp_le order_trans)
    also have "\<dots> = ram ! j" using j(1) j(2) [OF ip p] b by (auto simp: nth_bsplice)
    finally show ?thesis .
  qed
  ultimately show ?thesis using len unfolding timebase_spec_def by blast
qed

lemma timebase_scan_spec:
  assumes "e + 12 \<le> length ram" and hz: "to_le64 hz ! 7 = 0"
  shows "timebase_spec ram hz i e (fst (timebase_scan ram hz i e k))"
  using assms
proof (induction ram hz i e k rule: timebase_scan.induct)
  case (1 ram hz i e k)
  show ?case
  proof (cases "memmem_name ram i e")
    case None
    then show ?thesis using memmem_name_None [OF None]
      by (auto simp: timebase_spec_def timebase_rec_def timebase_scan.simps [of ram hz i e k])
  next
    case (Some p)
    have p: "p + 32 \<le> e" "bslice p 32 ram = adt_name" using memmem_name_Some [OF Some] by simp_all
    obtain ok ram1 where t: "patch_timebase_record ram p hz = (ok, ram1)" by fastforce
    have step: "fst (timebase_scan ram hz i e k) = fst (timebase_scan ram1 hz (p + 1) e (k + (if ok then 1 else 0)))"
      by (simp add: timebase_scan.simps [of ram hz i e k] Some t)
    show ?thesis
    proof (cases "timebase_rec ram e p")
      case True
      then have r: "ram1 = bsplice (p + 36) (to_le64 hz) ram" "ok" using t p
        by (auto simp: patch_timebase_record_def timebase_rec_def Let_def split: if_splits)
      then have "e + 12 \<le> length ram1" using "1.prems" p by simp
      from "1.IH" [OF Some t [symmetric] refl this "1.prems"(2)] show ?thesis
        unfolding step r(1) by (rule timebase_spec_patch [OF Some True "1.prems"])
    next
      case False
      then have r: "ram1 = ram" using t p
        by (auto simp: patch_timebase_record_def timebase_rec_def Let_def split: if_splits)
      then have "e + 12 \<le> length ram1" using "1.prems" by simp
      from "1.IH" [OF Some t [symmetric] refl this "1.prems"(2)] show ?thesis
        unfolding step r by (rule timebase_spec_skip [OF Some False])
    qed
  qed
qed

lemma to_le64_top:
  assumes "unat hz < 2 ^ 56"
  shows "to_le64 hz ! 7 = 0"
proof -
  have "unat hz div 256 ^ 7 = 0" using assms by (simp add: div_eq_0_iff)
  then show ?thesis by (simp add: to_le64_def nat_le_numeral div_mult2_eq [symmetric])
qed

text \<open>
  C8 (\<^verbatim>\<open>fix_dt_timebase\<close>).  For a counter rate below \<open>2 ^ 56\<close> Hz other than
  24 MHz, the loop over \<^verbatim>\<open>memmem\<close> matches, which edits RAM while it searches it,
  has the effect of the reference: every record of the original RAM that has the
  name, the length 8 and the value 24000000, and whose name ends 44 bytes before
  the end of the searched range, gets the new value, and no other byte changes.
\<close>

theorem fix_dt_timebase_exact:
  assumes "44 \<le> length ram" and "hz \<noteq> APPLE_TIMEBASE_HZ" and "unat hz < 2 ^ 56"
  shows "timebase_spec ram hz 0 (min (length ram) (2 * 1024 * 1024 * 1024) - 44) (fix_dt_timebase hz ram)"
proof -
  have "min (length ram) (2 * 1024 * 1024 * 1024) - 44 + 12 \<le> length ram" using assms(1) by simp
  from timebase_scan_spec [OF this to_le64_top [OF assms(3)]] show ?thesis
    using assms(2) by (simp add: fix_dt_timebase_def)
qed

definition sample_tree :: bytes where
  "sample_tree = [1, 2] @ adt_name @ to_le32 0x80000008 @ to_le64 24000000 @ replicate 80 0"

theorem fix_dt_timebase_exact_witness:
  "bslice 38 8 (fix_dt_timebase 1000000000 sample_tree) = to_le64 1000000000"
proof -
  have t: "timebase_rec sample_tree (min (length sample_tree) (2 * 1024 * 1024 * 1024) - 44) 2"
    by (simp add: sample_tree_def timebase_rec_def bslice_def to_le32_def to_le64_def adt_name_def nat_le_numeral
        le32_def le64_def)
  have "44 \<le> length sample_tree" by (simp add: sample_tree_def adt_name_def)
  from fix_dt_timebase_exact [OF this, of 1000000000]
  have "timebase_spec sample_tree 1000000000 0 (min (length sample_tree) (2 * 1024 * 1024 * 1024) - 44)
    (fix_dt_timebase 1000000000 sample_tree)" by simp
  then have "bslice (2 + 36) 8 (fix_dt_timebase 1000000000 sample_tree) = to_le64 1000000000"
    using t unfolding timebase_spec_def by blast
  then show ?thesis by simp
qed

section \<open>The calls and the reset\<close>

lemma prod_cases4_eq: "p = (fst p, fst (snd p), fst (snd (snd p)), snd (snd (snd p)))"
  by simp

lemma service_range:
  "(fid :: u32) - VMAPPLE_CPU_SERVICE_BASE \<ge> VMAPPLE_CPU_SERVICE_COUNT \<longleftrightarrow>
    unat fid \<notin> {0xc1000000..<0xc1010000}"
proof -
  have "unat fid < 4294967296" by (rule unat_bounds)
  then show ?thesis by (auto simp: word_le_nat_alt unat_sub_if' )
qed

text \<open>
  C33 (\<^verbatim>\<open>vmapple_hvc\<close>).  Exactly the function ids from \<^verbatim>\<open>0xc1000000\<close> to
  \<^verbatim>\<open>0xc100ffff\<close> are claimed, on the low 32 bits of x0.  An unclaimed call changes
  nothing.  A claimed call returns 0 in x0 and keeps x1 and every register from
  x4 on; unless it is SET_INITIAL_STATE it keeps RAM, the CPU's keys and the
  saved keys, so the per-process key requests succeed without effect.
\<close>

theorem vmapple_hvc_every_call:
  assumes "vmapple_hvc h is_first hs ram cpu = (claimed, hs', ram', cpu')" and "length (cpu_xregs cpu) = 32"
  shows "(claimed \<longleftrightarrow> unat (ucast (cpu_xregs cpu ! 0) :: u32) \<in> {0xc1000000..<0xc1010000}) \<and>
    (\<not> claimed \<longrightarrow> hs' = hs \<and> ram' = ram \<and> cpu' = cpu) \<and>
    (claimed \<longrightarrow> cpu_xregs cpu' ! 0 = 0 \<and> (\<forall>i<32. i \<notin> {0, 2, 3} \<longrightarrow> cpu_xregs cpu' ! i = cpu_xregs cpu ! i) \<and>
      (ucast (cpu_xregs cpu ! 0) AND 0xffff \<noteq> (0 :: u32) \<longrightarrow> hs' = hs \<and> ram' = ram \<and> cpu_keys cpu' = cpu_keys cpu))"
  using assms
  by (simp add: vmapple_hvc_def service_range set_initial_state_def keys_install_def Let_def split: if_splits)
     auto

definition sample_hvc :: hvc_state where
  "sample_hvc = \<lparr>boot_valid = False, boot_keys = no_keys, default_pids = (7, 9)\<rparr>"

theorem vmapple_hvc_every_call_witness:
  "cpu_xregs (snd (snd (snd (vmapple_hvc \<lparr>host_is_aarch64 = True, tcg_enabled = True, host_cntfrq = 0\<rparr> True sample_hvc []
    ((sample_cpu 0 False)\<lparr>cpu_xregs := 0xc1000001 # replicate 31 1\<rparr>))))) ! 0 = 0"
  using vmapple_hvc_every_call [where h = "\<lparr>host_is_aarch64 = True, tcg_enabled = True, host_cntfrq = 0\<rparr>" and
    is_first = True and hs = sample_hvc and ram = "[]" and
    cpu = "(sample_cpu 0 False)\<lparr>cpu_xregs := 0xc1000001 # replicate 31 1\<rparr>", OF prod_cases4_eq] by simp

lemma draw_pids_first:
  assumes "fst (rand m) \<noteq> 0" "snd (rand m) \<noteq> 0" and "\<forall>k<m. fst (rand k) = 0 \<or> snd (rand k) = 0"
  shows "k \<le> m \<Longrightarrow> draw_pids rand k = Some (rand m)"
proof (induction "m - k" arbitrary: k)
  case 0
  then show ?case using assms by (subst draw_pids.simps) simp
next
  case (Suc d)
  then have "draw_pids rand (k + 1) = Some (rand m)" by simp
  moreover have "k < m" using Suc.hyps by simp
  ultimately show ?case using assms(3) by (subst draw_pids.simps) simp
qed

text \<open>
  C34 (\<^verbatim>\<open>vmapple_hvc_reset\<close>).  If the random source ever gives a pair without a
  zero, reset ends: it installs the first such pair and forgets the boot keys.
\<close>

theorem vmapple_hvc_reset_ends:
  assumes "fst (rand n) \<noteq> 0" and "snd (rand n) \<noteq> 0"
  shows "\<exists>m\<le>n. (\<forall>k<m. fst (rand k) = 0 \<or> snd (rand k) = 0) \<and> fst (rand m) \<noteq> 0 \<and> snd (rand m) \<noteq> 0 \<and>
    vmapple_hvc_reset rand hs = Some (hs\<lparr>boot_valid := False, default_pids := rand m\<rparr>)"
proof -
  let ?P = "\<lambda>k. fst (rand k) \<noteq> 0 \<and> snd (rand k) \<noteq> 0"
  define m where "m = (LEAST k. ?P k)"
  have m: "?P m" and le: "m \<le> n" and first: "\<forall>k<m. fst (rand k) = 0 \<or> snd (rand k) = 0"
    unfolding m_def using LeastI [of ?P n] Least_le [of ?P n] not_less_Least [of _ ?P] assms by blast+
  have "draw_pids rand 0 = Some (rand m)" using m first by (intro draw_pids_first) auto
  with m le first show ?thesis by (auto simp: vmapple_hvc_reset_def intro!: exI [of _ m])
qed

theorem vmapple_hvc_reset_ends_witness:
  "vmapple_hvc_reset (\<lambda>k. if k = 0 then (0, 5) else (3, 4)) sample_hvc = Some (sample_hvc\<lparr>default_pids := (3, 4)\<rparr>)"
  using vmapple_hvc_reset_ends [of "\<lambda>k. if k = 0 then (0, 5) else (3, 4)" 1 sample_hvc]
  by (auto simp: sample_hvc_def split: if_splits)

end
