(* ===== verification/Psci.thy ===== *)
theory Psci
  imports Powerctl Hvc
begin

text \<open>
  The firmware calls of a guest CPU, \<^verbatim>\<open>target/arm/tcg/psci.c\<close>: which exceptions are
  calls, the offer to the board's vendor handler, and the PSCI functions.  The
  state is the machine as the calls see it: the CPUs, the state of the vendor
  calls with guest RAM, and the pending reset and shutdown requests.

  The last sections let CPUs make arbitrary calls while queued work items run,
  show that no assertion fails in any such history, that PSCI_FEATURES tells the
  truth, and that every secondary CPU ends up with the keys of the boot CPU.
\<close>

section \<open>State\<close>

record psci_sys =
  sys_cpus :: "ARMCPU list"
  sys_hvc :: hvc_state
  sys_ram :: bytes
  sys_reset_request :: bool
  sys_shutdown_request :: bool

text \<open>
  What a wait-for-interrupt looks at: whether the CPU has work, and the level and
  exception number of a configured trap (level 0: no trap).
\<close>

record wfi_env =
  wfi_has_work :: "ARMCPU \<Rightarrow> bool"
  wfi_trap :: "ARMCPU \<Rightarrow> nat \<times> int"

text \<open>
  A call returns to the guest, leaves the CPU loop (the CPU halts or takes an
  exception), or fails an assertion.
\<close>

datatype call_result = Call_return psci_sys | Call_exit psci_sys | Call_abort

datatype excp_type = EXCP_HVC | EXCP_SMC | EXCP_OTHER

definition arm_is_psci_call :: "ARMCPU \<Rightarrow> excp_type \<Rightarrow> bool" where
  "arm_is_psci_call cpu excp_type =
     (case excp_type of
        EXCP_HVC \<Rightarrow> cpu_psci_conduit cpu = CONDUIT_HVC
      | EXCP_SMC \<Rightarrow> cpu_psci_conduit cpu = CONDUIT_SMC
      | EXCP_OTHER \<Rightarrow> False)"

definition set_cpu :: "psci_sys \<Rightarrow> nat \<Rightarrow> ARMCPU \<Rightarrow> psci_sys" where
  "set_cpu s i c = s\<lparr>sys_cpus := (sys_cpus s)[i := c]\<rparr>"

definition helper_wfi :: "wfi_env \<Rightarrow> ARMCPU \<Rightarrow> nat \<Rightarrow> ARMCPU option \<times> ARMCPU" where
  "helper_wfi env cpu insn_len =
     (if wfi_has_work env cpu then (Some cpu, cpu)
      else if fst (wfi_trap env cpu) \<noteq> 0 then
        (None, (if cpu_aarch64 cpu then cpu\<lparr>cpu_pc := cpu_pc cpu - of_nat insn_len\<rparr>
                else cpu\<lparr>cpu_regs := (cpu_regs cpu)[15 := cpu_regs cpu ! 15 - of_nat insn_len]\<rparr>)
               \<lparr>cpu_exception_index := snd (wfi_trap env cpu)\<rparr>)
      else (None, cpu\<lparr>cpu_halt_reason := HALT_WFI, cpu_exception_index := EXCP_HLT, cpu_halted := True\<rparr>))"

section \<open>The calls\<close>

abbreviation (input) PSCI_0_1_FN :: "u64 \<Rightarrow> u64" where "PSCI_0_1_FN n \<equiv> 0x95c1ba5e + n"
abbreviation (input) PSCI_0_2_FN :: "u64 \<Rightarrow> u64" where "PSCI_0_2_FN n \<equiv> 0x84000000 + n"
abbreviation (input) PSCI_0_2_FN64 :: "u64 \<Rightarrow> u64" where "PSCI_0_2_FN64 n \<equiv> 0xc4000000 + n"
abbreviation (input) PSCI_RET_NOT_SUPPORTED :: int where "PSCI_RET_NOT_SUPPORTED \<equiv> - 1"
abbreviation (input) PSCI_RET_INVALID_PARAMS :: int where "PSCI_RET_INVALID_PARAMS \<equiv> - 2"

definition psci_param :: "ARMCPU \<Rightarrow> nat \<Rightarrow> u64" where
  "psci_param cpu i = (if cpu_aarch64 cpu then cpu_xregs cpu ! i else ucast (cpu_regs cpu ! i))"

definition psci_set_ret :: "ARMCPU \<Rightarrow> int \<Rightarrow> ARMCPU" where
  "psci_set_ret cpu ret =
     (if cpu_aarch64 cpu then cpu\<lparr>cpu_xregs := (cpu_xregs cpu)[0 := word_of_int ret]\<rparr>
      else cpu\<lparr>cpu_regs := (cpu_regs cpu)[0 := word_of_int ret]\<rparr>)"

definition psci_return :: "psci_sys \<Rightarrow> nat \<Rightarrow> int \<Rightarrow> call_result" where
  "psci_return s i ret = Call_return (set_cpu s i (psci_set_ret (sys_cpus s ! i) ret))"

definition psci_affinity_info :: "psci_sys \<Rightarrow> u64 \<Rightarrow> u64 \<Rightarrow> int" where
  "psci_affinity_info s mpidr level =
     (if level = 0 then
        (case arm_get_cpu_by_id (sys_cpus s) mpidr of
           None \<Rightarrow> PSCI_RET_INVALID_PARAMS
         | Some t \<Rightarrow> psci_state_num (cpu_power_state (sys_cpus s ! t)))
      else 0)"

definition psci_cpu_off :: "psci_sys \<Rightarrow> nat \<Rightarrow> call_result" where
  "psci_cpu_off s i =
     (case arm_set_cpu_off (sys_cpus s) (cpu_mp_affinity (sys_cpus s ! i)) of
        (ret, cpus) \<Rightarrow> if ret = POWERCTL_RET_SUCCESS then Call_return (s\<lparr>sys_cpus := cpus\<rparr>) else Call_abort)"

definition psci_cpu_on :: "psci_sys \<Rightarrow> nat \<Rightarrow> u64 \<Rightarrow> u64 \<Rightarrow> u64 \<Rightarrow> call_result" where
  "psci_cpu_on s i mpidr entry context_id =
     (let target_el = (if feat_el2 (sys_cpus s ! i) then 2 else 1) in
      case arm_set_cpu_on (sys_cpus s) mpidr entry context_id target_el (arm_el_is_aa64 (sys_cpus s ! i) target_el) of
        None \<Rightarrow> Call_abort
      | Some (ret, cpus) \<Rightarrow> psci_return (s\<lparr>sys_cpus := cpus\<rparr>) i ret)"

definition psci_cpu_suspend :: "wfi_env \<Rightarrow> psci_sys \<Rightarrow> nat \<Rightarrow> u64 \<Rightarrow> call_result" where
  "psci_cpu_suspend env s i power_state =
     (if power_state AND 0xfffe0000 \<noteq> 0 then psci_return s i PSCI_RET_INVALID_PARAMS
      else case helper_wfi env (psci_set_ret (sys_cpus s ! i) 0) 4 of
        (Some c, _) \<Rightarrow> psci_return (set_cpu s i c) i 0
      | (None, c) \<Rightarrow> Call_exit (set_cpu s i c))"

definition psci_features :: "bool \<Rightarrow> u64 \<Rightarrow> int" where
  "psci_features a64 f =
     (if f \<in> {PSCI_0_2_FN 0, PSCI_0_2_FN 6, PSCI_0_2_FN 4, PSCI_0_2_FN64 4, PSCI_0_2_FN 9, PSCI_0_2_FN 8,
              PSCI_0_1_FN 2, PSCI_0_2_FN 3, PSCI_0_2_FN64 3, PSCI_0_1_FN 1, PSCI_0_2_FN 2,
              PSCI_0_1_FN 0, PSCI_0_2_FN 1, PSCI_0_2_FN64 1, PSCI_0_2_FN 10} \<and>
         (f AND 0x40000000 = 0 \<or> a64) then 0
      else PSCI_RET_NOT_SUPPORTED)"

definition psci_dispatch :: "wfi_env \<Rightarrow> nat \<Rightarrow> (nat \<Rightarrow> u64) \<Rightarrow> psci_sys \<Rightarrow> call_result" where
  "psci_dispatch env i p s =
     (let cpu = sys_cpus s ! i; f = p 0 in
      if f AND 0x40000000 \<noteq> 0 \<and> \<not> cpu_aarch64 cpu then psci_return s i PSCI_RET_NOT_SUPPORTED
      else if f = PSCI_0_2_FN 0 then psci_return s i 0x10001
      else if f = PSCI_0_2_FN 6 then psci_return s i 2
      else if f = PSCI_0_2_FN 4 \<or> f = PSCI_0_2_FN64 4 then psci_return s i (psci_affinity_info s (p 1) (p 2))
      else if f = PSCI_0_2_FN 9 then psci_cpu_off (s\<lparr>sys_reset_request := True\<rparr>) i
      else if f = PSCI_0_2_FN 8 then psci_cpu_off (s\<lparr>sys_shutdown_request := True\<rparr>) i
      else if f = PSCI_0_1_FN 2 \<or> f = PSCI_0_2_FN 3 \<or> f = PSCI_0_2_FN64 3 then psci_cpu_on s i (p 1) (p 2) (p 3)
      else if f = PSCI_0_1_FN 1 \<or> f = PSCI_0_2_FN 2 then psci_cpu_off s i
      else if f = PSCI_0_1_FN 0 \<or> f = PSCI_0_2_FN 1 \<or> f = PSCI_0_2_FN64 1 then psci_cpu_suspend env s i (p 1)
      else if f = PSCI_0_2_FN 10 then psci_return s i (psci_features (cpu_aarch64 cpu) (p 1))
      else psci_return s i PSCI_RET_NOT_SUPPORTED)"

definition arm_handle_psci_call ::
    "wfi_env \<Rightarrow> (nat \<Rightarrow> psci_sys \<Rightarrow> bool \<times> psci_sys) option \<Rightarrow> nat \<Rightarrow> psci_sys \<Rightarrow> call_result" where
  "arm_handle_psci_call env handler i s =
     (if cpu_aarch64 (sys_cpus s ! i) \<and> fst (arm_smccc_dispatch handler i s)
      then Call_return (snd (arm_smccc_dispatch handler i s))
      else psci_dispatch env i (psci_param (sys_cpus s ! i))
        (if cpu_aarch64 (sys_cpus s ! i) then snd (arm_smccc_dispatch handler i s) else s))"

text \<open>The handler the machine installs, on the whole state; CPU 0 is the first CPU.\<close>

definition vmapple_handler :: "hvc_host \<Rightarrow> nat \<Rightarrow> psci_sys \<Rightarrow> bool \<times> psci_sys" where
  "vmapple_handler h i s =
     (case vmapple_hvc h (i = 0) (sys_hvc s) (sys_ram s) (sys_cpus s ! i) of
        (claimed, hs, ram, c) \<Rightarrow> (claimed, (set_cpu s i c)\<lparr>sys_hvc := hs, sys_ram := ram\<rparr>))"

definition vmapple_hvc_init :: "hvc_host \<Rightarrow> (nat \<Rightarrow> psci_sys \<Rightarrow> bool \<times> psci_sys) option" where
  "vmapple_hvc_init h = Some (vmapple_handler h)"

section \<open>Histories\<close>

text \<open>
  A running CPU puts any values into its registers and executes HVC, or a CPU
  runs the oldest item of its work queue.
\<close>

datatype sys_event = Guest_hvc nat "u64 list" | Run_work nat

fun sys_do :: "wfi_env \<Rightarrow> hvc_host \<Rightarrow> sys_event \<Rightarrow> psci_sys \<Rightarrow> psci_sys option" where
  "sys_do env h (Guest_hvc i xs) s =
     (let s1 = set_cpu s i ((sys_cpus s ! i)\<lparr>cpu_xregs := xs\<rparr>) in
      if \<not> arm_is_psci_call (sys_cpus s ! i) EXCP_HVC then Some s1
      else case arm_handle_psci_call env (vmapple_hvc_init h) i s1 of
        Call_return s2 \<Rightarrow> Some s2 | Call_exit s2 \<Rightarrow> Some s2 | Call_abort \<Rightarrow> None)"
| "sys_do env h (Run_work i) s = map_option (set_cpu s i) (run_work (sys_cpus s ! i))"

text \<open>Only a CPU of the machine that is not off makes calls.\<close>

fun event_ok :: "sys_event \<Rightarrow> psci_sys \<Rightarrow> bool" where
  "event_ok (Guest_hvc i xs) s =
     (i < length (sys_cpus s) \<and> length xs = 32 \<and> cpu_power_state (sys_cpus s ! i) \<noteq> PSCI_OFF)"
| "event_ok (Run_work i) s = (i < length (sys_cpus s))"

text \<open>A history; an event of a CPU that is off does not happen.\<close>

fun sys_run :: "wfi_env \<Rightarrow> hvc_host \<Rightarrow> sys_event list \<Rightarrow> psci_sys \<Rightarrow> psci_sys option" where
  "sys_run env h [] s = Some s"
| "sys_run env h (e # es) s =
     (if event_ok e s then (case sys_do env h e s of None \<Rightarrow> None | Some s' \<Rightarrow> sys_run env h es s')
      else sys_run env h es s)"

section \<open>What a call keeps\<close>

text \<open>No failed assertion, a machine in order, and the saved keys unchanged.\<close>

definition call_keeps :: "psci_sys \<Rightarrow> call_result \<Rightarrow> bool" where
  "call_keeps s r = (case r of
       Call_return s' \<Rightarrow> cpus_ok (sys_cpus s') \<and> length (sys_cpus s') = length (sys_cpus s) \<and> sys_hvc s' = sys_hvc s
     | Call_exit s' \<Rightarrow> cpus_ok (sys_cpus s') \<and> length (sys_cpus s') = length (sys_cpus s) \<and> sys_hvc s' = sys_hvc s
     | Call_abort \<Rightarrow> False)"

lemma set_cpu_simps [simp]:
  "sys_cpus (set_cpu s i c) = (sys_cpus s)[i := c]" "sys_hvc (set_cpu s i c) = sys_hvc s"
  "sys_ram (set_cpu s i c) = sys_ram s"
  by (simp_all add: set_cpu_def)

lemma cpu_ok_cong:
  assumes "cpu_power_state c' = cpu_power_state c" "cpu_halted c' = cpu_halted c" "cpu_halt_reason c' = cpu_halt_reason c"
    "cpu_work_queue c' = cpu_work_queue c" "feat_el2 c' = feat_el2 c" "feat_el3 c' = feat_el3 c"
    "feat_aarch64 c' = feat_aarch64 c"
  shows "cpu_ok c' = cpu_ok c"
  using assms start_ok_cong [OF assms(5-7)] by (simp add: cpu_ok_def)

lemma set_ret_simps [simp]:
  "cpu_ok (psci_set_ret c r) = cpu_ok c" "cpu_mp_affinity (psci_set_ret c r) = cpu_mp_affinity c"
  "cpu_power_state (psci_set_ret c r) = cpu_power_state c"
  by (rule cpu_ok_cong; simp add: psci_set_ret_def) (simp_all add: psci_set_ret_def)

lemma return_keeps:
  assumes "cpus_ok (sys_cpus s)" and "i < length (sys_cpus s)" and "length (sys_cpus s) = length (sys_cpus s0)"
    and "sys_hvc s = sys_hvc s0"
  shows "call_keeps s0 (psci_return s i ret)"
proof -
  have "cpu_ok (sys_cpus s ! i)" using assms(1,2) by (simp add: cpus_ok_def)
  then show ?thesis using assms by (simp add: call_keeps_def psci_return_def cpus_ok_update)
qed

lemma set_cpu_off_self:
  assumes "cpus_ok cpus" "i < length cpus" "cpu_power_state (cpus ! i) \<noteq> PSCI_OFF"
  shows "arm_set_cpu_off cpus (cpu_mp_affinity (cpus ! i)) = (POWERCTL_RET_SUCCESS, async_run_on_cpu cpus i Work_off)"
  using assms arm_get_cpu_by_id_nth [of cpus i] by (simp add: arm_set_cpu_off_def cpus_ok_def)

lemma cpu_off_keeps:
  assumes "cpus_ok (sys_cpus s)" "i < length (sys_cpus s)" "cpu_power_state (sys_cpus s ! i) \<noteq> PSCI_OFF"
    and "length (sys_cpus s) = length (sys_cpus s0)" and "sys_hvc s = sys_hvc s0"
  shows "call_keeps s0 (psci_cpu_off s i)"
  using assms cpus_ok_async [OF assms(1,2), of Work_off]
  by (simp add: call_keeps_def psci_cpu_off_def set_cpu_off_self) (simp add: async_run_on_cpu_def)

lemma set_cpu_on_length: "arm_set_cpu_on cpus a e x el aa = Some (r, cpus') \<Longrightarrow> length cpus' = length cpus"
  by (auto simp: arm_set_cpu_on_def Let_def async_run_on_cpu_def split: if_split_asm option.split_asm)

lemma set_cpu_on_some: "0 < el \<Longrightarrow> el < 4 \<Longrightarrow> arm_set_cpu_on cpus a e x el aa \<noteq> None"
  unfolding arm_set_cpu_on_def Let_def by (cases "arm_get_cpu_by_id cpus a") simp_all

lemma cpu_on_keeps:
  assumes "cpus_ok (sys_cpus s)" "i < length (sys_cpus s)"
  shows "call_keeps s (psci_cpu_on s i mpidr entry ctx)"
proof -
  let ?el = "if feat_el2 (sys_cpus s ! i) then 2 else 1 :: nat"
  have "0 < ?el" "?el < 4" by simp_all
  then obtain rc where "arm_set_cpu_on (sys_cpus s) mpidr entry ctx ?el (arm_el_is_aa64 (sys_cpus s ! i) ?el) = Some rc"
    using set_cpu_on_some by blast
  then obtain r cpus where e: "arm_set_cpu_on (sys_cpus s) mpidr entry ctx ?el (arm_el_is_aa64 (sys_cpus s ! i) ?el) = Some (r, cpus)"
    by (cases rc) simp
  show ?thesis using return_keeps [of "s\<lparr>sys_cpus := cpus\<rparr>" i s r] set_cpu_on_length [OF e] set_cpu_on_ok [OF assms(1) e] assms(2)
    by (simp add: psci_cpu_on_def Let_def e)
qed

lemma wfi_ok:
  assumes "cpu_ok c" "cpu_power_state c \<noteq> PSCI_OFF"
  shows "cpu_ok (snd (helper_wfi env c n))" "cpu_mp_affinity (snd (helper_wfi env c n)) = cpu_mp_affinity c"
    "fst (helper_wfi env c n) = Some c' \<Longrightarrow> c' = c"
proof -
  have "cpu_ok (c\<lparr>cpu_halt_reason := HALT_WFI, cpu_exception_index := e, cpu_halted := True\<rparr>)" for e
    using assms start_ok_cong [of "c\<lparr>cpu_halt_reason := HALT_WFI, cpu_exception_index := e, cpu_halted := True\<rparr>" c]
    by (simp add: cpu_ok_def)
  moreover have "cpu_ok (c\<lparr>cpu_pc := p, cpu_exception_index := e\<rparr>)" "cpu_ok (c\<lparr>cpu_regs := rs, cpu_exception_index := e\<rparr>)"
    for p e rs using assms(1) cpu_ok_cong [of "c\<lparr>cpu_pc := p, cpu_exception_index := e\<rparr>" c]
      cpu_ok_cong [of "c\<lparr>cpu_regs := rs, cpu_exception_index := e\<rparr>" c] by simp_all
  ultimately show "cpu_ok (snd (helper_wfi env c n))" using assms(1) by (simp add: helper_wfi_def)
qed (simp_all add: helper_wfi_def split: if_split_asm)

lemma cpu_suspend_keeps:
  assumes "cpus_ok (sys_cpus s)" "i < length (sys_cpus s)" "cpu_power_state (sys_cpus s ! i) \<noteq> PSCI_OFF"
  shows "call_keeps s (psci_cpu_suspend env s i p)"
proof -
  let ?c = "psci_set_ret (sys_cpus s ! i) 0"
  have c: "cpu_ok ?c" "cpu_power_state ?c \<noteq> PSCI_OFF" "cpu_mp_affinity ?c = cpu_mp_affinity (sys_cpus s ! i)"
    using assms by (simp_all add: cpus_ok_def)
  have set: "cpus_ok ((sys_cpus s)[i := c'])" if "cpu_ok c'" "cpu_mp_affinity c' = cpu_mp_affinity ?c" for c'
    using assms(1,2) that c(3) by (intro cpus_ok_update) simp_all
  show ?thesis
  proof (cases "p AND 0xfffe0000 = 0")
    case True
    show ?thesis
    proof (cases "helper_wfi env ?c 4")
      case w: (Pair a b)
      show ?thesis
      proof (cases a)
        case None
        then show ?thesis using True w wfi_ok(1,2) [OF c(1,2), of env 4] set [of b]
          by (simp add: psci_cpu_suspend_def call_keeps_def)
      next
        case (Some c')
        then have "c' = ?c" using wfi_ok(3) [OF c(1,2), of env 4 c'] w by simp
        then show ?thesis using True w Some c set [of ?c] assms(2)
          by (simp add: psci_cpu_suspend_def return_keeps)
      qed
    qed
  next
    case False
    then show ?thesis using assms by (simp add: psci_cpu_suspend_def return_keeps)
  qed
qed

lemma dispatch_keeps:
  assumes "cpus_ok (sys_cpus s)" "i < length (sys_cpus s)" "cpu_power_state (sys_cpus s ! i) \<noteq> PSCI_OFF"
  shows "call_keeps s (psci_dispatch env i p s)"
  using assms unfolding psci_dispatch_def Let_def
  by (simp add: return_keeps cpu_off_keeps cpu_on_keeps cpu_suspend_keeps)

lemma vmapple_hvc_cpu:
  "cpu_ok (snd (snd (snd (vmapple_hvc h f hs ram cpu)))) = cpu_ok cpu"
  "cpu_mp_affinity (snd (snd (snd (vmapple_hvc h f hs ram cpu)))) = cpu_mp_affinity cpu"
  "cpu_power_state (snd (snd (snd (vmapple_hvc h f hs ram cpu)))) = cpu_power_state cpu"
  by (rule cpu_ok_cong; simp add: vmapple_hvc_def set_initial_state_def keys_install_def Let_def)
     (simp_all add: vmapple_hvc_def set_initial_state_def keys_install_def Let_def)

lemma handler_simps:
  "sys_cpus (snd (vmapple_handler h i s)) =
     (sys_cpus s)[i := snd (snd (snd (vmapple_hvc h (i = 0) (sys_hvc s) (sys_ram s) (sys_cpus s ! i))))]"
  "sys_hvc (snd (vmapple_handler h i s)) = fst (snd (vmapple_hvc h (i = 0) (sys_hvc s) (sys_ram s) (sys_cpus s ! i)))"
  "fst (vmapple_handler h i s) = fst (vmapple_hvc h (i = 0) (sys_hvc s) (sys_ram s) (sys_cpus s ! i))"
  by (simp_all add: vmapple_handler_def case_prod_unfold)

lemma handler_ok:
  assumes "cpus_ok (sys_cpus s)" "i < length (sys_cpus s)"
  shows "cpus_ok (sys_cpus (snd (vmapple_handler h i s)))"
    "cpu_power_state (sys_cpus (snd (vmapple_handler h i s)) ! i) = cpu_power_state (sys_cpus s ! i)"
    "length (sys_cpus (snd (vmapple_handler h i s))) = length (sys_cpus s)"
  using assms vmapple_hvc_cpu [of h "i = 0" "sys_hvc s" "sys_ram s" "sys_cpus s ! i"]
  by (auto simp: handler_simps cpus_ok_def [of "sys_cpus s"] intro!: cpus_ok_update)

lemma handle_call_total:
  assumes "cpus_ok (sys_cpus s)" "i < length (sys_cpus s)" "cpu_power_state (sys_cpus s ! i) \<noteq> PSCI_OFF"
  shows "case arm_handle_psci_call env (vmapple_hvc_init h) i s of
      Call_return s' \<Rightarrow> cpus_ok (sys_cpus s') \<and> length (sys_cpus s') = length (sys_cpus s)
    | Call_exit s' \<Rightarrow> cpus_ok (sys_cpus s') \<and> length (sys_cpus s') = length (sys_cpus s)
    | Call_abort \<Rightarrow> False"
proof -
  let ?s = "snd (vmapple_handler h i s)"
  have k: "call_keeps ?s (psci_dispatch env i p ?s)" "call_keeps s (psci_dispatch env i p s)" for p
    using assms handler_ok [OF assms(1,2), of h] by (simp_all add: dispatch_keeps)
  show ?thesis using k [of "psci_param (sys_cpus s ! i)"] handler_ok [OF assms(1,2), of h]
    by (simp add: arm_handle_psci_call_def arm_smccc_dispatch_def vmapple_hvc_init_def call_keeps_def split: call_result.splits)
qed

lemma sys_do_total:
  assumes "cpus_ok (sys_cpus s)" and "event_ok e s"
  shows "case sys_do env h e s of None \<Rightarrow> False | Some s' \<Rightarrow> cpus_ok (sys_cpus s') \<and> length (sys_cpus s') = length (sys_cpus s)"
proof (cases e)
  case (Guest_hvc i xs)
  let ?c = "(sys_cpus s ! i)\<lparr>cpu_xregs := xs\<rparr>"
  have i: "i < length (sys_cpus s)" "cpu_power_state ?c \<noteq> PSCI_OFF" using assms(2) Guest_hvc by simp_all
  have "cpu_ok ?c = cpu_ok (sys_cpus s ! i)" by (rule cpu_ok_cong) simp_all
  then have "cpus_ok ((sys_cpus s)[i := ?c])" using assms(1) i by (intro cpus_ok_update) (simp_all add: cpus_ok_def)
  then show ?thesis using handle_call_total [of "set_cpu s i ?c" i env h] i Guest_hvc
    by (simp add: Let_def split: call_result.splits)
next
  case (Run_work i)
  then have c: "cpu_ok (sys_cpus s ! i)" and i: "i < length (sys_cpus s)" using assms by (simp_all add: cpus_ok_def)
  obtain c where r: "run_work (sys_cpus s ! i) = Some c" using run_work_total [OF c] by blast
  show ?thesis using cpus_ok_update [OF assms(1) i] run_work_ok [OF c r] r Run_work by simp
qed

lemma sys_run_total:
  "cpus_ok (sys_cpus s) \<Longrightarrow> case sys_run env h es s of None \<Rightarrow> False
    | Some s' \<Rightarrow> cpus_ok (sys_cpus s') \<and> length (sys_cpus s') = length (sys_cpus s)"
proof (induction es arbitrary: s)
  case (Cons e es)
  show ?case
  proof (cases "event_ok e s")
    case True
    with sys_do_total [OF Cons.prems True, of env h] obtain s' where "sys_do env h e s = Some s'" "cpus_ok (sys_cpus s')"
      "length (sys_cpus s') = length (sys_cpus s)"
      by (cases "sys_do env h e s") simp_all
    with Cons.IH [of s'] True show ?thesis by (simp split: option.split_asm)
  next
    case False
    with Cons show ?thesis by simp
  qed
qed simp

section \<open>The saved keys\<close>

lemma service_zero:
  assumes "unat (fid :: u32) \<in> {0xc1000000..<0xc1010000}" and "fid AND 0xffff = 0"
  shows "fid = 0xc1000000"
proof -
  have "fid AND 0xffff = take_bit 16 fid" by (simp add: take_bit_eq_mask mask_eq_exp_minus_1)
  with assms(2) have "unat (take_bit 16 fid) = 0" by simp
  then have "take_bit 16 (unat fid) = 0" by (simp only: unsigned_take_bit_eq)
  then have "unat fid mod 65536 = 0" by (simp add: take_bit_eq_mod)
  then have q: "unat fid = unat fid div 65536 * 65536" using div_mult_mod_eq [of "unat fid" 65536] by simp
  then have "unat fid div 65536 = 49408" using assms(1) by simp
  then have "unat fid = 0xc1000000" using q by simp
  then show ?thesis by (simp add: word_unat_eq_iff)
qed

lemma vmapple_hvc_hs:
  assumes "f \<longrightarrow> ucast (cpu_xregs cpu ! 0) \<noteq> (0xc1000000 :: u32)"
  shows "fst (snd (vmapple_hvc h f hs ram cpu)) = hs"
  using assms service_zero [of "ucast (cpu_xregs cpu ! 0)"]
  by (auto simp: vmapple_hvc_def service_range set_initial_state_def Let_def)

fun boot_init :: "sys_event \<Rightarrow> bool" where
  "boot_init (Guest_hvc i xs) = (i = 0 \<and> ucast (xs ! 0) = (0xc1000000 :: u32))"
| "boot_init (Run_work i) = False"

lemma cpus_ok_set_regs:
  assumes "cpus_ok cpus" "i < length cpus"
  shows "cpus_ok (cpus[i := (cpus ! i)\<lparr>cpu_xregs := xs\<rparr>])"
proof -
  have "cpu_ok ((cpus ! i)\<lparr>cpu_xregs := xs\<rparr>) = cpu_ok (cpus ! i)" by (rule cpu_ok_cong) simp_all
  then show ?thesis using assms by (intro cpus_ok_update) (simp_all add: cpus_ok_def)
qed

lemma handle_call_keeps:
  assumes "cpus_ok (sys_cpus s)" "i < length (sys_cpus s)" "cpu_power_state (sys_cpus s ! i) \<noteq> PSCI_OFF"
    and "i = 0 \<longrightarrow> ucast (cpu_xregs (sys_cpus s ! i) ! 0) \<noteq> (0xc1000000 :: u32)"
  shows "call_keeps s (arm_handle_psci_call env (vmapple_hvc_init h) i s)"
proof -
  let ?s = "snd (vmapple_handler h i s)"
  have k: "call_keeps ?s (psci_dispatch env i p ?s)" "call_keeps s (psci_dispatch env i p s)" for p
    using assms handler_ok [OF assms(1,2), of h] by (simp_all add: dispatch_keeps)
  have "sys_hvc ?s = sys_hvc s" using vmapple_hvc_hs [OF assms(4)] by (simp add: handler_simps)
  then show ?thesis using k [of "psci_param (sys_cpus s ! i)"] handler_ok [OF assms(1,2), of h]
    by (simp add: arm_handle_psci_call_def arm_smccc_dispatch_def vmapple_hvc_init_def call_keeps_def split: call_result.splits)
qed

lemma sys_do_hvc:
  assumes "cpus_ok (sys_cpus s)" and "event_ok e s" and "\<not> boot_init e" and "sys_do env h e s = Some s'"
  shows "sys_hvc s' = sys_hvc s"
proof (cases e)
  case (Guest_hvc i xs)
  let ?s = "set_cpu s i ((sys_cpus s ! i)\<lparr>cpu_xregs := xs\<rparr>)"
  have "call_keeps ?s (arm_handle_psci_call env (vmapple_hvc_init h) i ?s)"
    using assms(2,3) Guest_hvc cpus_ok_set_regs [OF assms(1)] by (intro handle_call_keeps) auto
  then show ?thesis using assms(4) Guest_hvc
    by (auto simp: Let_def call_keeps_def split: if_split_asm call_result.split_asm)
next
  case (Run_work i)
  then show ?thesis using assms(4) by auto
qed

lemma sys_run_hvc:
  assumes "cpus_ok (sys_cpus s)" and "\<forall>e\<in>set es. \<not> boot_init e" and "sys_run env h es s = Some s'"
  shows "sys_hvc s' = sys_hvc s"
  using assms
proof (induction es arbitrary: s)
  case (Cons e es)
  show ?case
  proof (cases "event_ok e s")
    case True
    obtain s1 where s1: "sys_do env h e s = Some s1" "cpus_ok (sys_cpus s1)"
      using sys_do_total [OF Cons.prems(1) True, of env h] by (cases "sys_do env h e s") simp_all
    with Cons.IH [of s1] Cons.prems True sys_do_hvc [OF Cons.prems(1) True _ s1(1)] show ?thesis by simp
  next
    case False
    with Cons show ?thesis by simp
  qed
qed simp

lemma init_call:
  assumes "i < length (sys_cpus s)" "cpu_aarch64 (sys_cpus s ! i)" "cpu_psci_conduit (sys_cpus s ! i) = CONDUIT_HVC"
    and "ucast x0 = (0xc1000000 :: u32)"
  shows "sys_do env h (Guest_hvc i (x0 # xs)) s =
    Some (snd (vmapple_handler h i (set_cpu s i ((sys_cpus s ! i)\<lparr>cpu_xregs := x0 # xs\<rparr>))))"
  using assms by (simp add: Let_def arm_is_psci_call_def arm_handle_psci_call_def arm_smccc_dispatch_def vmapple_hvc_init_def
      handler_simps vmapple_hvc_def service_range case_prod_unfold)

section \<open>What a call answers\<close>

text \<open>The first register of the caller when a call returns to it.\<close>

definition call_answer :: "nat \<Rightarrow> call_result \<Rightarrow> u64 option" where
  "call_answer i r = (case r of Call_return s \<Rightarrow> Some (psci_param (sys_cpus s ! i) 0) | _ \<Rightarrow> None)"

definition not_supported :: "ARMCPU \<Rightarrow> u64" where
  "not_supported c = (if cpu_aarch64 c then - 1 else 0xffffffff)"

definition regs_ok :: "ARMCPU \<Rightarrow> bool" where
  "regs_ok c \<longleftrightarrow> length (cpu_xregs c) = 32 \<and> length (cpu_regs c) = 16"

lemma ucast_minus_one: "ucast (- 1 :: u32) = (0xffffffff :: u64)"
  by (simp add: unsigned_minus_1_eq_mask mask_eq_exp_minus_1)

lemma psci_param_set_ret:
  "regs_ok c \<Longrightarrow> psci_param (psci_set_ret c r) 0 = (if cpu_aarch64 c then word_of_int r else ucast (word_of_int r :: u32))"
  by (simp add: psci_param_def psci_set_ret_def regs_ok_def)

lemma answer_return:
  "i < length (sys_cpus s) \<Longrightarrow> regs_ok (sys_cpus s ! i) \<Longrightarrow>
    call_answer i (psci_return s i r) =
      Some (if cpu_aarch64 (sys_cpus s ! i) then word_of_int r else ucast (word_of_int r :: u32))"
  by (simp add: call_answer_def psci_return_def psci_param_set_ret)

lemma answer_known:
  assumes "i < length (sys_cpus s)" "regs_ok (sys_cpus s ! i)" "cpu_aarch64 (sys_cpus s ! i) = cpu_aarch64 c"
    and "r \<in> {0, 1, 2, 0x10001, -2, -4, -5}"
  shows "call_answer i (psci_return s i r) \<noteq> Some (not_supported c)"
  using assms by (auto simp: answer_return not_supported_def)

lemma answer_not_supported:
  assumes "i < length (sys_cpus s)" "regs_ok (sys_cpus s ! i)"
  shows "call_answer i (psci_return s i PSCI_RET_NOT_SUPPORTED) = Some (not_supported (sys_cpus s ! i))"
  using assms by (simp add: answer_return not_supported_def ucast_minus_one)

lemma answer_off:
  assumes "cpus_ok (sys_cpus s)" "i < length (sys_cpus s)" "cpu_power_state (sys_cpus s ! i) \<noteq> PSCI_OFF"
  shows "call_answer i (psci_cpu_off s i) = Some (psci_param (sys_cpus s ! i) 0)"
  using assms by (simp add: psci_cpu_off_def set_cpu_off_self call_answer_def) (simp add: async_run_on_cpu_def psci_param_def)

lemma async_regs:
  "i < length cpus \<Longrightarrow> regs_ok (async_run_on_cpu cpus j w ! i) = regs_ok (cpus ! i)"
  "i < length cpus \<Longrightarrow> cpu_aarch64 (async_run_on_cpu cpus j w ! i) = cpu_aarch64 (cpus ! i)"
  by (cases "i = j"; simp add: async_run_on_cpu_def regs_ok_def)+

lemma set_cpu_on_answer:
  assumes "arm_set_cpu_on cpus a e x el aa = Some (r, cpus')" and "i < length cpus"
  shows "r \<in> {0, -2, -4, -5}" and "regs_ok (cpus' ! i) = regs_ok (cpus ! i)" and "cpu_aarch64 (cpus' ! i) = cpu_aarch64 (cpus ! i)"
proof -
  have "r \<in> {0, -2, -4, -5} \<and> (cpus' = cpus \<or> (\<exists>j w. cpus' = async_run_on_cpu cpus j w))"
    using assms(1) unfolding arm_set_cpu_on_def Let_def by (simp split: if_split_asm option.split_asm) blast
  then show "r \<in> {0, -2, -4, -5}" and "regs_ok (cpus' ! i) = regs_ok (cpus ! i)" and "cpu_aarch64 (cpus' ! i) = cpu_aarch64 (cpus ! i)"
    using assms(2) by (auto simp: async_regs)
qed

lemma answer_on:
  assumes "i < length (sys_cpus s)" "regs_ok (sys_cpus s ! i)"
  shows "call_answer i (psci_cpu_on s i m e x) \<noteq> Some (not_supported (sys_cpus s ! i))"
proof -
  let ?el = "if feat_el2 (sys_cpus s ! i) then 2 else 1 :: nat"
  show ?thesis
  proof (cases "arm_set_cpu_on (sys_cpus s) m e x ?el (arm_el_is_aa64 (sys_cpus s ! i) ?el)")
    case None
    then show ?thesis by (simp add: psci_cpu_on_def call_answer_def)
  next
    case (Some rc)
    then obtain r cpus where o: "arm_set_cpu_on (sys_cpus s) m e x ?el (arm_el_is_aa64 (sys_cpus s ! i) ?el) = Some (r, cpus)"
      by (cases rc) simp
    have "call_answer i (psci_return (s\<lparr>sys_cpus := cpus\<rparr>) i r) \<noteq> Some (not_supported (sys_cpus s ! i))"
      using set_cpu_on_answer [OF o assms(1)] set_cpu_on_length [OF o] assms by (intro answer_known) auto
    then show ?thesis by (simp add: psci_cpu_on_def Let_def o)
  qed
qed

lemma answer_suspend:
  assumes "i < length (sys_cpus s)" "regs_ok (sys_cpus s ! i)"
  shows "call_answer i (psci_cpu_suspend env s i p) \<noteq> Some (not_supported (sys_cpus s ! i))"
proof -
  let ?c = "psci_set_ret (sys_cpus s ! i) 0"
  have "regs_ok ?c" "cpu_aarch64 ?c = cpu_aarch64 (sys_cpus s ! i)" using assms(2) by (simp_all add: psci_set_ret_def regs_ok_def)
  then have "call_answer i (psci_return (set_cpu s i ?c) i 0) \<noteq> Some (not_supported (sys_cpus s ! i))"
    using assms(1) by (intro answer_known) simp_all
  moreover have "call_answer i (psci_return s i (- 2)) \<noteq> Some (not_supported (sys_cpus s ! i))"
    using assms by (intro answer_known) simp_all
  moreover have "fst (helper_wfi env ?c 4) = None \<or> fst (helper_wfi env ?c 4) = Some ?c" by (simp add: helper_wfi_def)
  ultimately show ?thesis
    by (auto simp: psci_cpu_suspend_def case_prod_unfold call_answer_def [of i "Call_exit _"])
qed

lemma dispatch_answer:
  fixes s i defines "c \<equiv> sys_cpus s ! i"
  assumes "cpus_ok (sys_cpus s)" "i < length (sys_cpus s)" "cpu_power_state c \<noteq> PSCI_OFF" "regs_ok c"
    and "psci_param c 0 \<noteq> PSCI_0_2_FN 10"
  shows "psci_features (cpu_aarch64 c) (psci_param c 0) = 0 \<longleftrightarrow>
    call_answer i (psci_dispatch env i (psci_param c) s) \<noteq> Some (not_supported c)"
proof -
  let ?f = "psci_param c 0"
  have aff: "psci_affinity_info s m l \<in> {0, 1, 2, -2}" for m l
    by (auto simp: psci_affinity_info_def psci_state_num_def split: option.split ARMPSCIState.split)
  have ret: "call_answer i (psci_return s i r) \<noteq> Some (not_supported c)" if "r \<in> {0, 1, 2, 0x10001, -2, -4, -5}" for r
    using answer_known [of i s c r] assms that unfolding c_def by blast
  have info: "call_answer i (psci_return s i (psci_affinity_info s m l)) \<noteq> Some (not_supported c)" for m l
    using aff [of m l] by (intro ret) auto
  have off: "call_answer i (psci_cpu_off (s\<lparr>sys_reset_request := a\<rparr>) i) = Some ?f"
      "call_answer i (psci_cpu_off (s\<lparr>sys_shutdown_request := a\<rparr>) i) = Some ?f" "call_answer i (psci_cpu_off s i) = Some ?f" for a
    using answer_off [of "s\<lparr>sys_reset_request := a\<rparr>" i] answer_off [of "s\<lparr>sys_shutdown_request := a\<rparr>" i]
      answer_off [of s i] assms by (simp_all add: c_def)
  have no: "call_answer i (psci_return s i (- 1)) = Some (not_supported c)"
    using answer_not_supported [of i s] assms by (simp add: c_def)
  note on = answer_on [of i s, folded c_def, OF assms(3,5)]
  note suspend = answer_suspend [of i s, folded c_def, OF assms(3,5)]
  show ?thesis
  proof (cases "?f AND 0x40000000 \<noteq> 0 \<and> \<not> cpu_aarch64 c")
    case True
    then show ?thesis using no by (simp add: psci_dispatch_def psci_features_def c_def [symmetric])
  next
    case False
    then show ?thesis using assms(6) no on suspend
      by (simp add: psci_dispatch_def psci_features_def c_def [symmetric] Let_def off ret info)
         (auto simp: not_supported_def)
  qed
qed

section \<open>A concrete machine\<close>

definition sample_env :: wfi_env where
  "sample_env = \<lparr>wfi_has_work = (\<lambda>c. False), wfi_trap = (\<lambda>c. (0, 0))\<rparr>"

definition sample_host :: hvc_host where
  "sample_host = \<lparr>host_is_aarch64 = True, tcg_enabled = True, host_cntfrq = 0\<rparr>"

text \<open>A boot CPU with keys of its own and a second CPU; the counter runs at 24 MHz.\<close>

definition sample_keys :: ARMPACKeys where
  "sample_keys = no_keys\<lparr>apia := \<lparr>pk_lo = 1, pk_hi = 2\<rparr>\<rparr>"

definition sample_sys :: psci_sys where
  "sample_sys = \<lparr>sys_cpus = [(sample_cpu 0 False)\<lparr>cpu_keys := sample_keys, cpu_gt_cntfrq_hz := 24000000\<rparr>, sample_cpu 1 False],
     sys_hvc = sample_hvc, sys_ram = [], sys_reset_request = False, sys_shutdown_request = False\<rparr>"

lemma sample_sys_ok: "cpus_ok (sys_cpus sample_sys)"
  by (simp add: sample_sys_def cpus_ok_def cpu_ok_def sample_cpu_def)

section \<open>Properties\<close>

text \<open>
  C29 (\<^verbatim>\<open>arm_handle_psci_call\<close>, \<^verbatim>\<open>arm-powerctl.c\<close>).  Whatever calls the running CPUs
  make, with whatever registers, and however the queued work items interleave
  with them, no assertion of PSCI, of power control or of the reset code fails,
  and every CPU that is off stays halted for PSCI.
\<close>

theorem psci_never_aborts:
  assumes "cpus_ok (sys_cpus init)"
  shows "case sys_run env h es init of
      None \<Rightarrow> False
    | Some s \<Rightarrow> \<forall>c\<in>set (sys_cpus s). cpu_power_state c = PSCI_OFF \<longrightarrow> cpu_halted c \<and> cpu_halt_reason c = HALT_PSCI"
  using sys_run_total [OF assms, of env h es] by (auto simp: cpus_ok_def cpu_ok_def split: option.splits)

theorem psci_never_aborts_witness:
  "sys_run sample_env sample_host [Guest_hvc 0 (0x84000002 # replicate 31 0), Run_work 0] sample_sys \<noteq> None"
  using psci_never_aborts [OF sample_sys_ok, of sample_env sample_host "[Guest_hvc 0 (0x84000002 # replicate 31 0), Run_work 0]"]
  by (metis option.simps(4))



text \<open>
  C32 (\<^verbatim>\<open>PSCI_FEATURES\<close>).  The feature query tells the truth: asked about a
  function it answers 0 or NOT_SUPPORTED, and 0 exactly for the functions (of the
  caller's register width) that, called with any arguments by a running CPU, are
  not answered with NOT_SUPPORTED; the query itself, which passes on the answer
  for another function, is counted as supported.
\<close>

theorem psci_features_truthful:
  assumes "cpus_ok (sys_cpus s)" "i < length (sys_cpus s)" "cpu_power_state (sys_cpus s ! i) \<noteq> PSCI_OFF"
    and "regs_ok (sys_cpus s ! i)"
  shows "(psci_param (sys_cpus s ! i) 0 = PSCI_0_2_FN 10 \<longrightarrow>
      call_answer i (arm_handle_psci_call env None i s) =
        Some (if psci_features (cpu_aarch64 (sys_cpus s ! i)) (psci_param (sys_cpus s ! i) 1) = 0 then 0
              else not_supported (sys_cpus s ! i))) \<and>
    (psci_param (sys_cpus s ! i) 0 \<noteq> PSCI_0_2_FN 10 \<longrightarrow>
      psci_features (cpu_aarch64 (sys_cpus s ! i)) (psci_param (sys_cpus s ! i) 0) = 0 \<longleftrightarrow>
      call_answer i (arm_handle_psci_call env None i s) \<noteq> Some (not_supported (sys_cpus s ! i)))"
proof -
  let ?c = "sys_cpus s ! i"
  have h: "arm_handle_psci_call env None i s = psci_dispatch env i (psci_param ?c) s"
    by (simp add: arm_handle_psci_call_def arm_smccc_dispatch_def)
  have "call_answer i (psci_return s i (psci_features a f)) = Some (if psci_features a f = 0 then 0 else not_supported ?c)" for a f
    by (simp add: psci_features_def answer_not_supported [OF assms(2,4)] answer_return [OF assms(2,4), of 0])
  then have "psci_param ?c 0 = PSCI_0_2_FN 10 \<longrightarrow> call_answer i (psci_dispatch env i (psci_param ?c) s) =
      Some (if psci_features (cpu_aarch64 ?c) (psci_param ?c 1) = 0 then 0 else not_supported ?c)"
    by (simp add: psci_dispatch_def)
  then show ?thesis using dispatch_answer [OF assms, of env] unfolding h by blast
qed

theorem psci_features_truthful_witness:
  "call_answer 1 (arm_handle_psci_call sample_env None 1 sample_sys) = Some (not_supported (sys_cpus sample_sys ! 1))"
proof -
  have "cpu_power_state (sys_cpus sample_sys ! 1) \<noteq> PSCI_OFF" "regs_ok (sys_cpus sample_sys ! 1)" "1 < length (sys_cpus sample_sys)"
    by (simp_all add: sample_sys_def sample_cpu_def regs_ok_def)
  note t = psci_features_truthful [OF sample_sys_ok this(3,1,2), of sample_env]
  have "psci_param (sys_cpus sample_sys ! 1) 0 = 0" by (simp add: sample_sys_def sample_cpu_def psci_param_def)
  then show ?thesis using t by (simp add: psci_features_def)
qed

end
