(* ===== verification/Gicv2m.thy ===== *)
theory Gicv2m
  imports Prelude
begin

text \<open>
  The message-signalled interrupt frame, \<^verbatim>\<open>hw/intc/arm_gicv2m.c\<close>: its two
  registers and the checks of realize.  A write gives the index of the output
  line that is pulsed, if any.
\<close>

record ARMGICv2mState =
  base_spi :: u32
  num_spi :: u32
  macos_compat :: u32

abbreviation (input) GICV2M_NUM_SPI_MAX :: u32 where "GICV2M_NUM_SPI_MAX \<equiv> 128"
abbreviation (input) V2M_MSI_TYPER :: u64 where "V2M_MSI_TYPER \<equiv> 0x008"
abbreviation (input) V2M_MSI_SETSPI_NS :: u64 where "V2M_MSI_SETSPI_NS \<equiv> 0x040"
abbreviation (input) V2M_MSI_IIDR :: u64 where "V2M_MSI_IIDR \<equiv> 0xFCC"

definition gicv2m_read :: "ARMGICv2mState \<Rightarrow> u64 \<Rightarrow> nat \<Rightarrow> u64" where
  "gicv2m_read s offset sz =
     (if sz \<noteq> 4 then 0
      else if offset = V2M_MSI_TYPER then
        ucast (push_bit 16 (base_spi s + 32) OR num_spi s OR (if macos_compat s \<noteq> 0 then push_bit 31 1 else 0) :: u32)
      else if offset = V2M_MSI_IIDR then push_bit 20 0x51
      else 0)"

text \<open>The difference is a 64-bit value, stored into an \<^verbatim>\<open>int\<close> and compared as unsigned.\<close>

definition gicv2m_write :: "ARMGICv2mState \<Rightarrow> u64 \<Rightarrow> u64 \<Rightarrow> nat \<Rightarrow> nat option" where
  "gicv2m_write s offset val sz =
     (if sz \<noteq> 2 \<and> sz \<noteq> 4 then None
      else if offset = V2M_MSI_SETSPI_NS then
        (let spi = ucast ((val AND 0x3ff) - ucast (base_spi s + 32)) :: u32
         in if 0 \<le> sint spi \<and> spi < num_spi s then Some (unat spi) else None)
      else None)"

definition gicv2m_realize :: "ARMGICv2mState \<Rightarrow> bool" where
  "gicv2m_realize s = (\<not> num_spi s > GICV2M_NUM_SPI_MAX \<and> \<not> base_spi s + 32 > 1020 - num_spi s)"

section \<open>Arithmetic of the frame\<close>

lemma realize_bounds:
  assumes "gicv2m_realize s" and "unat (base_spi s) + 32 < 2 ^ 32"
  shows "unat (num_spi s) \<le> 128" and "unat (base_spi s + 32) = unat (base_spi s) + 32"
    and "unat (base_spi s) + 32 + unat (num_spi s) \<le> 1020"
proof -
  show n: "unat (num_spi s) \<le> 128" using assms(1) by (simp add: gicv2m_realize_def word_less_nat_alt)
  show b: "unat (base_spi s + 32) = unat (base_spi s) + 32" using assms(2) by (simp add: unat_word_ariths)
  have "unat (1020 - num_spi s) = 1020 - unat (num_spi s)" using n by (simp add: unat_sub word_le_nat_alt)
  then show "unat (base_spi s) + 32 + unat (num_spi s) \<le> 1020"
    using assms(1) b n by (simp add: gicv2m_realize_def word_less_nat_alt)
qed

lemma low_ten_bits: "unat ((v :: u64) AND 0x3ff) = unat v mod 1024"
proof -
  have "v AND 0x3ff = take_bit 10 v" by (simp add: take_bit_eq_mask mask_eq_exp_minus_1)
  then have "unat (v AND 0x3ff) = take_bit 10 (unat v)" by (simp only: unsigned_take_bit_eq)
  then show ?thesis by (simp add: take_bit_eq_mod)
qed

lemma sint_nonneg: "0 \<le> sint (w :: u32) \<longleftrightarrow> unat w < 2 ^ 31"
proof -
  have "unat w < 2 ^ 32" using unat_bounds(3) [of w] by simp
  then have d: "unat w div 2 ^ 31 < 2" by (simp add: less_mult_imp_div_less)
  have "sint w < 0 \<longleftrightarrow> bit w 31" using bit_last_iff [of w] by simp
  also have "\<dots> \<longleftrightarrow> bit (unat w) 31" by (simp add: bit_unsigned_iff)
  also have "\<dots> \<longleftrightarrow> odd (unat w div 2 ^ 31)" by (rule bit_iff_odd)
  also have "\<dots> \<longleftrightarrow> \<not> unat w < 2 ^ 31" using d by (auto simp: less_2_cases_iff div_eq_0_iff)
  finally show ?thesis by linarith
qed

lemma setspi_hit:
  assumes "gicv2m_realize s" and "unat (base_spi s) + 32 < 2 ^ 32" and "sz = 2 \<or> sz = 4"
  shows "gicv2m_write s V2M_MSI_SETSPI_NS v sz = Some k \<longleftrightarrow>
    k < unat (num_spi s) \<and> unat v mod 1024 = unat (base_spi s) + 32 + k"
proof -
  let ?m = "unat v mod 1024" and ?B = "unat (base_spi s) + 32"
  define x where "x = v AND 0x3ff"
  define y where "y = (ucast (base_spi s + 32) :: u64)"
  let ?spi = "ucast (x - y) :: u32"
  note b = realize_bounds [OF assms(1,2)]
  have B: "unat y = ?B" using b(2) unfolding y_def by simp
  have m: "unat x = ?m" "?m < 1024" unfolding x_def by (rule low_ten_bits) simp
  have w: "gicv2m_write s V2M_MSI_SETSPI_NS v sz = (if unat ?spi < 2 ^ 31 \<and> ?spi < num_spi s then Some (unat ?spi) else None)"
    using assms(3) unfolding gicv2m_write_def Let_def sint_nonneg x_def y_def by auto
  show ?thesis
  proof (cases "?B \<le> ?m")
    case True
    then have "unat (x - y) = ?m - ?B" by (simp add: unat_sub word_le_nat_alt B m(1))
    then have "unat ?spi = ?m - ?B" using m(2) by (simp add: unsigned_ucast_eq take_bit_eq_mod)
    then show ?thesis using True m unfolding w by (auto simp: word_less_nat_alt)
  next
    case False
    have "unat (x - y) = 2 ^ 64 - (?B - ?m)" using False b(3) by (simp add: unat_sub_if' B m(1))
    then have "unat ?spi = (2 ^ 64 - (?B - ?m)) mod 2 ^ 32" by (simp add: unsigned_ucast_eq take_bit_eq_mod)
    moreover have "2 ^ 64 - (?B - ?m) = (2 ^ 32 - 1) * 2 ^ 32 + (2 ^ 32 - (?B - ?m))" using False b(3) by simp
    ultimately have "unat ?spi = 2 ^ 32 - (?B - ?m)" using False b(3) by (simp only: mod_mult_self3) simp
    then have "\<not> unat ?spi < 2 ^ 31" using b(3) by simp
    then show ?thesis using False unfolding w by auto
  qed
qed

lemma small_take_bit: "unat (w :: u32) < 2 ^ n \<Longrightarrow> take_bit n w = w"
  by (simp add: word_unat_eq_iff unsigned_take_bit_eq take_bit_nat_eq_self_iff)

lemma typer_fields:
  fixes b n :: u32 and c :: bool
  assumes "unat b < 2 ^ 10" and "unat n < 2 ^ 10"
  defines "t \<equiv> push_bit 16 b OR n OR (if c then push_bit 31 1 else 0)"
  shows "take_bit 10 (drop_bit 16 t) = b" "take_bit 10 t = n" "bit t 31 = c"
proof -
  have b: "take_bit 10 b = b" and n: "take_bit 10 n = n" using assms(1,2) by (simp_all add: small_take_bit)
  have nb: "\<not> bit b k" if "10 \<le> k" for k using arg_cong [OF b, of "\<lambda>w. bit w k"] that by (simp add: bit_take_bit_iff)
  have nn: "\<not> bit n k" if "10 \<le> k" for k using arg_cong [OF n, of "\<lambda>w. bit w k"] that by (simp add: bit_take_bit_iff)
  define z where "z = (if c then push_bit 31 1 else 0 :: u32)"
  have z: "bit z k \<longleftrightarrow> c \<and> k = 31" for k unfolding z_def by (simp only: bit_push_bit_iff bit_1_iff bit_0_eq split: if_split) auto
  have t: "bit t k \<longleftrightarrow> 16 \<le> k \<and> k < 32 \<and> bit b (k - 16) \<or> bit n k \<or> c \<and> k = 31" for k
    unfolding t_def z_def [symmetric] by (auto simp: bit_or_iff bit_push_bit_iff z)
  show "take_bit 10 (drop_bit 16 t) = b"
  proof (rule bit_eqI)
    fix k assume "possible_bit TYPE(u32) k"
    then show "bit (take_bit 10 (drop_bit 16 t)) k = bit b k"
      using nb [of k] nn [of "16 + k"] t [of "16 + k"] by (cases "k < 10") (auto simp: bit_take_bit_iff bit_drop_bit_eq)
  qed
  show "take_bit 10 t = n"
  proof (rule bit_eqI)
    fix k
    show "bit (take_bit 10 t) k = bit n k" using nn [of k] t [of k] by (cases "k < 10") (auto simp: bit_take_bit_iff)
  qed
  show "bit t 31 = c" using nb [of 15] nn [of 31] t [of 31] by simp
qed

section \<open>Properties\<close>

text \<open>
  C15 (the frame as its driver sees it).  Of a frame that realize accepts, with a
  base that does not wrap, the type register gives the first interrupt number
  and the count, with bit 31 set exactly for macOS; and a 16- or 32-bit write to
  the trigger register pulses line \<open>k\<close> exactly when its low ten bits are the
  \<open>k\<close>-th number of that range, and no line otherwise.
\<close>

theorem gicv2m_driver_view:
  fixes s defines "t \<equiv> ucast (gicv2m_read s V2M_MSI_TYPER 4) :: u32"
  assumes "gicv2m_realize s" and "unat (base_spi s) + 32 < 2 ^ 32"
  shows "unat (take_bit 10 (drop_bit 16 t)) = unat (base_spi s) + 32 \<and> unat (take_bit 10 t) = unat (num_spi s) \<and>
    (bit t 31 \<longleftrightarrow> macos_compat s \<noteq> 0) \<and>
    (gicv2m_write s V2M_MSI_SETSPI_NS v sz = Some k \<longleftrightarrow> (sz = 2 \<or> sz = 4) \<and> k < unat (take_bit 10 t) \<and>
      unat v mod 1024 = unat (take_bit 10 (drop_bit 16 t)) + k)"
proof -
  note b = realize_bounds [OF assms(2,3)]
  have f: "t = push_bit 16 (base_spi s + 32) OR num_spi s OR (if macos_compat s \<noteq> 0 then push_bit 31 1 else 0)"
    unfolding t_def gicv2m_read_def by simp
  have "unat (base_spi s + 32) < 2 ^ 10" "unat (num_spi s) < 2 ^ 10" using b by simp_all
  note fields = typer_fields [OF this, of "macos_compat s \<noteq> 0", folded f]
  have "gicv2m_write s V2M_MSI_SETSPI_NS v sz = None" if "\<not> (sz = 2 \<or> sz = 4)" using that by (simp add: gicv2m_write_def)
  then show ?thesis using fields b setspi_hit [OF assms(2,3), of sz v k] by (cases "sz = 2 \<or> sz = 4") auto
qed

theorem gicv2m_driver_view_witness:
  "gicv2m_write \<lparr>base_spi = 0x80, num_spi = 128, macos_compat = 1\<rparr> 0x40 0xa5 4 = Some 5"
  using gicv2m_driver_view [of "\<lparr>base_spi = 0x80, num_spi = 128, macos_compat = 1\<rparr>" "0xa5" 4 5]
  by (simp add: gicv2m_realize_def)

text \<open>
  C40 (realize).  The range check adds 32 to the base in 32 bits: a base within 32 of
  \<open>2 ^ 32\<close> is accepted, although no interrupt of it exists, and the frame then
  announces numbers below 32, which are not shared interrupts.
\<close>

theorem gicv2m_realize_wraps:
  assumes "2 ^ 32 - 32 \<le> unat (base_spi s)" and "unat (num_spi s) \<le> 128"
  shows "gicv2m_realize s \<and> unat (base_spi s + 32) < 32"
proof -
  have "unat (base_spi s) < 2 ^ 32" using unat_bounds(3) [of "base_spi s"] by simp
  then have b: "unat (base_spi s + 32) = unat (base_spi s) + 32 - 2 ^ 32" using assms(1) by (simp add: unat_word_ariths mod_if)
  moreover have "unat (1020 - num_spi s) = 1020 - unat (num_spi s)" using assms(2) by (simp add: unat_sub word_le_nat_alt)
  ultimately show ?thesis using assms \<open>unat (base_spi s) < 2 ^ 32\<close> by (simp add: gicv2m_realize_def word_less_nat_alt) linarith
qed

theorem gicv2m_realize_wraps_witness:
  "gicv2m_realize \<lparr>base_spi = 0xffffffe0, num_spi = 64, macos_compat = 0\<rparr>"
  using gicv2m_realize_wraps [of "\<lparr>base_spi = 0xffffffe0, num_spi = 64, macos_compat = 0\<rparr>"] by simp

end
