(* ===== verification/Cfg.thy ===== *)
theory Cfg
  imports Prelude
begin

text \<open>
  The configuration region the boot firmware reads, \<^verbatim>\<open>hw/vmapple/cfg.c\<close>: the structure,
  its layout in memory, realize and reset.  C strings are byte lists without
  their terminator; the random seed of realize is a parameter.
\<close>

section \<open>State\<close>

record VMAppleCfg =
  cfg_version :: u32
  cfg_nr_cpus :: u32
  cfg_unk1 :: u32
  cfg_unk2 :: u32
  cfg_unk3 :: u32
  cfg_unk4 :: u32
  cfg_ecid :: u64
  cfg_ram_size :: u64
  cfg_run_installer1 :: u32
  cfg_unk5 :: u32
  cfg_unk6 :: u32
  cfg_run_installer2 :: u32
  cfg_rnd :: u32
  cfg_unk7 :: u32
  cfg_mac_en0 :: bytes
  cfg_mac_en1 :: bytes
  cfg_mac_wifi0 :: bytes
  cfg_mac_bt0 :: bytes
  cfg_reserved :: bytes
  cfg_cpu_ids :: "u32 list"
  cfg_scratch :: bytes
  cfg_serial :: bytes
  cfg_unk8 :: bytes
  cfg_model :: bytes
  cfg_unk9 :: bytes
  cfg_unk10 :: u32
  cfg_soc_name :: bytes
  cfg_pad_seed :: bytes
  cfg_seed :: bytes

record VMAppleCfgState =
  cfg :: VMAppleCfg
  serial :: "bytes option"
  model :: "bytes option"
  soc_name :: "bytes option"
  production_mode :: bool

text \<open>The fixed array sizes of the structure.\<close>

definition cfg_sized :: "VMAppleCfg \<Rightarrow> bool" where
  "cfg_sized c \<longleftrightarrow> length (cfg_mac_en0 c) = 6 \<and> length (cfg_mac_en1 c) = 6 \<and> length (cfg_mac_wifi0 c) = 6 \<and>
     length (cfg_mac_bt0 c) = 6 \<and> length (cfg_reserved c) = 0xa0 \<and> length (cfg_cpu_ids c) = 0x80 \<and>
     length (cfg_scratch c) = 0x200 \<and> length (cfg_serial c) = 32 \<and> length (cfg_unk8 c) = 32 \<and>
     length (cfg_model c) = 32 \<and> length (cfg_unk9 c) = 32 \<and> length (cfg_soc_name c) = 32 \<and>
     length (cfg_pad_seed c) = 0x24 \<and> length (cfg_seed c) = 64"

text \<open>The structure in memory, in three parts, with the two bytes \<open>pad1\<close>
  to \<open>pad4\<close> after each address, which nothing ever sets.\<close>

definition cfg_pad :: bytes where
  "cfg_pad = [0, 0]"

definition cfg_head :: "VMAppleCfg \<Rightarrow> bytes" where
  "cfg_head c =
     to_le32 (cfg_version c) @ to_le32 (cfg_nr_cpus c) @ to_le32 (cfg_unk1 c) @ to_le32 (cfg_unk2 c) @
     to_le32 (cfg_unk3 c) @ to_le32 (cfg_unk4 c) @ to_le64 (cfg_ecid c) @ to_le64 (cfg_ram_size c) @
     to_le32 (cfg_run_installer1 c) @ to_le32 (cfg_unk5 c) @ to_le32 (cfg_unk6 c) @ to_le32 (cfg_run_installer2 c) @
     to_le32 (cfg_rnd c) @ to_le32 (cfg_unk7 c) @
     cfg_mac_en0 c @ cfg_pad @ cfg_mac_en1 c @ cfg_pad @ cfg_mac_wifi0 c @ cfg_pad @ cfg_mac_bt0 c @ cfg_pad @ cfg_reserved c"

definition cfg_cpus :: "VMAppleCfg \<Rightarrow> bytes" where
  "cfg_cpus c = concat (map to_le32 (cfg_cpu_ids c)) @ cfg_scratch c"

definition cfg_tail :: "VMAppleCfg \<Rightarrow> bytes" where
  "cfg_tail c =
     cfg_serial c @ cfg_unk8 c @ cfg_model c @ cfg_unk9 c @ to_le32 (cfg_unk10 c) @ cfg_soc_name c @
     cfg_pad_seed c @ cfg_seed c"

definition cfg_bytes :: "VMAppleCfg \<Rightarrow> bytes" where
  "cfg_bytes c = cfg_head c @ cfg_cpus c @ cfg_tail c"

section \<open>Operations\<close>

text \<open>The region after reset: all zero, then the structure.\<close>

definition vmapple_cfg_reset :: "VMAppleCfgState \<Rightarrow> bytes" where
  "vmapple_cfg_reset s = bsplice 0 (cfg_bytes (cfg s)) (replicate 0x10000 0)"

text \<open>
  \<^verbatim>\<open>g_strlcpy\<close>: at most \<open>size - 1\<close> bytes and a terminator; the rest of the target
  stays.  The result tells whether the source fitted.
\<close>

definition set_fixlen_property_or_error :: "bytes \<Rightarrow> bytes \<Rightarrow> bool \<times> bytes" where
  "set_fixlen_property_or_error dst src =
     (let n = min (length src) (length dst - 1)
      in (length src < length dst, take n src @ [0] @ drop (n + 1) dst))"

definition default_to :: "bytes \<Rightarrow> bytes option \<Rightarrow> bytes" where
  "default_to d v = (case v of None \<Rightarrow> d | Some x \<Rightarrow> x)"

definition ascii :: "string \<Rightarrow> bytes" where
  "ascii s = map (\<lambda>c. of_nat (of_char c)) s"

definition vmapple_cfg_realize :: "bytes \<Rightarrow> VMAppleCfgState \<Rightarrow> bool \<times> VMAppleCfgState" where
  "vmapple_cfg_realize rnd s0 =
     (let ser = default_to (ascii ''1234'') (serial s0);
          mdl = default_to (ascii ''VM0001'') (model s0);
          soc = default_to (ascii ''Apple M1 (Virtual)'') (soc_name s0);
          s = s0\<lparr>serial := Some ser, model := Some mdl, soc_name := Some soc\<rparr>;
          (ok1, v1) = set_fixlen_property_or_error (cfg_serial (cfg s)) ser;
          s1 = s\<lparr>cfg := (cfg s)\<lparr>cfg_serial := v1\<rparr>\<rparr>
      in if \<not> ok1 then (False, s1) else
      let (ok2, v2) = set_fixlen_property_or_error (cfg_model (cfg s1)) mdl;
          s2 = s1\<lparr>cfg := (cfg s1)\<lparr>cfg_model := v2\<rparr>\<rparr>
      in if \<not> ok2 then (False, s2) else
      let (ok3, v3) = set_fixlen_property_or_error (cfg_soc_name (cfg s2)) soc;
          s3 = s2\<lparr>cfg := (cfg s2)\<lparr>cfg_soc_name := v3\<rparr>\<rparr>
      in if \<not> ok3 then (False, s3) else
      let (ok4, v4) = set_fixlen_property_or_error (cfg_unk8 (cfg s3)) (ascii ''D/A'');
          s4 = s3\<lparr>cfg := (cfg s3)\<lparr>cfg_unk8 := v4\<rparr>\<rparr>
      in if \<not> ok4 then (False, s4) else
      let c = (cfg s4)\<lparr>cfg_version := 2, cfg_unk1 := (if production_mode s4 then 1 else 0), cfg_unk2 := 1,
            cfg_unk3 := 0x20, cfg_unk4 := 0, cfg_unk5 := 1, cfg_unk6 := 1, cfg_unk7 := 0, cfg_unk10 := 1, cfg_seed := rnd\<rparr>
      in if cfg_nr_cpus c > 0x80 then (False, s4\<lparr>cfg := c\<rparr>)
         else (True, s4\<lparr>cfg := c\<lparr>cfg_cpu_ids :=
                 map of_nat [0..<unat (cfg_nr_cpus c)] @ drop (unat (cfg_nr_cpus c)) (cfg_cpu_ids c)\<rparr>\<rparr>))"

text \<open>A zeroed object with the default of every property.\<close>

definition vmapple_cfg_init :: VMAppleCfgState where
  "vmapple_cfg_init =
     \<lparr>cfg = \<lparr>cfg_version = 0, cfg_nr_cpus = 1, cfg_unk1 = 0, cfg_unk2 = 0, cfg_unk3 = 0, cfg_unk4 = 0, cfg_ecid = 0,
        cfg_ram_size = 0, cfg_run_installer1 = 0, cfg_unk5 = 0, cfg_unk6 = 0, cfg_run_installer2 = 0, cfg_rnd = 0,
        cfg_unk7 = 0, cfg_mac_en0 = replicate 6 0, cfg_mac_en1 = replicate 6 0, cfg_mac_wifi0 = replicate 6 0,
        cfg_mac_bt0 = replicate 6 0, cfg_reserved = replicate 0xa0 0, cfg_cpu_ids = replicate 0x80 0,
        cfg_scratch = replicate 0x200 0, cfg_serial = replicate 32 0, cfg_unk8 = replicate 32 0,
        cfg_model = replicate 32 0, cfg_unk9 = replicate 32 0, cfg_unk10 = 0, cfg_soc_name = replicate 32 0,
        cfg_pad_seed = replicate 0x24 0, cfg_seed = replicate 64 0\<rparr>,
      serial = None, model = None, soc_name = None, production_mode = True\<rparr>"

section \<open>Layout\<close>

lemma length_cfg_pad [simp, layout_simps]: "length cfg_pad = 2"
  by (simp add: cfg_pad_def)

lemma length_concat_le32: "length (concat (map to_le32 xs)) = 4 * length xs"
  by (induction xs) simp_all

lemma cfg_part_lengths:
  assumes "cfg_sized c"
  shows "length (cfg_head c) = 0x100" "length (cfg_cpus c) = 0x400" "length (cfg_tail c) = 0x108"
proof -
  show "length (cfg_cpus c) = 0x400" using assms by (simp add: cfg_cpus_def cfg_sized_def length_concat_le32)
  show "length (cfg_head c) = 0x100" "length (cfg_tail c) = 0x108"
    using assms by (simp_all add: cfg_head_def cfg_tail_def cfg_sized_def)
qed

lemma bslice_concat_le32:
  "i < length xs \<Longrightarrow> bslice (4 * i) 4 (concat (map to_le32 xs)) = to_le32 (xs ! i)"
proof (induction xs arbitrary: i)
  case (Cons x xs)
  then show ?case by (cases i) (simp_all add: layout_simps)
qed simp

lemma cfg_head_fields:
  assumes "cfg_sized c"
  shows "bslice 0 4 (cfg_head c) = to_le32 (cfg_version c)" "bslice 4 4 (cfg_head c) = to_le32 (cfg_nr_cpus c)"
    "bslice 0x18 8 (cfg_head c) = to_le64 (cfg_ecid c)" "bslice 0x20 8 (cfg_head c) = to_le64 (cfg_ram_size c)"
    "bslice 0x38 4 (cfg_head c) = to_le32 (cfg_rnd c)" "bslice 0x40 6 (cfg_head c) = cfg_mac_en0 c"
    "bslice 0x48 6 (cfg_head c) = cfg_mac_en1 c" "bslice 0x50 6 (cfg_head c) = cfg_mac_wifi0 c"
    "bslice 0x58 6 (cfg_head c) = cfg_mac_bt0 c"
  using assms by (simp_all add: cfg_head_def cfg_sized_def layout_simps)

lemma cfg_tail_fields:
  assumes "cfg_sized c"
  shows "bslice 0 32 (cfg_tail c) = cfg_serial c" "bslice 0x40 32 (cfg_tail c) = cfg_model c"
    "bslice 0x84 32 (cfg_tail c) = cfg_soc_name c" "bslice 0xc8 64 (cfg_tail c) = cfg_seed c"
  using assms by (simp_all add: cfg_tail_def cfg_sized_def layout_simps)

lemma region_parts:
  assumes "cfg_sized (cfg s)"
  shows "length (vmapple_cfg_reset s) = 0x10000"
    "off + n \<le> 0x100 \<Longrightarrow> bslice off n (vmapple_cfg_reset s) = bslice off n (cfg_head (cfg s))"
    "0x100 \<le> off \<Longrightarrow> off + n \<le> 0x500 \<Longrightarrow> bslice off n (vmapple_cfg_reset s) = bslice (off - 0x100) n (cfg_cpus (cfg s))"
    "0x500 \<le> off \<Longrightarrow> off + n \<le> 0x608 \<Longrightarrow> bslice off n (vmapple_cfg_reset s) = bslice (off - 0x500) n (cfg_tail (cfg s))"
    "0x608 \<le> i \<Longrightarrow> i < 0x10000 \<Longrightarrow> vmapple_cfg_reset s ! i = 0"
proof -
  note ls = cfg_part_lengths [OF assms]
  have r: "vmapple_cfg_reset s = cfg_head (cfg s) @ cfg_cpus (cfg s) @ cfg_tail (cfg s) @ replicate 0xf9f8 0"
    by (simp add: vmapple_cfg_reset_def bsplice_def cfg_bytes_def ls)
  then show "length (vmapple_cfg_reset s) = 0x10000" by (simp add: ls)
  show "off + n \<le> 0x100 \<Longrightarrow> bslice off n (vmapple_cfg_reset s) = bslice off n (cfg_head (cfg s))"
    by (simp add: r layout_simps ls)
  show "0x100 \<le> off \<Longrightarrow> off + n \<le> 0x500 \<Longrightarrow> bslice off n (vmapple_cfg_reset s) = bslice (off - 0x100) n (cfg_cpus (cfg s))"
    by (simp add: r layout_simps ls)
  show "0x500 \<le> off \<Longrightarrow> off + n \<le> 0x608 \<Longrightarrow> bslice off n (vmapple_cfg_reset s) = bslice (off - 0x500) n (cfg_tail (cfg s))"
    by (simp add: r layout_simps ls)
  show "vmapple_cfg_reset s ! i = 0" if i: "0x608 \<le> i" "i < 0x10000"
  proof -
    have "\<not> i < 0x100" "\<not> i - 0x100 < 0x400" "\<not> i - 0x500 < 0x108" "i - 0x608 < 0xf9f8" using i by linarith+
    then show ?thesis by (simp add: r nth_append ls)
  qed
qed

section \<open>Realize\<close>

text \<open>What a reader of a fixed C array takes for the string in it.\<close>

definition cstring :: "bytes \<Rightarrow> bytes" where
  "cstring bs = takeWhile (\<lambda>b. b \<noteq> 0) bs"

lemma cstring_zero: "0 \<notin> set xs \<Longrightarrow> cstring (xs @ 0 # ys) = xs"
  by (induction xs) (auto simp: cstring_def)

lemma fixlen_ok: "fst (set_fixlen_property_or_error dst src) \<longleftrightarrow> length src < length dst"
  by (simp add: set_fixlen_property_or_error_def Let_def)

lemma set_fixlen:
  assumes "dst \<noteq> []"
  shows "length (snd (set_fixlen_property_or_error dst src)) = length dst"
    "0 \<notin> set src \<Longrightarrow> cstring (snd (set_fixlen_property_or_error dst src)) = take (length dst - 1) src"
proof -
  show "cstring (snd (set_fixlen_property_or_error dst src)) = take (length dst - 1) src" if z: "0 \<notin> set src"
  proof -
    have "0 \<notin> set (take n src)" for n using z by (meson in_set_takeD)
    then show ?thesis by (simp add: set_fixlen_property_or_error_def Let_def cstring_zero min_def)
  qed
  show "length (snd (set_fixlen_property_or_error dst src)) = length dst"
    using assms by (cases dst) (auto simp: set_fixlen_property_or_error_def Let_def)
qed

definition cfg_strings :: "VMAppleCfgState \<Rightarrow> bytes list" where
  "cfg_strings s = [default_to (ascii ''1234'') (serial s), default_to (ascii ''VM0001'') (model s),
     default_to (ascii ''Apple M1 (Virtual)'') (soc_name s)]"

text \<open>The structure that a successful realize leaves.\<close>

definition cfg_realized :: "bytes \<Rightarrow> VMAppleCfgState \<Rightarrow> VMAppleCfg" where
  "cfg_realized rnd s = (let c = cfg s; n = unat (cfg_nr_cpus c) in
     c\<lparr>cfg_serial := snd (set_fixlen_property_or_error (cfg_serial c) (cfg_strings s ! 0)),
       cfg_model := snd (set_fixlen_property_or_error (cfg_model c) (cfg_strings s ! 1)),
       cfg_soc_name := snd (set_fixlen_property_or_error (cfg_soc_name c) (cfg_strings s ! 2)),
       cfg_unk8 := snd (set_fixlen_property_or_error (cfg_unk8 c) (ascii ''D/A'')),
       cfg_version := 2, cfg_unk1 := (if production_mode s then 1 else 0), cfg_unk2 := 1, cfg_unk3 := 0x20,
       cfg_unk4 := 0, cfg_unk5 := 1, cfg_unk6 := 1, cfg_unk7 := 0, cfg_unk10 := 1, cfg_seed := rnd,
       cfg_cpu_ids := map of_nat [0..<n] @ drop n (cfg_cpu_ids c)\<rparr>)"

lemma realize_outcome:
  assumes "cfg_sized (cfg s)"
  shows "fst (vmapple_cfg_realize rnd s) \<longleftrightarrow> (\<forall>v\<in>set (cfg_strings s). length v < 32) \<and> cfg_nr_cpus (cfg s) \<le> 0x80"
    "fst (vmapple_cfg_realize rnd s) \<Longrightarrow> cfg (snd (vmapple_cfg_realize rnd s)) = cfg_realized rnd s"
proof -
  have ls: "length (cfg_serial (cfg s)) = 32" "length (cfg_model (cfg s)) = 32" "length (cfg_soc_name (cfg s)) = 32"
      "length (cfg_unk8 (cfg s)) = 32"
    using assms by (simp_all add: cfg_sized_def)
  have da: "length (ascii ''D/A'') < 32" by (simp add: ascii_def)
  have "fst (vmapple_cfg_realize rnd s) \<longleftrightarrow> (\<forall>v\<in>set (cfg_strings s). length v < 32) \<and> \<not> 0x80 < cfg_nr_cpus (cfg s)"
    using da by (simp add: vmapple_cfg_realize_def cfg_strings_def Let_def split_beta fixlen_ok ls)
  note ok = this
  then show "fst (vmapple_cfg_realize rnd s) \<longleftrightarrow> (\<forall>v\<in>set (cfg_strings s). length v < 32) \<and> cfg_nr_cpus (cfg s) \<le> 0x80"
    by (simp only: linorder_not_less)
  show "cfg (snd (vmapple_cfg_realize rnd s)) = cfg_realized rnd s" if "fst (vmapple_cfg_realize rnd s)"
  proof -
    have "length (cfg_strings s ! 0) < 32" "length (cfg_strings s ! 1) < 32" "length (cfg_strings s ! 2) < 32"
        "\<not> 0x80 < cfg_nr_cpus (cfg s)"
      using that unfolding ok by (simp_all add: cfg_strings_def)
    then show ?thesis
      using da by (simp add: vmapple_cfg_realize_def cfg_realized_def cfg_strings_def Let_def split_beta fixlen_ok ls)
  qed
qed

lemma realized_sized:
  assumes "cfg_sized (cfg s)" "length rnd = 64" "cfg_nr_cpus (cfg s) \<le> 0x80"
  shows "cfg_sized (cfg_realized rnd s)"
proof -
  have "unat (cfg_nr_cpus (cfg s)) \<le> 0x80" using assms(3) by (simp add: word_le_nat_alt)
  moreover have "cfg_serial (cfg s) \<noteq> []" "cfg_model (cfg s) \<noteq> []" "cfg_soc_name (cfg s) \<noteq> []" "cfg_unk8 (cfg s) \<noteq> []"
    using assms(1) by (auto simp: cfg_sized_def)
  ultimately show ?thesis
    using assms(1,2) by (simp add: cfg_sized_def cfg_realized_def Let_def set_fixlen)
qed

lemma init_sized: "cfg_sized (cfg vmapple_cfg_init)"
  by (simp add: cfg_sized_def vmapple_cfg_init_def)

lemma length_cfg_strings: "length (cfg_strings s) = 3"
  by (simp add: cfg_strings_def)

lemma realize_keeps_sizes:
  assumes "cfg_sized (cfg s)" "length rnd = 64"
  shows "cfg_sized (cfg (snd (vmapple_cfg_realize rnd s)))"
proof (cases "fst (vmapple_cfg_realize rnd s)")
  case True
  with assms show ?thesis by (simp add: realize_outcome realized_sized)
next
  case False
  have "cfg_serial (cfg s) \<noteq> []" "cfg_model (cfg s) \<noteq> []" "cfg_soc_name (cfg s) \<noteq> []" "cfg_unk8 (cfg s) \<noteq> []"
    using assms(1) by (auto simp: cfg_sized_def)
  with assms False show ?thesis
    by (simp add: vmapple_cfg_realize_def cfg_sized_def Let_def split_beta set_fixlen fixlen_ok split del: if_split split: if_splits)
qed

lemma realized_strings:
  assumes "cfg_sized (cfg s)" "\<forall>v\<in>set (cfg_strings s). length v < 32" "\<forall>v\<in>set (cfg_strings s). 0 \<notin> set v"
  shows "cstring (cfg_serial (cfg_realized rnd s)) = cfg_strings s ! 0"
    "cstring (cfg_model (cfg_realized rnd s)) = cfg_strings s ! 1"
    "cstring (cfg_soc_name (cfg_realized rnd s)) = cfg_strings s ! 2"
proof -
  have ne: "cfg_serial (cfg s) \<noteq> []" "cfg_model (cfg s) \<noteq> []" "cfg_soc_name (cfg s) \<noteq> []"
    using assms(1) by (auto simp: cfg_sized_def)
  have "length (cfg_strings s ! i) \<le> 31" "0 \<notin> set (cfg_strings s ! i)" if "i < 3" for i
    using assms(2,3) that nth_mem [of i "cfg_strings s"] by (simp_all add: length_cfg_strings less_Suc_eq_le [symmetric])
  then show "cstring (cfg_serial (cfg_realized rnd s)) = cfg_strings s ! 0"
    "cstring (cfg_model (cfg_realized rnd s)) = cfg_strings s ! 1"
    "cstring (cfg_soc_name (cfg_realized rnd s)) = cfg_strings s ! 2"
    using ne assms(1) by (simp_all add: cfg_realized_def Let_def set_fixlen cfg_sized_def)
qed

lemma realized_kept:
  "cfg_version (cfg_realized rnd s) = 2" "cfg_nr_cpus (cfg_realized rnd s) = cfg_nr_cpus (cfg s)"
  "cfg_ecid (cfg_realized rnd s) = cfg_ecid (cfg s)" "cfg_ram_size (cfg_realized rnd s) = cfg_ram_size (cfg s)"
  "cfg_rnd (cfg_realized rnd s) = cfg_rnd (cfg s)" "cfg_mac_en0 (cfg_realized rnd s) = cfg_mac_en0 (cfg s)"
  "cfg_mac_en1 (cfg_realized rnd s) = cfg_mac_en1 (cfg s)" "cfg_mac_wifi0 (cfg_realized rnd s) = cfg_mac_wifi0 (cfg s)"
  "cfg_mac_bt0 (cfg_realized rnd s) = cfg_mac_bt0 (cfg s)" "cfg_seed (cfg_realized rnd s) = rnd"
  "cfg_cpu_ids (cfg_realized rnd s) =
     map of_nat [0..<unat (cfg_nr_cpus (cfg s))] @ drop (unat (cfg_nr_cpus (cfg s))) (cfg_cpu_ids (cfg s))"
  by (simp_all add: cfg_realized_def Let_def)

section \<open>Properties\<close>

text \<open>
  C39: realize succeeds exactly when the serial number, model and SoC names fit
  their 32-byte fields with a terminator and at most 128 CPUs are configured; every
  other field of the structure is kept within its fixed size.
\<close>

theorem cfg_realize_bounds:
  assumes "cfg_sized (cfg s)" "length rnd = 64"
  shows "(fst (vmapple_cfg_realize rnd s) \<longleftrightarrow> (\<forall>v\<in>set (cfg_strings s). length v \<le> 31) \<and> cfg_nr_cpus (cfg s) \<le> 0x80) \<and>
    cfg_sized (cfg (snd (vmapple_cfg_realize rnd s)))"
  using realize_outcome(1) [OF assms(1)] realize_keeps_sizes [OF assms] by (simp add: less_eq_Suc_le)

theorem cfg_realize_bounds_witness:
  "(let s = vmapple_cfg_init\<lparr>model := Some (replicate 32 65)\<rparr>
    in \<not> fst (vmapple_cfg_realize (replicate 64 7) s) \<and> cfg_sized (cfg (snd (vmapple_cfg_realize (replicate 64 7) s)))) \<and>
   fst (vmapple_cfg_realize (replicate 64 7) vmapple_cfg_init)"
proof -
  define s where "s = vmapple_cfg_init\<lparr>model := Some (replicate 32 65)\<rparr>"
  have "cfg_sized (cfg s)" using init_sized by (simp add: s_def)
  from cfg_realize_bounds [OF this, of "replicate 64 7"] cfg_realize_bounds [OF init_sized, of "replicate 64 7"]
  show ?thesis
    unfolding s_def [symmetric] by (simp add: cfg_strings_def default_to_def s_def vmapple_cfg_init_def ascii_def)
qed

text \<open>
  C14: after a successful realize and a reset the firmware finds, at the offsets of the
  packed structure, version 2, the configured CPU count, ECID, RAM size, boot nonce and
  addresses, CPU \<open>i\<close> with id \<open>i\<close>, the three strings, and the random seed at its
  fixed offset 0x5c8; the rest of the 64 KiB region is zero.
\<close>

theorem cfg_guest_view:
  assumes "cfg_sized (cfg s)" "length rnd = 64" "\<forall>v\<in>set (cfg_strings s). 0 \<notin> set v"
    and "vmapple_cfg_realize rnd s = (True, s')"
  defines "m \<equiv> vmapple_cfg_reset s'" and "c \<equiv> cfg s"
  shows "length m = 0x10000 \<and> le32 (bslice 0 4 m) = 2 \<and> le32 (bslice 4 4 m) = cfg_nr_cpus c \<and>
    le64 (bslice 0x18 8 m) = cfg_ecid c \<and> le64 (bslice 0x20 8 m) = cfg_ram_size c \<and> le32 (bslice 0x38 4 m) = cfg_rnd c \<and>
    bslice 0x40 6 m = cfg_mac_en0 c \<and> bslice 0x48 6 m = cfg_mac_en1 c \<and> bslice 0x50 6 m = cfg_mac_wifi0 c \<and>
    bslice 0x58 6 m = cfg_mac_bt0 c \<and>
    (\<forall>i<unat (cfg_nr_cpus c). le32 (bslice (0x100 + 4 * i) 4 m) = of_nat i) \<and>
    [cstring (bslice 0x500 32 m), cstring (bslice 0x540 32 m), cstring (bslice 0x584 32 m)] = cfg_strings s \<and>
    bslice 0x5c8 64 m = rnd \<and> (\<forall>i. 0x608 \<le> i \<and> i < 0x10000 \<longrightarrow> m ! i = 0)"
proof -
  have ok: "fst (vmapple_cfg_realize rnd s)" and s': "s' = snd (vmapple_cfg_realize rnd s)" using assms(4) by simp_all
  have fits: "\<forall>v\<in>set (cfg_strings s). length v < 32" "cfg_nr_cpus (cfg s) \<le> 0x80" and
    c': "cfg s' = cfg_realized rnd s"
    using ok realize_outcome [OF assms(1)] by (simp_all add: s')
  have sz: "cfg_sized (cfg s')" using realized_sized assms(1,2) fits(2) by (simp add: c')
  note strings = realized_strings [OF assms(1) fits(1) assms(3), of rnd]
    and parts = region_parts [OF sz] and fields = cfg_head_fields [OF sz] cfg_tail_fields [OF sz]
  have n: "unat (cfg_nr_cpus (cfg s)) \<le> 0x80" using fits(2) by (simp add: word_le_nat_alt)
  have ids: "le32 (bslice (0x100 + 4 * i) 4 m) = of_nat i" if "i < unat (cfg_nr_cpus c)" for i
  proof -
    have "length (cfg_cpu_ids (cfg s')) = 0x80" using sz by (simp add: cfg_sized_def)
    then have "bslice (4 * i) 4 (cfg_cpus (cfg s')) = to_le32 (cfg_cpu_ids (cfg s') ! i)"
      using that n by (simp add: cfg_cpus_def bslice_concat_le32 bslice_append_left length_concat_le32 c_def)
    also have "cfg_cpu_ids (cfg s') ! i = of_nat i"
      using that by (simp add: c' realized_kept nth_append c_def)
    finally show ?thesis using that n by (simp add: m_def parts c_def)
  qed
  have strs: "[cstring (bslice 0x500 32 m), cstring (bslice 0x540 32 m), cstring (bslice 0x584 32 m)] = cfg_strings s"
    by (simp add: m_def parts fields) (simp add: c' strings, simp add: cfg_strings_def)
  have tail: "\<forall>i. 0x608 \<le> i \<and> i < 0x10000 \<longrightarrow> m ! i = 0" using parts(5) by (simp add: m_def)
  have head: "length m = 0x10000" "bslice 0 4 m = to_le32 2" "bslice 4 4 m = to_le32 (cfg_nr_cpus c)"
    "bslice 0x18 8 m = to_le64 (cfg_ecid c)" "bslice 0x20 8 m = to_le64 (cfg_ram_size c)"
    "bslice 0x38 4 m = to_le32 (cfg_rnd c)" "bslice 0x40 6 m = cfg_mac_en0 c" "bslice 0x48 6 m = cfg_mac_en1 c"
    "bslice 0x50 6 m = cfg_mac_wifi0 c" "bslice 0x58 6 m = cfg_mac_bt0 c" "bslice 0x5c8 64 m = rnd"
    by (simp_all add: m_def parts fields) (simp_all add: c' realized_kept c_def)
  show ?thesis using ids by (simp only: head strs le_to_le_nil) (simp add: tail)
qed

theorem cfg_guest_view_witness:
  "let r = vmapple_cfg_realize (replicate 64 7) (vmapple_cfg_init\<lparr>soc_name := Some (ascii ''M'')\<rparr>); m = vmapple_cfg_reset (snd r)
   in fst r \<and> le32 (bslice 4 4 m) = 1 \<and> cstring (bslice 0x500 32 m) = ascii ''1234'' \<and>
     cstring (bslice 0x584 32 m) = ascii ''M'' \<and> bslice 0x5c8 64 m = replicate 64 7 \<and> m ! 0x700 = 0"
proof -
  define s where "s = vmapple_cfg_init\<lparr>soc_name := Some (ascii ''M'')\<rparr>"
  have sz: "cfg_sized (cfg s)" using init_sized by (simp add: s_def)
  have strs: "cfg_strings s = [ascii ''1234'', ascii ''VM0001'', ascii ''M'']" and n: "cfg_nr_cpus (cfg s) = 1"
    by (simp_all add: s_def vmapple_cfg_init_def cfg_strings_def default_to_def)
  have ok: "fst (vmapple_cfg_realize (replicate 64 7) s)"
    by (simp add: realize_outcome(1) [OF sz] strs n) (simp add: ascii_def)
  then have "vmapple_cfg_realize (replicate 64 7) s = (True, snd (vmapple_cfg_realize (replicate 64 7) s))"
    by (simp add: prod_eq_iff)
  moreover have "\<forall>v\<in>set (cfg_strings s). 0 \<notin> set v" by (simp add: strs) (simp add: ascii_def)
  ultimately show ?thesis
    using cfg_guest_view [OF sz, of "replicate 64 7"] ok by (simp add: Let_def strs n flip: s_def)
qed

end
