(* ===== verification/Machine.thy ===== *)
theory Machine
  imports Psci Gicv2m Cfg
begin

text \<open>
  The board, \<^verbatim>\<open>hw/vmapple/vmapple.c\<close>: its address map, its interrupt wiring, the CPUs
  it creates and their reset.  A board is what the machine's initialisation has
  mapped and wired; PCI devices plugged behind the host bridge are not part of it.
\<close>

section \<open>Address and interrupt map\<close>

datatype vmapple_slot =
    VMAPPLE_FIRMWARE | VMAPPLE_CONFIG | VMAPPLE_MEM | VMAPPLE_GIC_DIST | VMAPPLE_GIC_REDIST | VMAPPLE_GICV2M
  | VMAPPLE_UART | VMAPPLE_RTC | VMAPPLE_PCIE | VMAPPLE_PCIE_MMIO | VMAPPLE_PCIE_ECAM | VMAPPLE_GPIO
  | VMAPPLE_PVPANIC | VMAPPLE_APV_GFX | VMAPPLE_APV_IOSFC | VMAPPLE_AES_1 | VMAPPLE_AES_2 | VMAPPLE_BDOOR

definition memmap :: "vmapple_slot \<Rightarrow> u64 \<times> u64" where
  "memmap slot = (case slot of
       VMAPPLE_FIRMWARE \<Rightarrow> (0x00100000, 0x00100000)
     | VMAPPLE_CONFIG \<Rightarrow> (0x00400000, 0x00010000)
     | VMAPPLE_GIC_DIST \<Rightarrow> (0x10000000, 0x00010000)
     | VMAPPLE_GIC_REDIST \<Rightarrow> (0x10010000, 0x00400000)
     | VMAPPLE_GICV2M \<Rightarrow> (0x1FFF0000, 0x00010000)
     | VMAPPLE_UART \<Rightarrow> (0x20010000, 0x00010000)
     | VMAPPLE_RTC \<Rightarrow> (0x20050000, 0x00001000)
     | VMAPPLE_GPIO \<Rightarrow> (0x20060000, 0x00001000)
     | VMAPPLE_PVPANIC \<Rightarrow> (0x20070000, 0x00000002)
     | VMAPPLE_BDOOR \<Rightarrow> (0x30000000, 0x00200000)
     | VMAPPLE_APV_GFX \<Rightarrow> (0x30200000, 0x00010000)
     | VMAPPLE_APV_IOSFC \<Rightarrow> (0x30210000, 0x00010000)
     | VMAPPLE_AES_1 \<Rightarrow> (0x30220000, 0x00004000)
     | VMAPPLE_AES_2 \<Rightarrow> (0x30230000, 0x00004000)
     | VMAPPLE_PCIE_ECAM \<Rightarrow> (0x40000000, 0x10000000)
     | VMAPPLE_PCIE_MMIO \<Rightarrow> (0x50000000, 0x1fff0000)
     | VMAPPLE_MEM \<Rightarrow> (0x70000000, 0x40000000)
     | VMAPPLE_PCIE \<Rightarrow> (0, 0))"

definition irqmap :: "vmapple_slot \<Rightarrow> nat" where
  "irqmap slot = (case slot of
       VMAPPLE_UART \<Rightarrow> 1
     | VMAPPLE_RTC \<Rightarrow> 2
     | VMAPPLE_GPIO \<Rightarrow> 0x5
     | VMAPPLE_APV_IOSFC \<Rightarrow> 0x10
     | VMAPPLE_APV_GFX \<Rightarrow> 0x11
     | VMAPPLE_AES_1 \<Rightarrow> 0x12
     | VMAPPLE_PCIE \<Rightarrow> 0x20
     | VMAPPLE_GICV2M \<Rightarrow> 0x80
     | _ \<Rightarrow> 0)"

abbreviation (input) NUM_IRQS :: nat where "NUM_IRQS \<equiv> 256"
abbreviation (input) GIC_INTERNAL :: nat where "GIC_INTERNAL \<equiv> 32"
abbreviation (input) GPEX_NUM_IRQS :: nat where "GPEX_NUM_IRQS \<equiv> 16"
abbreviation (input) NUM_GICV2M_SPIS :: nat where "NUM_GICV2M_SPIS \<equiv> 128"
abbreviation (input) GICV3_REDIST_SIZE :: nat where "GICV3_REDIST_SIZE \<equiv> 0x20000"
abbreviation (input) GICV3_MAXIRQ :: nat where "GICV3_MAXIRQ \<equiv> 1020"

section \<open>State\<close>

datatype init_error =
    ERR_gic | ERR_gicv2m | ERR_no_aux | ERR_no_root | ERR_cfg | ERR_no_firmware | ERR_firmware_not_found
  | ERR_firmware_load | ERR_kernel

datatype root_drive = PFLASH_1 | VIRTIO_0

datatype cpu_line = ARM_CPU_IRQ | ARM_CPU_FIQ

text \<open>
  What the command line and the build decide: CPU and RAM counts, the CPU model
  (its object before the machine sets properties, and whether it has a counter
  frequency property), drives, firmware file (absent, not found, contents),
  the GPU device classes in the build with the sizes of their two regions, and the
  random numbers drawn.
\<close>

record machine_config =
  smp_cpus :: nat
  smp_max_cpus :: nat
  mc_ram_size :: u64
  mc_uuid :: u64
  mc_cpu_model :: ARMCPU
  mc_has_cntfrq :: bool
  mc_tcg :: bool
  mc_no_gfx :: bool
  mc_class :: "string \<Rightarrow> (u64 \<times> u64) option"
  mc_pflash0 :: bool
  mc_pflash1 :: bool
  mc_virtio0 :: bool
  mc_firmware :: "bytes option option"
  mc_kernel :: bool
  mc_cfg :: VMAppleCfgState
  mc_rnd :: u32
  mc_seed :: bytes

text \<open>
  A board: mapped regions (slot, base, size), device lines wired to GIC inputs
  (slot, line, input), each CPU's timer input, GIC outputs wired to CPU lines,
  and the configured devices.
\<close>

record board =
  bd_cpus :: "ARMCPU list"
  bd_regions :: "(vmapple_slot \<times> u64 \<times> u64) list"
  bd_wires :: "(vmapple_slot \<times> nat \<times> nat) list"
  bd_timers :: "(nat \<times> nat) list"
  bd_gic_out :: "(nat \<times> nat \<times> cpu_line) list"
  bd_gicv2m :: ARMGICv2mState
  bd_root :: root_drive
  bd_pci_irq_num :: "nat list"
  bd_power_pin :: nat
  bd_cfg :: VMAppleCfgState
  bd_firmware :: bytes

definition bind_board :: "init_error + 'a \<Rightarrow> ('a \<Rightarrow> init_error + 'b) \<Rightarrow> init_error + 'b" where
  "bind_board r f = (case r of Inl e \<Rightarrow> Inl e | Inr b \<Rightarrow> f b)"

text \<open>Mapping the region of a device at its slot, and wiring a line of it.\<close>

definition map_at :: "vmapple_slot \<Rightarrow> u64 \<Rightarrow> board \<Rightarrow> board" where
  "map_at slot n b = b\<lparr>bd_regions := bd_regions b @ [(slot, fst (memmap slot), n)]\<rparr>"

definition wire :: "vmapple_slot \<Rightarrow> nat \<Rightarrow> nat \<Rightarrow> board \<Rightarrow> board" where
  "wire slot line input b = b\<lparr>bd_wires := bd_wires b @ [(slot, line, input)]\<rparr>"

section \<open>CPUs\<close>

definition arm_build_mp_affinity :: "nat \<Rightarrow> nat \<Rightarrow> u64" where
  "arm_build_mp_affinity idx clustersz = ucast (push_bit 8 (of_nat (idx div clustersz)) OR of_nat (idx mod clustersz) :: u32)"

definition vmapple_possible_cpu_arch_ids :: "nat \<Rightarrow> u64 list" where
  "vmapple_possible_cpu_arch_ids max_cpus = map (\<lambda>n. arm_build_mp_affinity n 16) [0..<max_cpus]"

text \<open>Without the EL2 feature EL2 is not enabled in any state.\<close>

definition create_cpu :: "machine_config \<Rightarrow> nat \<Rightarrow> u64 \<Rightarrow> ARMCPU" where
  "create_cpu mc n arch_id =
     (let c = (mc_cpu_model mc)\<lparr>cpu_mp_affinity := arch_id, feat_el3 := False, feat_el2 := False,
            cpu_el2_enabled := False, cpu_psci_conduit := CONDUIT_HVC\<rparr>;
          c1 = (if mc_tcg mc \<and> mc_has_cntfrq mc then c\<lparr>cpu_gt_cntfrq_hz := 24000000\<rparr> else c);
          c2 = (if 0 < n then c1\<lparr>cpu_start_powered_off := True\<rparr> else c1)
      in cpu_reset c2)"

definition create_cpus :: "machine_config \<Rightarrow> ARMCPU list" where
  "create_cpus mc = map (\<lambda>(n, arch_id). create_cpu mc n arch_id)
     (take (smp_cpus mc) (enumerate 0 (vmapple_possible_cpu_arch_ids (smp_max_cpus mc))))"

section \<open>Devices\<close>

definition arm_gicv3_common_realize :: "nat \<Rightarrow> nat \<Rightarrow> nat \<Rightarrow> nat list \<Rightarrow> bool \<Rightarrow> bool \<Rightarrow> bool" where
  "arm_gicv3_common_realize revision num_irq num_cpu redist_region_count lpi_enable dma =
     ((revision = 3 \<or> revision = 4) \<and> num_irq \<le> GICV3_MAXIRQ \<and> GIC_INTERNAL \<le> num_irq \<and> num_cpu \<noteq> 0 \<and>
      num_irq mod 32 = 0 \<and> \<not> (lpi_enable \<and> \<not> dma) \<and> sum_list redist_region_count = num_cpu)"

definition gic_num_inputs :: "nat \<Rightarrow> nat \<Rightarrow> nat" where
  "gic_num_inputs num_irq num_cpu = num_irq - GIC_INTERNAL + GIC_INTERNAL * num_cpu"

definition arm_gic_ppi_index :: "nat \<Rightarrow> nat \<Rightarrow> nat" where
  "arm_gic_ppi_index cpu_nr ppi_index = NUM_IRQS + cpu_nr * GIC_INTERNAL + ppi_index"

definition create_gic :: "machine_config \<Rightarrow> board \<Rightarrow> init_error + board" where
  "create_gic mc b =
     (let n = smp_cpus mc;
          redist0_capacity = unat (snd (memmap VMAPPLE_GIC_REDIST)) div GICV3_REDIST_SIZE;
          redist0_count = min n redist0_capacity
      in if \<not> arm_gicv3_common_realize 3 (NUM_IRQS + 32) n [redist0_count] False False then Inl ERR_gic
         else let b1 = map_at VMAPPLE_GIC_REDIST (of_nat (redist0_count * GICV3_REDIST_SIZE)) (map_at VMAPPLE_GIC_DIST 0x10000 b)
           in Inr (b1\<lparr>bd_timers := bd_timers b1 @ map (\<lambda>i. (i, arm_gic_ppi_index i 27)) [0..<n],
                bd_gic_out := bd_gic_out b1 @ concat (map (\<lambda>i. [(i, i, ARM_CPU_IRQ), (i + n, i, ARM_CPU_FIQ)]) [0..<n])\<rparr>))"

definition create_gicv2m :: "board \<Rightarrow> init_error + board" where
  "create_gicv2m b =
     (let irq = irqmap VMAPPLE_GICV2M;
          dev = \<lparr>base_spi = of_nat irq, num_spi = of_nat NUM_GICV2M_SPIS, macos_compat = 1\<rparr>
      in if \<not> gicv2m_realize dev then Inl ERR_gicv2m
         else Inr (fold (\<lambda>i. wire VMAPPLE_GICV2M i (irq + i)) [0..<NUM_GICV2M_SPIS]
                (map_at VMAPPLE_GICV2M 0x1000 (b\<lparr>bd_gicv2m := dev\<rparr>))))"

definition create_bdif :: "machine_config \<Rightarrow> board \<Rightarrow> init_error + board" where
  "create_bdif mc b =
     (if \<not> mc_pflash0 mc then Inl ERR_no_aux
      else if \<not> mc_pflash1 mc \<and> \<not> mc_virtio0 mc then Inl ERR_no_root
      else Inr (map_at VMAPPLE_BDOOR 0x00200000 (b\<lparr>bd_root := if mc_pflash1 mc then PFLASH_1 else VIRTIO_0\<rparr>)))"

definition create_pvpanic :: "board \<Rightarrow> board" where
  "create_pvpanic b = map_at VMAPPLE_PVPANIC 2 b"

definition create_aes :: "board \<Rightarrow> board" where
  "create_aes b =
     wire VMAPPLE_AES_1 0 (irqmap VMAPPLE_AES_1) (map_at VMAPPLE_AES_2 0x4000 (map_at VMAPPLE_AES_1 0x4000 b))"

definition create_gfx :: "machine_config \<Rightarrow> board \<Rightarrow> board" where
  "create_gfx mc b =
     (case (if mc_no_gfx mc then None
            else case mc_class mc ''reims-vgpu-mmio'' of
              Some sizes \<Rightarrow> Some sizes
            | None \<Rightarrow> mc_class mc ''apple-gfx-mmio'') of
        None \<Rightarrow> map_at VMAPPLE_APV_IOSFC (snd (memmap VMAPPLE_APV_IOSFC))
          (map_at VMAPPLE_APV_GFX (snd (memmap VMAPPLE_APV_GFX)) b)
      | Some (gfx, iosfc) \<Rightarrow>
          wire VMAPPLE_APV_IOSFC 1 (irqmap VMAPPLE_APV_IOSFC) (wire VMAPPLE_APV_GFX 0 (irqmap VMAPPLE_APV_GFX)
            (map_at VMAPPLE_APV_IOSFC iosfc (map_at VMAPPLE_APV_GFX gfx b))))"

text \<open>The stub of a headless machine: reads give zero, writes are dropped.\<close>

definition vmapple_stub_read :: "u64 \<Rightarrow> nat \<Rightarrow> u64" where
  "vmapple_stub_read offset sz = 0"

definition create_uart :: "vmapple_slot \<Rightarrow> board \<Rightarrow> board" where
  "create_uart uart b = wire uart 0 (irqmap uart) (map_at uart 0x1000 b)"

definition create_rtc :: "board \<Rightarrow> board" where
  "create_rtc b = wire VMAPPLE_RTC 0 (irqmap VMAPPLE_RTC) (map_at VMAPPLE_RTC 0x1000 b)"

text \<open>The bridge's inputs, with the numbers it reports for them.\<close>

definition create_pcie :: "board \<Rightarrow> board" where
  "create_pcie b =
     (let irq = irqmap VMAPPLE_PCIE;
          b1 = map_at VMAPPLE_PCIE_MMIO (snd (memmap VMAPPLE_PCIE_MMIO))
                 (map_at VMAPPLE_PCIE_ECAM (snd (memmap VMAPPLE_PCIE_ECAM)) b)
      in fold (\<lambda>i b. (wire VMAPPLE_PCIE i (irq + i) b)\<lparr>bd_pci_irq_num := bd_pci_irq_num b @ [irq + i]\<rparr>) [0..<GPEX_NUM_IRQS] b1)"

definition create_gpio_devices :: "vmapple_slot \<Rightarrow> board \<Rightarrow> board" where
  "create_gpio_devices gpio b = (wire gpio 0 (irqmap gpio) (map_at gpio 0x1000 b))\<lparr>bd_power_pin := 3\<rparr>"

definition create_cfg :: "machine_config \<Rightarrow> board \<Rightarrow> init_error + board" where
  "create_cfg mc b =
     (let b1 = map_at VMAPPLE_CONFIG 0x10000 b;
          dev = (mc_cfg mc)\<lparr>cfg := (cfg (mc_cfg mc))\<lparr>cfg_nr_cpus := of_nat (smp_cpus mc), cfg_ecid := mc_uuid mc,
            cfg_ram_size := mc_ram_size mc, cfg_rnd := mc_rnd mc\<rparr>\<rparr>;
          (ok, dev') = vmapple_cfg_realize (mc_seed mc) dev
      in if ok then Inr (b1\<lparr>bd_cfg := dev'\<rparr>) else Inl ERR_cfg)"

definition load_image_mr :: "bytes \<Rightarrow> nat \<Rightarrow> bytes option" where
  "load_image_mr img mr_size = (if mr_size < length img then None else Some (img @ replicate (mr_size - length img) 0))"

definition vmapple_firmware_init :: "machine_config \<Rightarrow> board \<Rightarrow> init_error + board" where
  "vmapple_firmware_init mc b =
     (case mc_firmware mc of
        None \<Rightarrow> Inl ERR_no_firmware
      | Some None \<Rightarrow> Inl ERR_firmware_not_found
      | Some (Some img) \<Rightarrow>
          (case load_image_mr img (unat (snd (memmap VMAPPLE_FIRMWARE))) of
             None \<Rightarrow> Inl ERR_firmware_load
           | Some mr \<Rightarrow> Inr (map_at VMAPPLE_FIRMWARE (snd (memmap VMAPPLE_FIRMWARE)) (b\<lparr>bd_firmware := mr\<rparr>))))"

text \<open>With firmware loaded and no conduit of its own, a kernel is the only thing to refuse.\<close>

definition arm_load_kernel :: "machine_config \<Rightarrow> board \<Rightarrow> init_error + board" where
  "arm_load_kernel mc b = (if mc_kernel mc then Inl ERR_kernel else Inr b)"

definition board_empty :: "machine_config \<Rightarrow> board" where
  "board_empty mc = \<lparr>bd_cpus = [], bd_regions = [], bd_wires = [], bd_timers = [], bd_gic_out = [],
     bd_gicv2m = \<lparr>base_spi = 0, num_spi = 64, macos_compat = 0\<rparr>, bd_root = PFLASH_1, bd_pci_irq_num = [],
     bd_power_pin = 0, bd_cfg = mc_cfg mc, bd_firmware = []\<rparr>"

definition mach_vmapple_init :: "machine_config \<Rightarrow> init_error + board" where
  "mach_vmapple_init mc =
     bind_board (create_gic mc (map_at VMAPPLE_MEM (mc_ram_size mc) ((board_empty mc)\<lparr>bd_cpus := create_cpus mc\<rparr>))) (\<lambda>b.
     bind_board (create_gicv2m b) (\<lambda>b.
     bind_board (create_bdif mc b) (\<lambda>b.
     bind_board (create_cfg mc (create_gpio_devices VMAPPLE_GPIO (create_pcie (create_rtc (create_uart VMAPPLE_UART
       (create_gfx mc (create_aes (create_pvpanic b)))))))) (\<lambda>b.
     bind_board (vmapple_firmware_init mc b) (arm_load_kernel mc)))))"

section \<open>Reset\<close>

text \<open>The CPUs' handlers run first, then the machine's own.\<close>

definition vmapple_reset :: "(nat \<Rightarrow> u64 \<times> u64) \<Rightarrow> psci_sys \<Rightarrow> psci_sys option" where
  "vmapple_reset rand s =
     map_option (\<lambda>hs. s\<lparr>sys_hvc := hs,
         sys_cpus := (sys_cpus s)[0 := cpu_set_pc (sys_cpus s ! 0) (fst (memmap VMAPPLE_FIRMWARE))]\<rparr>)
       (vmapple_hvc_reset rand (sys_hvc s))"

definition system_reset :: "(nat \<Rightarrow> u64 \<times> u64) \<Rightarrow> psci_sys \<Rightarrow> psci_sys option" where
  "system_reset rand s = vmapple_reset rand (s\<lparr>sys_cpus := map cpu_reset (sys_cpus s)\<rparr>)"

section \<open>The finished board\<close>

lemma fold_wire:
  "fold (\<lambda>i. wire slot i (k + i)) is b = b\<lparr>bd_wires := bd_wires b @ map (\<lambda>i. (slot, i, k + i)) is\<rparr>"
  by (induction "is" arbitrary: b) (simp_all add: wire_def)

lemma fold_pcie:
  "fold (\<lambda>i b. (wire slot i (k + i) b)\<lparr>bd_pci_irq_num := bd_pci_irq_num b @ [k + i]\<rparr>) is b =
    b\<lparr>bd_wires := bd_wires b @ map (\<lambda>i. (slot, i, k + i)) is,
      bd_pci_irq_num := bd_pci_irq_num b @ map (\<lambda>i. k + i) is\<rparr>"
  by (induction "is" arbitrary: b) (simp_all add: wire_def)

definition gfx_device :: "machine_config \<Rightarrow> (u64 \<times> u64) option" where
  "gfx_device mc = (if mc_no_gfx mc then None
     else case mc_class mc ''reims-vgpu-mmio'' of Some sizes \<Rightarrow> Some sizes | None \<Rightarrow> mc_class mc ''apple-gfx-mmio'')"

definition gfx_sizes :: "machine_config \<Rightarrow> u64 \<times> u64" where
  "gfx_sizes mc = (case gfx_device mc of Some sizes \<Rightarrow> sizes | None \<Rightarrow> (0x10000, 0x10000))"

definition board_sizes :: "machine_config \<Rightarrow> (vmapple_slot \<times> u64) list" where
  "board_sizes mc =
     [(VMAPPLE_MEM, mc_ram_size mc), (VMAPPLE_GIC_DIST, 0x10000), (VMAPPLE_GIC_REDIST, of_nat (smp_cpus mc * 0x20000)),
      (VMAPPLE_GICV2M, 0x1000), (VMAPPLE_BDOOR, 0x200000), (VMAPPLE_PVPANIC, 2), (VMAPPLE_AES_1, 0x4000),
      (VMAPPLE_AES_2, 0x4000), (VMAPPLE_APV_GFX, fst (gfx_sizes mc)), (VMAPPLE_APV_IOSFC, snd (gfx_sizes mc)),
      (VMAPPLE_UART, 0x1000), (VMAPPLE_RTC, 0x1000), (VMAPPLE_PCIE_ECAM, 0x10000000), (VMAPPLE_PCIE_MMIO, 0x1fff0000),
      (VMAPPLE_GPIO, 0x1000), (VMAPPLE_CONFIG, 0x10000), (VMAPPLE_FIRMWARE, 0x100000)]"

definition board_wires :: "machine_config \<Rightarrow> (vmapple_slot \<times> nat \<times> nat) list" where
  "board_wires mc =
     map (\<lambda>i. (VMAPPLE_GICV2M, i, 0x80 + i)) [0..<128] @ [(VMAPPLE_AES_1, 0, 0x12)] @
     (case gfx_device mc of None \<Rightarrow> [] | Some _ \<Rightarrow> [(VMAPPLE_APV_GFX, 0, 0x11), (VMAPPLE_APV_IOSFC, 1, 0x10)]) @
     [(VMAPPLE_UART, 0, 1), (VMAPPLE_RTC, 0, 2)] @ map (\<lambda>i. (VMAPPLE_PCIE, i, 0x20 + i)) [0..<16] @ [(VMAPPLE_GPIO, 0, 5)]"

lemma map_at_simps [simp]:
  "bd_regions (map_at s n b) = bd_regions b @ [(s, fst (memmap s), n)]" "bd_wires (map_at s n b) = bd_wires b"
  "bd_cpus (map_at s n b) = bd_cpus b" "bd_timers (map_at s n b) = bd_timers b" "bd_gicv2m (map_at s n b) = bd_gicv2m b"
  "bd_cfg (map_at s n b) = bd_cfg b"
  by (simp_all add: map_at_def)

lemma wire_simps [simp]:
  "bd_regions (wire s l i b) = bd_regions b" "bd_wires (wire s l i b) = bd_wires b @ [(s, l, i)]"
  "bd_cpus (wire s l i b) = bd_cpus b" "bd_timers (wire s l i b) = bd_timers b" "bd_gicv2m (wire s l i b) = bd_gicv2m b"
  "bd_cfg (wire s l i b) = bd_cfg b"
  by (simp_all add: wire_def)

lemma create_gfx_simps:
  "bd_regions (create_gfx mc b) = bd_regions b @ [(VMAPPLE_APV_GFX, 0x30200000, fst (gfx_sizes mc)), (VMAPPLE_APV_IOSFC, 0x30210000, snd (gfx_sizes mc))]"
  "bd_wires (create_gfx mc b) = bd_wires b @
     (case gfx_device mc of None \<Rightarrow> [] | Some _ \<Rightarrow> [(VMAPPLE_APV_GFX, 0, 0x11), (VMAPPLE_APV_IOSFC, 1, 0x10)])"
  "bd_cpus (create_gfx mc b) = bd_cpus b" "bd_timers (create_gfx mc b) = bd_timers b"
  "bd_gicv2m (create_gfx mc b) = bd_gicv2m b" "bd_cfg (create_gfx mc b) = bd_cfg b"
proof -
  have "create_gfx mc b = (case gfx_device mc of
      None \<Rightarrow> map_at VMAPPLE_APV_IOSFC (snd (memmap VMAPPLE_APV_IOSFC)) (map_at VMAPPLE_APV_GFX (snd (memmap VMAPPLE_APV_GFX)) b)
    | Some (gfx, iosfc) \<Rightarrow>
        wire VMAPPLE_APV_IOSFC 1 (irqmap VMAPPLE_APV_IOSFC) (wire VMAPPLE_APV_GFX 0 (irqmap VMAPPLE_APV_GFX)
          (map_at VMAPPLE_APV_IOSFC iosfc (map_at VMAPPLE_APV_GFX gfx b))))"
    by (simp only: create_gfx_def gfx_device_def)
  note e = this
  show "bd_regions (create_gfx mc b) = bd_regions b @ [(VMAPPLE_APV_GFX, 0x30200000, fst (gfx_sizes mc)), (VMAPPLE_APV_IOSFC, 0x30210000, snd (gfx_sizes mc))]"
    by (simp add: e gfx_sizes_def memmap_def split: option.split prod.split)
  show "bd_wires (create_gfx mc b) = bd_wires b @
     (case gfx_device mc of None \<Rightarrow> [] | Some _ \<Rightarrow> [(VMAPPLE_APV_GFX, 0, 0x11), (VMAPPLE_APV_IOSFC, 1, 0x10)])"
    by (simp add: e irqmap_def split: option.split prod.split)
  show "bd_cpus (create_gfx mc b) = bd_cpus b" "bd_timers (create_gfx mc b) = bd_timers b"
    "bd_gicv2m (create_gfx mc b) = bd_gicv2m b" "bd_cfg (create_gfx mc b) = bd_cfg b"
    by (simp_all add: e split: option.split prod.split)
qed

lemma bind_board_Inr: "bind_board r f = Inr c \<longleftrightarrow> (\<exists>b. r = Inr b \<and> f b = Inr c)"
  by (simp add: bind_board_def split: sum.split)

lemma create_gic_Inr:
  "create_gic mc b = Inr b' \<Longrightarrow> 0 < smp_cpus mc \<and> smp_cpus mc \<le> 32 \<and>
    bd_regions b' = bd_regions b @ [(VMAPPLE_GIC_DIST, 0x10000000, 0x10000), (VMAPPLE_GIC_REDIST, 0x10010000, of_nat (smp_cpus mc * 0x20000))] \<and>
    bd_wires b' = bd_wires b \<and> bd_cpus b' = bd_cpus b \<and>
    bd_timers b' = bd_timers b @ map (\<lambda>i. (i, arm_gic_ppi_index i 27)) [0..<smp_cpus mc]"
  by (auto simp: create_gic_def arm_gicv3_common_realize_def Let_def memmap_def min_def split: if_split_asm)

lemma create_gicv2m_Inr:
  "create_gicv2m b = Inr b' \<Longrightarrow>
    bd_regions b' = bd_regions b @ [(VMAPPLE_GICV2M, 0x1fff0000, 0x1000)] \<and>
    bd_wires b' = bd_wires b @ map (\<lambda>i. (VMAPPLE_GICV2M, i, 0x80 + i)) [0..<128] \<and>
    bd_cpus b' = bd_cpus b \<and> bd_timers b' = bd_timers b \<and> bd_gicv2m b' = \<lparr>base_spi = 0x80, num_spi = 128, macos_compat = 1\<rparr>"
  unfolding create_gicv2m_def Let_def fold_wire
  by (simp add: memmap_def irqmap_def del: upt.simps upt_rec_numeral split: if_split_asm) (erule subst, simp add: memmap_def del: upt.simps upt_rec_numeral)

lemma create_bdif_Inr:
  "create_bdif mc b = Inr b' \<Longrightarrow> mc_pflash0 mc \<and> (mc_pflash1 mc \<or> mc_virtio0 mc) \<and>
    bd_regions b' = bd_regions b @ [(VMAPPLE_BDOOR, 0x30000000, 0x200000)] \<and> bd_wires b' = bd_wires b \<and>
    bd_cpus b' = bd_cpus b \<and> bd_timers b' = bd_timers b \<and> bd_gicv2m b' = bd_gicv2m b"
  by (auto simp: create_bdif_def memmap_def split: if_split_asm)

definition cfg_device :: "machine_config \<Rightarrow> VMAppleCfgState" where
  "cfg_device mc = (mc_cfg mc)\<lparr>cfg := (cfg (mc_cfg mc))\<lparr>cfg_nr_cpus := of_nat (smp_cpus mc), cfg_ecid := mc_uuid mc,
     cfg_ram_size := mc_ram_size mc, cfg_rnd := mc_rnd mc\<rparr>\<rparr>"

lemma create_cfg_Inr:
  "create_cfg mc b = Inr b' \<Longrightarrow> vmapple_cfg_realize (mc_seed mc) (cfg_device mc) = (True, bd_cfg b') \<and>
    bd_regions b' = bd_regions b @ [(VMAPPLE_CONFIG, 0x400000, 0x10000)] \<and> bd_wires b' = bd_wires b \<and>
    bd_cpus b' = bd_cpus b \<and> bd_timers b' = bd_timers b \<and> bd_gicv2m b' = bd_gicv2m b"
  unfolding create_cfg_def cfg_device_def [symmetric] Let_def
  by (cases "vmapple_cfg_realize (mc_seed mc) (cfg_device mc)") (auto simp: memmap_def split: if_split_asm)

lemma firmware_init_Inr:
  "vmapple_firmware_init mc b = Inr b' \<Longrightarrow>
    bd_regions b' = bd_regions b @ [(VMAPPLE_FIRMWARE, 0x100000, 0x100000)] \<and> bd_wires b' = bd_wires b \<and>
    bd_cpus b' = bd_cpus b \<and> bd_timers b' = bd_timers b \<and> bd_gicv2m b' = bd_gicv2m b \<and> bd_cfg b' = bd_cfg b"
  by (auto simp: vmapple_firmware_init_def memmap_def split: option.split_asm)

lemma middle_devices:
  fixes b :: board and mc :: machine_config
  defines "b' \<equiv> create_gpio_devices VMAPPLE_GPIO (create_pcie (create_rtc (create_uart VMAPPLE_UART
       (create_gfx mc (create_aes (create_pvpanic b))))))"
  shows "bd_regions b' = bd_regions b @ [(VMAPPLE_PVPANIC, 0x20070000, 2), (VMAPPLE_AES_1, 0x30220000, 0x4000),
      (VMAPPLE_AES_2, 0x30230000, 0x4000), (VMAPPLE_APV_GFX, 0x30200000, fst (gfx_sizes mc)),
      (VMAPPLE_APV_IOSFC, 0x30210000, snd (gfx_sizes mc)), (VMAPPLE_UART, 0x20010000, 0x1000), (VMAPPLE_RTC, 0x20050000, 0x1000),
      (VMAPPLE_PCIE_ECAM, 0x40000000, 0x10000000), (VMAPPLE_PCIE_MMIO, 0x50000000, 0x1fff0000), (VMAPPLE_GPIO, 0x20060000, 0x1000)]"
    and "bd_wires b' = bd_wires b @ [(VMAPPLE_AES_1, 0, 0x12)] @
     (case gfx_device mc of None \<Rightarrow> [] | Some _ \<Rightarrow> [(VMAPPLE_APV_GFX, 0, 0x11), (VMAPPLE_APV_IOSFC, 1, 0x10)]) @
     [(VMAPPLE_UART, 0, 1), (VMAPPLE_RTC, 0, 2)] @ map (\<lambda>i. (VMAPPLE_PCIE, i, 0x20 + i)) [0..<16] @ [(VMAPPLE_GPIO, 0, 5)]"
    and "bd_cpus b' = bd_cpus b" "bd_timers b' = bd_timers b" "bd_gicv2m b' = bd_gicv2m b"
  unfolding b'_def create_pcie_def Let_def fold_pcie
  by (simp_all add: create_gfx_simps create_gpio_devices_def create_rtc_def create_uart_def create_aes_def
    create_pvpanic_def memmap_def irqmap_def del: upt.simps upt_rec_numeral)

text \<open>What a machine that starts has.\<close>

lemma init_ok:
  assumes "mach_vmapple_init mc = Inr b"
  shows "bd_regions b = map (\<lambda>(s, n). (s, fst (memmap s), n)) (board_sizes mc)"
    "bd_wires b = board_wires mc" "bd_cpus b = create_cpus mc" "0 < smp_cpus mc \<and> smp_cpus mc \<le> 32"
    "bd_timers b = map (\<lambda>i. (i, arm_gic_ppi_index i 27)) [0..<smp_cpus mc]"
    "bd_gicv2m b = \<lparr>base_spi = 0x80, num_spi = 128, macos_compat = 1\<rparr>"
    "vmapple_cfg_realize (mc_seed mc) (cfg_device mc) = (True, bd_cfg b)"
proof -
  from assms obtain b1 b2 b3 b4 b5 where
    1: "create_gic mc (map_at VMAPPLE_MEM (mc_ram_size mc) ((board_empty mc)\<lparr>bd_cpus := create_cpus mc\<rparr>)) = Inr b1"
    and 2: "create_gicv2m b1 = Inr b2" and 3: "create_bdif mc b2 = Inr b3"
    and 4: "create_cfg mc (create_gpio_devices VMAPPLE_GPIO (create_pcie (create_rtc (create_uart VMAPPLE_UART
       (create_gfx mc (create_aes (create_pvpanic b3))))))) = Inr b4"
    and 5: "vmapple_firmware_init mc b4 = Inr b5" and 6: "arm_load_kernel mc b5 = Inr b"
    unfolding mach_vmapple_init_def bind_board_Inr by blast
  note steps = create_gic_Inr [OF 1] create_gicv2m_Inr [OF 2] create_bdif_Inr [OF 3] create_cfg_Inr [OF 4] firmware_init_Inr [OF 5]
  have "b = b5" using 6 by (simp add: arm_load_kernel_def split: if_split_asm)
  with steps show "bd_regions b = map (\<lambda>(s, n). (s, fst (memmap s), n)) (board_sizes mc)"
    "bd_wires b = board_wires mc" "bd_cpus b = create_cpus mc" "0 < smp_cpus mc \<and> smp_cpus mc \<le> 32"
    "bd_timers b = map (\<lambda>i. (i, arm_gic_ppi_index i 27)) [0..<smp_cpus mc]"
    "bd_gicv2m b = \<lparr>base_spi = 0x80, num_spi = 128, macos_compat = 1\<rparr>"
    "vmapple_cfg_realize (mc_seed mc) (cfg_device mc) = (True, bd_cfg b)"
    by (simp_all add: middle_devices board_sizes_def board_wires_def board_empty_def memmap_def del: upt.simps upt_rec_numeral)
qed

section \<open>Address map\<close>

lemma slots_apart:
  assumes "s \<noteq> s'" and "s \<notin> {VMAPPLE_MEM, VMAPPLE_PCIE}" and "s' \<notin> {VMAPPLE_MEM, VMAPPLE_PCIE}"
  shows "unat (fst (memmap s)) + unat (snd (memmap s)) \<le> unat (fst (memmap s')) \<or>
    unat (fst (memmap s')) + unat (snd (memmap s')) \<le> unat (fst (memmap s))"
  using assms by (cases s; cases s'; simp add: memmap_def)

lemma slots_below_ram:
  "s \<noteq> VMAPPLE_MEM \<Longrightarrow> unat (fst (memmap s)) + unat (snd (memmap s)) \<le> unat (fst (memmap VMAPPLE_MEM))"
  by (cases s; simp add: memmap_def)

lemma board_sizes_fit:
  assumes "(s, n) \<in> set (board_sizes mc)" "s \<noteq> VMAPPLE_MEM" "smp_cpus mc \<le> 32"
    and "fst (gfx_sizes mc) \<le> 0x10000" "snd (gfx_sizes mc) \<le> 0x10000"
  shows "unat n \<le> unat (snd (memmap s))" "s \<noteq> VMAPPLE_PCIE"
proof -
  have "unat (of_nat (smp_cpus mc * 0x20000) :: u64) = smp_cpus mc * 0x20000"
    using assms(3) by (subst unsigned_of_nat) (simp add: take_bit_eq_mod)
  then have r: "unat (of_nat (smp_cpus mc) * 0x20000 :: u64) \<le> 0x400000" using assms(3) by simp
  show "unat n \<le> unat (snd (memmap s))" "s \<noteq> VMAPPLE_PCIE"
    using assms r by (auto simp: board_sizes_def memmap_def word_le_nat_alt)
qed

lemma board_slots_distinct: "distinct (map fst (board_sizes mc))"
  by (simp add: board_sizes_def)

section \<open>Errors\<close>

definition init_error_of :: "init_error + 'a \<Rightarrow> init_error option" where
  "init_error_of r = (case r of Inl e \<Rightarrow> Some e | Inr _ \<Rightarrow> None)"

lemma error_bind:
  "(\<And>b. init_error_of (f b) = e) \<Longrightarrow>
    init_error_of (bind_board r f) = (case init_error_of r of Some x \<Rightarrow> Some x | None \<Rightarrow> e)"
  by (cases r) (simp_all add: init_error_of_def bind_board_def)

lemma device_errors:
  "init_error_of (create_gic mc b) = (if 0 < smp_cpus mc \<and> smp_cpus mc \<le> 32 then None else Some ERR_gic)"
  "init_error_of (create_gicv2m b) = None"
  "init_error_of (create_bdif mc b) = (if \<not> mc_pflash0 mc then Some ERR_no_aux
     else if mc_pflash1 mc \<or> mc_virtio0 mc then None else Some ERR_no_root)"
  "init_error_of (create_cfg mc b) = (if fst (vmapple_cfg_realize (mc_seed mc) (cfg_device mc)) then None else Some ERR_cfg)"
  "init_error_of (vmapple_firmware_init mc b) = (case mc_firmware mc of None \<Rightarrow> Some ERR_no_firmware
     | Some None \<Rightarrow> Some ERR_firmware_not_found
     | Some (Some img) \<Rightarrow> if length img \<le> 0x100000 then None else Some ERR_firmware_load)"
  "init_error_of (arm_load_kernel mc b) = (if mc_kernel mc then Some ERR_kernel else None)"
proof -
  show "init_error_of (create_gic mc b) = (if 0 < smp_cpus mc \<and> smp_cpus mc \<le> 32 then None else Some ERR_gic)"
    by (auto simp: create_gic_def init_error_of_def arm_gicv3_common_realize_def Let_def memmap_def)
  show "init_error_of (create_gicv2m b) = None"
    unfolding create_gicv2m_def Let_def fold_wire by (simp add: init_error_of_def gicv2m_realize_def irqmap_def)
  show "init_error_of (create_cfg mc b) = (if fst (vmapple_cfg_realize (mc_seed mc) (cfg_device mc)) then None else Some ERR_cfg)"
    unfolding create_cfg_def cfg_device_def [symmetric] Let_def by (simp add: init_error_of_def case_prod_unfold)
qed (simp_all add: init_error_of_def create_bdif_def vmapple_firmware_init_def load_image_mr_def arm_load_kernel_def memmap_def
    not_less split: option.split)

text \<open>The first thing wrong with a configuration, in the order of initialisation.\<close>

definition config_error :: "machine_config \<Rightarrow> init_error option" where
  "config_error mc =
     (if smp_cpus mc = 0 \<or> 32 < smp_cpus mc then Some ERR_gic
      else if \<not> mc_pflash0 mc then Some ERR_no_aux
      else if \<not> mc_pflash1 mc \<and> \<not> mc_virtio0 mc then Some ERR_no_root
      else if \<exists>v\<in>set (cfg_strings (mc_cfg mc)). 31 < length v then Some ERR_cfg
      else case mc_firmware mc of
        None \<Rightarrow> Some ERR_no_firmware
      | Some None \<Rightarrow> Some ERR_firmware_not_found
      | Some (Some img) \<Rightarrow> if 0x100000 < length img then Some ERR_firmware_load
          else if mc_kernel mc then Some ERR_kernel else None)"

lemma cfg_device_realizes:
  assumes "cfg_sized (cfg (mc_cfg mc))" "smp_cpus mc \<le> 32"
  shows "fst (vmapple_cfg_realize (mc_seed mc) (cfg_device mc)) \<longleftrightarrow> (\<forall>v\<in>set (cfg_strings (mc_cfg mc)). length v \<le> 31)"
proof -
  have sz: "cfg_sized (cfg (cfg_device mc))" using assms(1) by (simp add: cfg_device_def cfg_sized_def)
  have s: "cfg_strings (cfg_device mc) = cfg_strings (mc_cfg mc)" by (simp add: cfg_device_def cfg_strings_def)
  have "unat (of_nat (smp_cpus mc) :: u32) = smp_cpus mc"
    using assms(2) by (subst unsigned_of_nat) (simp add: take_bit_eq_mod)
  then have "cfg_nr_cpus (cfg (cfg_device mc)) \<le> 0x80"
    using assms(2) by (simp add: cfg_device_def word_le_nat_alt)
  then show ?thesis using realize_outcome(1) [OF sz] by (simp add: s less_eq_Suc_le)
qed

lemma init_error_exact:
  assumes "cfg_sized (cfg (mc_cfg mc))"
  shows "init_error_of (mach_vmapple_init mc) = config_error mc"
proof -
  let ?f5 = "arm_load_kernel mc"
  let ?f4 = "\<lambda>b. bind_board (vmapple_firmware_init mc b) ?f5"
  let ?f3 = "\<lambda>b. bind_board (create_cfg mc (create_gpio_devices VMAPPLE_GPIO (create_pcie (create_rtc (create_uart VMAPPLE_UART
       (create_gfx mc (create_aes (create_pvpanic b)))))))) ?f4"
  let ?f2 = "\<lambda>b. bind_board (create_bdif mc b) ?f3"
  let ?f1 = "\<lambda>b. bind_board (create_gicv2m b) ?f2"
  note e5 = error_bind [of ?f5, OF device_errors(6)]
  note e4 = error_bind [of ?f4, OF e5 [of "vmapple_firmware_init mc _", unfolded device_errors]]
  note e3 = error_bind [of ?f3, OF e4 [of "create_cfg mc _", unfolded device_errors]]
  note e2 = error_bind [of ?f2, OF e3 [of "create_bdif mc _", unfolded device_errors]]
  note e1 = error_bind [of ?f1, OF e2 [of "create_gicv2m _", unfolded device_errors]]
  show ?thesis
    unfolding mach_vmapple_init_def config_error_def e1 device_errors
    using cfg_device_realizes [OF assms] by (auto simp: not_less split: option.split)
qed

lemma init_starts: "init_error_of r = None \<Longrightarrow> \<exists>b. r = Inr b"
  by (cases r) (simp_all add: init_error_of_def)

section \<open>CPUs of the machine\<close>

lemma affinities_distinct: "distinct (map (\<lambda>n. arm_build_mp_affinity n 16) [0..<32])"
  by code_simp

lemma create_cpus_nth:
  assumes "smp_cpus mc \<le> smp_max_cpus mc"
  shows "length (create_cpus mc) = smp_cpus mc"
    "n < smp_cpus mc \<Longrightarrow> create_cpus mc ! n = create_cpu mc n (arm_build_mp_affinity n 16)"
  using assms by (simp_all add: create_cpus_def vmapple_possible_cpu_arch_ids_def enumerate_eq_zip)

lemma reset_conduit [simp]: 
  "cpu_psci_conduit (cpu_reset c) = cpu_psci_conduit c" "cpu_el2_enabled (cpu_reset c) = cpu_el2_enabled c"
  by (simp_all add: cpu_reset_def cpu_reset_entry_def arm_set_cpu_power_state_def Let_def)

lemma create_cpu_simps:
  "cpu_mp_affinity (create_cpu mc n a) = a" "\<not> feat_el3 (create_cpu mc n a)" "\<not> feat_el2 (create_cpu mc n a)"
  "\<not> cpu_el2_enabled (create_cpu mc n a)"
  "cpu_psci_conduit (create_cpu mc n a) = CONDUIT_HVC"
  "feat_aarch64 (create_cpu mc n a) = feat_aarch64 (mc_cpu_model mc)"
  "cpu_start_powered_off (create_cpu mc n a) = (0 < n \<or> cpu_start_powered_off (mc_cpu_model mc))"
  "cpu_work_queue (create_cpu mc n a) = cpu_work_queue (mc_cpu_model mc)"
  by (simp_all add: create_cpu_def Let_def)

lemma create_cpus_affinities:
  assumes "smp_cpus mc \<le> smp_max_cpus mc" "smp_cpus mc \<le> 32"
  shows "distinct (map cpu_mp_affinity (create_cpus mc))"
proof -
  have "map cpu_mp_affinity (create_cpus mc) = map (\<lambda>n. arm_build_mp_affinity n 16) [0..<smp_cpus mc]"
    by (rule nth_equalityI) (simp_all add: create_cpus_nth [OF assms(1)] create_cpu_simps)
  moreover have "{0..<smp_cpus mc} \<subseteq> {0..<32}" using assms(2) by auto
  ultimately show ?thesis using affinities_distinct by (auto simp: distinct_map intro: inj_on_subset simp del: upt_rec_numeral)
qed

lemma reset_cpu_ok: "cpu_ok c \<Longrightarrow> cpu_ok (cpu_reset c)"
  using start_ok_cong [of "cpu_reset c" c] by (simp add: cpu_ok_def)

lemma set_pc_ok: "cpu_ok (cpu_set_pc c v) = cpu_ok c" "cpu_mp_affinity (cpu_set_pc c v) = cpu_mp_affinity c"
  by (rule cpu_ok_cong; simp add: cpu_set_pc_def) (simp add: cpu_set_pc_def)

lemma system_reset_ok:
  assumes "cpus_ok (sys_cpus s)" "0 < length (sys_cpus s)" "system_reset rand s = Some s'"
  shows "cpus_ok (sys_cpus s')" "length (sys_cpus s') = length (sys_cpus s)"
proof -
  obtain c cs where c: "sys_cpus s = c # cs" using assms(2) by (cases "sys_cpus s") auto
  have s': "sys_cpus s' = cpu_set_pc (cpu_reset c) (fst (memmap VMAPPLE_FIRMWARE)) # map cpu_reset cs"
    using assms(3) by (auto simp: system_reset_def vmapple_reset_def c)
  show "cpus_ok (sys_cpus s')"
    using assms(1) unfolding s' c by (auto simp: cpus_ok_def set_pc_ok reset_cpu_ok comp_def)
  show "length (sys_cpus s') = length (sys_cpus s)" by (simp add: s' c)
qed

lemma hvc_reset_some:
  assumes "fst (rand n) \<noteq> 0 \<and> snd (rand n) \<noteq> 0"
  shows "vmapple_hvc_reset rand hs \<noteq> None"
proof -
  define m where "m = (LEAST k. fst (rand k) \<noteq> 0 \<and> snd (rand k) \<noteq> 0)"
  have "fst (rand m) \<noteq> 0 \<and> snd (rand m) \<noteq> 0" unfolding m_def by (rule LeastI [of _ n]) (rule assms)
  moreover have "\<forall>k<m. fst (rand k) = 0 \<or> snd (rand k) = 0" unfolding m_def using not_less_Least by blast
  ultimately have "draw_pids rand 0 = Some (rand m)" by (intro draw_pids_first) auto
  then show ?thesis by (simp add: vmapple_hvc_reset_def)
qed

text \<open>A life of the machine: each reset, with its random numbers, is followed by a history.\<close>

fun mach_run ::
    "wfi_env \<Rightarrow> hvc_host \<Rightarrow> ((nat \<Rightarrow> u64 \<times> u64) \<times> sys_event list) list \<Rightarrow> psci_sys \<Rightarrow> psci_sys option" where
  "mach_run env h [] s = Some s"
| "mach_run env h ((rand, es) # runs) s =
     (case system_reset rand s of
        None \<Rightarrow> None
      | Some s1 \<Rightarrow> (case sys_run env h es s1 of None \<Rightarrow> None | Some s2 \<Rightarrow> mach_run env h runs s2))"

lemma mach_run_total:
  assumes "cpus_ok (sys_cpus s)" "0 < length (sys_cpus s)"
    and "\<forall>(rand, es)\<in>set runs. \<exists>n. fst (rand n) \<noteq> 0 \<and> snd (rand n) \<noteq> 0"
  shows "case mach_run env h runs s of None \<Rightarrow> False
    | Some s' \<Rightarrow> cpus_ok (sys_cpus s') \<and> length (sys_cpus s') = length (sys_cpus s)"
  using assms
proof (induction runs arbitrary: s)
  case (Cons r runs)
  obtain rand es where r: "r = (rand, es)" by (cases r)
  obtain n where "fst (rand n) \<noteq> 0 \<and> snd (rand n) \<noteq> 0" using Cons.prems(3) by (auto simp: r)
  then obtain s1 where s1: "system_reset rand s = Some s1"
    using hvc_reset_some by (fastforce simp: system_reset_def vmapple_reset_def)
  note ok = system_reset_ok [OF Cons.prems(1,2) s1]
  from sys_run_total [OF ok(1), of env h es] obtain s2 where
    s2: "sys_run env h es s1 = Some s2" "cpus_ok (sys_cpus s2)" "length (sys_cpus s2) = length (sys_cpus s1)"
    by (auto split: option.split_asm)
  show ?case using Cons.IH [OF s2(2)] Cons.prems(2,3) ok(2) s2(3) by (simp add: r s1 s2(1) split: option.split_asm)
qed simp

lemma machine_cpus_ok:
  assumes "mach_vmapple_init mc = Inr b" "smp_cpus mc \<le> smp_max_cpus mc" "cpu_work_queue (mc_cpu_model mc) = []"
  shows "cpus_ok (bd_cpus b)" "length (bd_cpus b) = smp_cpus mc" "0 < smp_cpus mc"
proof -
  note i = init_ok(3,4) [OF assms(1)]
  have "cpu_ok (create_cpu mc n a)" for n a
  proof -
    have "cpu_ok (cpu_reset c)" if "cpu_work_queue c = []" for c using that by (simp add: cpu_ok_def)
    then show ?thesis using assms(3) by (simp add: create_cpu_def Let_def)
  qed
  then show "cpus_ok (bd_cpus b)"
    using create_cpus_affinities [OF assms(2)] i by (auto simp: cpus_ok_def create_cpus_def)
  show "length (bd_cpus b) = smp_cpus mc" "0 < smp_cpus mc" using create_cpus_nth(1) [OF assms(2)] i by simp_all
qed

text \<open>The CPUs after the first reset: the first runs the firmware, the others wait.\<close>

lemma first_reset:
  assumes "mach_vmapple_init mc = Inr b" "smp_cpus mc \<le> smp_max_cpus mc" "cpu_work_queue (mc_cpu_model mc) = []"
    and "feat_aarch64 (mc_cpu_model mc)" "\<not> cpu_start_powered_off (mc_cpu_model mc)"
    and "sys_cpus s = bd_cpus b" "system_reset rand s = Some s0"
  shows "cpus_ok (sys_cpus s0)" "length (sys_cpus s0) = smp_cpus mc"
    "cpu_power_state (sys_cpus s0 ! 0) = PSCI_ON \<and> \<not> cpu_halted (sys_cpus s0 ! 0) \<and>
     cpu_pc (sys_cpus s0 ! 0) = 0x100000 \<and> cpu_el (sys_cpus s0 ! 0) = 1"
    "n < smp_cpus mc \<Longrightarrow> cpu_mp_affinity (sys_cpus s0 ! n) = arm_build_mp_affinity n 16 \<and> cpu_aarch64 (sys_cpus s0 ! n) \<and>
       feat_aarch64 (sys_cpus s0 ! n) \<and> \<not> feat_el2 (sys_cpus s0 ! n) \<and> \<not> feat_el3 (sys_cpus s0 ! n) \<and>
       \<not> cpu_el2_enabled (sys_cpus s0 ! n) \<and> cpu_psci_conduit (sys_cpus s0 ! n) = CONDUIT_HVC \<and>
       cpu_work_queue (sys_cpus s0 ! n) = [] \<and> (0 < n \<longrightarrow> cpu_power_state (sys_cpus s0 ! n) = PSCI_OFF)"
proof -
  note m = machine_cpus_ok [OF assms(1-3)] and nth = create_cpus_nth(2) [OF assms(2)]
  have l: "cpus_ok (sys_cpus s)" "0 < length (sys_cpus s)" using m by (simp_all add: assms(6))
  from system_reset_ok [OF this assms(7)] show "cpus_ok (sys_cpus s0)" "length (sys_cpus s0) = smp_cpus mc"
    using m(2) by (simp_all add: assms(6))
  have s0: "sys_cpus s0 = (map cpu_reset (bd_cpus b))[0 := cpu_set_pc (cpu_reset (bd_cpus b ! 0)) 0x100000]"
    using assms(6,7) m by (auto simp: system_reset_def vmapple_reset_def memmap_def)
  have c: "n < smp_cpus mc \<Longrightarrow> bd_cpus b ! n = create_cpu mc n (arm_build_mp_affinity n 16)" for n
    using nth init_ok(3) [OF assms(1)] by simp
  show "cpu_power_state (sys_cpus s0 ! 0) = PSCI_ON \<and> \<not> cpu_halted (sys_cpus s0 ! 0) \<and>
     cpu_pc (sys_cpus s0 ! 0) = 0x100000 \<and> cpu_el (sys_cpus s0 ! 0) = 1"
    using m(2,3) assms(4,5) by (simp add: s0 c create_cpu_simps cpu_set_pc_def)
  show "n < smp_cpus mc \<Longrightarrow> cpu_mp_affinity (sys_cpus s0 ! n) = arm_build_mp_affinity n 16 \<and> cpu_aarch64 (sys_cpus s0 ! n) \<and>
       feat_aarch64 (sys_cpus s0 ! n) \<and> \<not> feat_el2 (sys_cpus s0 ! n) \<and> \<not> feat_el3 (sys_cpus s0 ! n) \<and>
       \<not> cpu_el2_enabled (sys_cpus s0 ! n) \<and> cpu_psci_conduit (sys_cpus s0 ! n) = CONDUIT_HVC \<and>
       cpu_work_queue (sys_cpus s0 ! n) = [] \<and> (0 < n \<longrightarrow> cpu_power_state (sys_cpus s0 ! n) = PSCI_OFF)"
    using m(2,3) assms(3,4) by (cases n) (simp_all add: s0 c create_cpu_simps cpu_set_pc_def)
qed

lemma cpu_on_call:
  fixes aff entry ctx :: u64
  assumes "i < length (sys_cpus s)" "cpu_aarch64 (sys_cpus s ! i)" "cpu_psci_conduit (sys_cpus s ! i) = CONDUIT_HVC"
    and "\<not> feat_el2 (sys_cpus s ! i)" "\<not> feat_el3 (sys_cpus s ! i)" "\<not> cpu_el2_enabled (sys_cpus s ! i)"
    and "feat_aarch64 (sys_cpus s ! i)" "length xs = 28"
  defines "s1 \<equiv> set_cpu s i ((sys_cpus s ! i)\<lparr>cpu_xregs := 0xc4000003 # aff # entry # ctx # xs\<rparr>)"
  assumes "arm_set_cpu_on (sys_cpus s1) aff entry ctx 1 True = Some (r, cpus)"
  shows "sys_do env h (Guest_hvc i (0xc4000003 # aff # entry # ctx # xs)) s =
    Some (set_cpu (s1\<lparr>sys_cpus := cpus\<rparr>) i (psci_set_ret (cpus ! i) r))"
proof -
  have c: "sys_cpus s1 ! i = (sys_cpus s ! i)\<lparr>cpu_xregs := 0xc4000003 # aff # entry # ctx # xs\<rparr>"
    using assms(1) by (simp add: s1_def)
  have hook: "fst (vmapple_handler h i s1) = False" "snd (vmapple_handler h i s1) = s1"
    by (simp_all add: vmapple_handler_def vmapple_hvc_def service_range c set_cpu_def) (simp add: s1_def set_cpu_def)
  have "psci_cpu_on s1 i aff entry ctx = psci_return (s1\<lparr>sys_cpus := cpus\<rparr>) i r"
    using assms(4-7,10) by (simp add: psci_cpu_on_def c arm_el_is_aa64_def Let_def)
  then have "psci_dispatch env i (psci_param (sys_cpus s1 ! i)) s1 = psci_return (s1\<lparr>sys_cpus := cpus\<rparr>) i r"
    using assms(2) by (simp add: psci_dispatch_def c psci_param_def)
  then show ?thesis
    using assms(2,3) by (simp add: Let_def arm_is_psci_call_def arm_handle_psci_call_def arm_smccc_dispatch_def
        vmapple_hvc_init_def hook psci_return_def c flip: s1_def)
qed

section \<open>A concrete configuration\<close>

definition sample_config :: machine_config where
  "sample_config = \<lparr>smp_cpus = 20, smp_max_cpus = 20, mc_ram_size = 0x100000000, mc_uuid = 7, mc_cpu_model = sample_cpu 0 False,
     mc_has_cntfrq = True, mc_tcg = True, mc_no_gfx = False,
     mc_class = (\<lambda>name. if name = ''reims-vgpu-mmio'' then Some (0x4000, 0x10000) else None),
     mc_pflash0 = True, mc_pflash1 = False, mc_virtio0 = True, mc_firmware = Some (Some [1, 2, 3]), mc_kernel = False,
     mc_cfg = vmapple_cfg_init, mc_rnd = 5, mc_seed = replicate 64 9\<rparr>"

lemma sample_config_cfg: "cfg_sized (cfg (mc_cfg sample_config))"
  using init_sized by (simp add: sample_config_def)

lemma sample_starts: "\<exists>b. mach_vmapple_init sample_config = Inr b"
proof (rule init_starts)
  show "init_error_of (mach_vmapple_init sample_config) = None"
    by (simp add: init_error_exact [OF sample_config_cfg] config_error_def)
      (simp add: sample_config_def vmapple_cfg_init_def cfg_strings_def default_to_def ascii_def)
qed

section \<open>Properties\<close>

text \<open>
  C12 (\<^verbatim>\<open>mach_vmapple_init\<close>).  In every machine that starts, for any RAM size and any
  number of CPUs, the regions mapped into the system address space are pairwise
  disjoint, every device fits its slot of the address map, and RAM lies above all of
  them; the GPU device is only assumed not to need more than its two 64 KiB slots.
\<close>

theorem machine_regions_disjoint:
  assumes "mach_vmapple_init mc = Inr b"
    and "\<forall>name gfx iosfc. mc_class mc name = Some (gfx, iosfc) \<longrightarrow> gfx \<le> 0x10000 \<and> iosfc \<le> 0x10000"
  shows "distinct (map fst (bd_regions b)) \<and>
    (\<forall>(s, a, n)\<in>set (bd_regions b). \<forall>(s', a', n')\<in>set (bd_regions b).
       s \<noteq> s' \<longrightarrow> unat a + unat n \<le> unat a' \<or> unat a' + unat n' \<le> unat a) \<and>
    (\<forall>(s, a, n)\<in>set (bd_regions b). s \<noteq> VMAPPLE_MEM \<longrightarrow> unat n \<le> unat (snd (memmap s)) \<and> unat a + unat n \<le> 0x70000000)"
proof -
  have g: "fst (gfx_sizes mc) \<le> 0x10000" "snd (gfx_sizes mc) \<le> 0x10000"
    using assms(2) by (auto simp: gfx_sizes_def gfx_device_def split: option.split if_split_asm)
  note r = init_ok(1) [OF assms(1)] and fit = board_sizes_fit [OF _ _ conjunct2 [OF init_ok(4) [OF assms(1)]] g]
  have apart: "unat (fst (memmap s)) + unat n \<le> unat (fst (memmap s')) \<or> unat (fst (memmap s')) + unat n' \<le> unat (fst (memmap s))"
    if m: "(s, n) \<in> set (board_sizes mc)" "(s', n') \<in> set (board_sizes mc)" and ne: "s \<noteq> s'" for s n s' n'
  proof -
    consider "s = VMAPPLE_MEM" "s' \<noteq> VMAPPLE_MEM" | "s \<noteq> VMAPPLE_MEM" "s' = VMAPPLE_MEM" | "s \<noteq> VMAPPLE_MEM" "s' \<noteq> VMAPPLE_MEM"
      using ne by auto
    then show ?thesis
    proof cases
      case 1
      then show ?thesis using fit(1) [OF m(2)] slots_below_ram [of s'] by simp
    next
      case 2
      then show ?thesis using fit(1) [OF m(1)] slots_below_ram [of s] by simp
    next
      case 3
      then show ?thesis using fit [OF m(1)] fit [OF m(2)] slots_apart [OF ne] by auto
    qed
  qed
  have low: "unat n \<le> unat (snd (memmap s)) \<and> unat (fst (memmap s)) + unat n \<le> 0x70000000"
    if "(s, n) \<in> set (board_sizes mc)" "s \<noteq> VMAPPLE_MEM" for s n
    using fit(1) [OF that] slots_below_ram [OF that(2)] by (simp add: memmap_def [of VMAPPLE_MEM])
  have "distinct (map fst (bd_regions b))" using board_slots_distinct [of mc] by (simp add: r comp_def case_prod_unfold)
  moreover have "\<forall>(s, a, n)\<in>set (bd_regions b). \<forall>(s', a', n')\<in>set (bd_regions b).
       s \<noteq> s' \<longrightarrow> unat a + unat n \<le> unat a' \<or> unat a' + unat n' \<le> unat a"
    unfolding r using apart by fastforce
  moreover have "\<forall>(s, a, n)\<in>set (bd_regions b). s \<noteq> VMAPPLE_MEM \<longrightarrow> unat n \<le> unat (snd (memmap s)) \<and> unat a + unat n \<le> 0x70000000"
    unfolding r using low by fastforce
  ultimately show ?thesis by blast
qed

theorem machine_regions_disjoint_witness:
  "\<exists>b. mach_vmapple_init sample_config = Inr b \<and> distinct (map fst (bd_regions b))"
proof -
  obtain b where b: "mach_vmapple_init sample_config = Inr b" using sample_starts by blast
  have "\<forall>name gfx iosfc. mc_class sample_config name = Some (gfx, iosfc) \<longrightarrow> gfx \<le> 0x10000 \<and> iosfc \<le> 0x10000"
    by (auto simp: sample_config_def split: if_split_asm)
  then show ?thesis using machine_regions_disjoint [OF b] b by blast
qed

text \<open>
  C13 (\<^verbatim>\<open>create_*\<close>).  In every machine that starts no two device lines or CPU timers
  share an input of the interrupt controller; the device lines are among its 256 shared
  inputs, and the timer of CPU \<open>i\<close> is wired to private interrupt 27 of CPU \<open>i\<close>,
  within the inputs the controller has.
\<close>

theorem machine_wiring_bounds:
  assumes "mach_vmapple_init mc = Inr b"
  shows "distinct (map (snd \<circ> snd) (bd_wires b) @ map snd (bd_timers b)) \<and>
    (\<forall>(slot, line, input)\<in>set (bd_wires b). input < NUM_IRQS) \<and>
    (\<forall>i < smp_cpus mc. (\<exists>input. (i, input) \<in> set (bd_timers b) \<and> input < gic_num_inputs (NUM_IRQS + 32) (smp_cpus mc) \<and>
       (input - NUM_IRQS) div GIC_INTERNAL = i \<and> (input - NUM_IRQS) mod GIC_INTERNAL = 27))"
proof -
  let ?n = "smp_cpus mc"
  note w = init_ok(2) [OF assms] and tm = init_ok(5) [OF assms]
  have low: "\<forall>(slot, line, input)\<in>set (bd_wires b). input < NUM_IRQS"
    by (auto simp: w board_wires_def split: option.split)
  have "distinct (map (snd \<circ> snd) (bd_wires b))"
    by (auto simp: w board_wires_def comp_def distinct_map inj_on_def simp del: upt_rec_numeral split: option.split)
  moreover have "distinct (map snd (bd_timers b))"
    by (simp add: tm distinct_map inj_on_def comp_def arm_gic_ppi_index_def)
  moreover have "set (map (snd \<circ> snd) (bd_wires b)) \<inter> set (map snd (bd_timers b)) = {}"
    using low by (auto simp: tm arm_gic_ppi_index_def)
  moreover have "\<forall>i<?n. (\<exists>input. (i, input) \<in> set (bd_timers b) \<and> input < gic_num_inputs (NUM_IRQS + 32) ?n \<and>
       (input - NUM_IRQS) div GIC_INTERNAL = i \<and> (input - NUM_IRQS) mod GIC_INTERNAL = 27)"
    by (auto simp: tm arm_gic_ppi_index_def gic_num_inputs_def intro!: exI [of _ "283 + _ * 32"])
  ultimately show ?thesis using low by (simp only: distinct_append)
qed

theorem machine_wiring_bounds_witness:
  "\<exists>b. mach_vmapple_init sample_config = Inr b \<and> distinct (map (snd \<circ> snd) (bd_wires b) @ map snd (bd_timers b))"
  using machine_wiring_bounds [of sample_config] sample_starts by blast

text \<open>
  C17 (\<^verbatim>\<open>create_gicv2m\<close> with \<^verbatim>\<open>arm_gicv2m.c\<close>).  On the machine a message-signalled
  interrupt reaches the interrupt controller under its own number: a store of \<open>v\<close> to the
  frame raises the line wired to shared input \<open>v - 32\<close>, which no other device
  uses, exactly when the low ten bits name one of the interrupts 160 to 287.
\<close>

theorem msi_reaches_gic:
  assumes "mach_vmapple_init mc = Inr b" and "sz = 2 \<or> sz = 4"
  shows "case gicv2m_write (bd_gicv2m b) 0x40 v sz of
      None \<Rightarrow> \<not> (160 \<le> unat v mod 1024 \<and> unat v mod 1024 < 288)
    | Some k \<Rightarrow> 160 \<le> unat v mod 1024 \<and> unat v mod 1024 < 288 \<and>
        (\<forall>w\<in>set (bd_wires b). snd (snd w) = unat v mod 1024 - 32 \<longleftrightarrow> w = (VMAPPLE_GICV2M, k, unat v mod 1024 - 32)) \<and>
        (VMAPPLE_GICV2M, k, unat v mod 1024 - 32) \<in> set (bd_wires b)"
proof -
  let ?s = "\<lparr>base_spi = 0x80, num_spi = 128, macos_compat = 1\<rparr> :: ARMGICv2mState" and ?m = "unat v mod 1024"
  have "gicv2m_realize ?s" by (simp add: gicv2m_realize_def)
  then have hit: "gicv2m_write ?s 0x40 v sz = Some k \<longleftrightarrow> k < 128 \<and> ?m = 160 + k" for k
    using setspi_hit [of ?s sz v k] assms(2) by simp
  have wire: "(VMAPPLE_GICV2M, k, 128 + k) \<in> set (bd_wires b) \<and>
      (\<forall>w\<in>set (bd_wires b). snd (snd w) = 128 + k \<longleftrightarrow> w = (VMAPPLE_GICV2M, k, 128 + k))" if "k < 128" for k
    using that by (auto simp: init_ok(2) [OF assms(1)] board_wires_def simp del: upt_rec_numeral split: option.split)
  show ?thesis
  proof (cases "gicv2m_write ?s 0x40 v sz")
    case None
    then have "\<not> (k < 128 \<and> ?m = 160 + k)" for k using hit [of k] by simp
    from this [of "?m - 160"] show ?thesis by (auto simp: init_ok(6) [OF assms(1)] None)
  next
    case (Some k)
    then have "k < 128" "?m = 160 + k" using hit [of k] by simp_all
    then show ?thesis using wire [of k] by (simp add: init_ok(6) [OF assms(1)] Some)
  qed
qed

theorem msi_reaches_gic_witness:
  "\<exists>b. mach_vmapple_init sample_config = Inr b \<and> gicv2m_write (bd_gicv2m b) 0x40 200 4 \<noteq> None"
proof -
  obtain b where b: "mach_vmapple_init sample_config = Inr b" using sample_starts by blast
  then show ?thesis using msi_reaches_gic [OF b, of 4 200] by (auto split: option.split_asm)
qed



text \<open>
  C7 (machine, PSCI and power control together).  However the machine is configured, and
  through any number of resets, each followed by any calls of the running CPUs
  interleaved with queued work, no assertion fails and every CPU that is off stays
  halted.  Each reset only needs a random source that sooner or later gives a
  pair without a zero.
\<close>

theorem machine_never_aborts:
  assumes "mach_vmapple_init mc = Inr b" "smp_cpus mc \<le> smp_max_cpus mc" "cpu_work_queue (mc_cpu_model mc) = []"
    and "sys_cpus s = bd_cpus b"
    and "\<forall>(rand, es)\<in>set runs. \<exists>n. fst (rand n) \<noteq> 0 \<and> snd (rand n) \<noteq> 0"
  shows "case mach_run env h runs s of
      None \<Rightarrow> False
    | Some s' \<Rightarrow> length (sys_cpus s') = smp_cpus mc \<and>
        (\<forall>c\<in>set (sys_cpus s'). cpu_power_state c = PSCI_OFF \<longrightarrow> cpu_halted c \<and> cpu_halt_reason c = HALT_PSCI)"
proof -
  note m = machine_cpus_ok [OF assms(1-3)]
  have "cpus_ok (sys_cpus s)" "0 < length (sys_cpus s)" using m by (simp_all add: assms(4))
  from mach_run_total [OF this assms(5), of env h] show ?thesis
    using m(2) by (auto simp: assms(4) cpus_ok_def cpu_ok_def split: option.splits)
qed

theorem machine_never_aborts_witness:
  "\<exists>b. mach_vmapple_init sample_config = Inr b \<and>
    mach_run sample_env sample_host [(\<lambda>_. (1, 2), [Guest_hvc 0 (0x84000002 # replicate 31 0)]), (\<lambda>_. (3, 4), [Run_work 0])]
      (sample_sys\<lparr>sys_cpus := bd_cpus b\<rparr>) \<noteq> None"
proof -
  obtain b where b: "mach_vmapple_init sample_config = Inr b" using sample_starts by blast
  have "smp_cpus sample_config \<le> smp_max_cpus sample_config" "cpu_work_queue (mc_cpu_model sample_config) = []"
    by (simp_all add: sample_config_def sample_cpu_def)
  then show ?thesis
    using machine_never_aborts [OF b, of "sample_sys\<lparr>sys_cpus := bd_cpus b\<rparr>"
        "[(\<lambda>_. (1, 2), [Guest_hvc 0 (0x84000002 # replicate 31 0)]), (\<lambda>_. (3, 4), [Run_work 0])]" sample_env sample_host] b
    by (auto split: option.split_asm)
qed

text \<open>
  C4 (boot of the secondaries).  After the first reset the first CPU runs the firmware
  at 0x100000 in EL1, and it can start every other CPU of the machine: its CPU_ON
  call for the affinity of CPU \<open>n\<close> returns success, and once that CPU has run its
  queued work it is on, in EL1, at the requested entry point, with the context
  in its first register.
\<close>

theorem secondary_boots:
  assumes "mach_vmapple_init mc = Inr b" "smp_cpus mc \<le> smp_max_cpus mc" "cpu_work_queue (mc_cpu_model mc) = []"
    and "feat_aarch64 (mc_cpu_model mc)" "\<not> cpu_start_powered_off (mc_cpu_model mc)"
    and "sys_cpus s = bd_cpus b" "system_reset rand s = Some s0"
    and "0 < n" "n < smp_cpus mc" "entry AND 3 = 0" "length xs = 28"
  shows "cpu_pc (sys_cpus s0 ! 0) = 0x100000 \<and> cpu_el (sys_cpus s0 ! 0) = 1 \<and>
    (case sys_run env h [Guest_hvc 0 (0xc4000003 # arm_build_mp_affinity n 16 # entry # ctx # xs), Run_work n] s0 of
       None \<Rightarrow> False
     | Some s2 \<Rightarrow> cpu_xregs (sys_cpus s2 ! 0) ! 0 = 0 \<and>
         (let c = sys_cpus s2 ! n in cpu_power_state c = PSCI_ON \<and> \<not> cpu_halted c \<and> cpu_el c = 1 \<and> cpu_pc c = entry \<and>
           cpu_xregs c = ctx # replicate 31 0))"
proof -
  note r = first_reset [OF assms(1-7)]
  let ?a = "arm_build_mp_affinity n 16" and ?w = "Work_on \<lparr>on_entry = entry, on_context_id = ctx, on_target_el = 1, on_target_aa64 = True\<rparr>"
  let ?regs = "0xc4000003 # ?a # entry # ctx # xs"
  define s1 where "s1 = set_cpu s0 0 ((sys_cpus s0 ! 0)\<lparr>cpu_xregs := ?regs\<rparr>)"
  have l: "0 < length (sys_cpus s0)" "n < length (sys_cpus s0)" using r(2) assms(8,9) by simp_all
  have z: "0 < smp_cpus mc" using assms(9) by simp
  have c1: "cpus_ok (sys_cpus s1)" "sys_cpus s1 ! n = sys_cpus s0 ! n"
    using cpus_ok_set_regs [OF r(1) l(1)] assms(8) by (simp_all add: s1_def)
  define cpus where "cpus = async_run_on_cpu (sys_cpus s1) n ?w"
  have "arm_set_cpu_on (sys_cpus s1) (cpu_mp_affinity (sys_cpus s1 ! n)) entry ctx 1 True = Some (0, cpus)"
    unfolding cpus_def using c1 l r(4) [OF assms(9)] assms(8,10)
    by (intro set_cpu_on_accepts) (simp_all add: cpus_ok_def s1_def)
  then have on: "arm_set_cpu_on (sys_cpus s1) ?a entry ctx 1 True = Some (0, cpus)" using r(4) [OF assms(9)] c1(2) by simp
  let ?s2 = "set_cpu (s1\<lparr>sys_cpus := cpus\<rparr>) 0 (psci_set_ret (cpus ! 0) 0)"
  have call: "sys_do env h (Guest_hvc 0 ?regs) s0 = Some ?s2"
    using cpu_on_call [OF l(1), of xs ?a entry ctx 0 cpus env h] r(4) [OF z] assms(11) on by (simp add: s1_def)
  have q: "cpu_work_queue (sys_cpus ?s2 ! n) = [?w]" "feat_aarch64 (sys_cpus ?s2 ! n)"
    using r(4) [OF assms(9)] l assms(8) by (simp_all add: cpus_def async_run_on_cpu_def s1_def)
  have len: "length (cpu_xregs (cpus ! 0)) = 32" "cpu_aarch64 (cpus ! 0)" "length cpus = length (sys_cpus s0)"
    using l assms(8,11) r(4) [OF z] by (simp_all add: cpus_def async_run_on_cpu_def s1_def)
  from run_on_item [OF q(2) _ _ _ q(1)] obtain c where
    c: "run_work (sys_cpus ?s2 ! n) = Some c" "cpu_power_state c = PSCI_ON" "\<not> cpu_halted c" "cpu_el c = 1" "cpu_pc c = entry"
      "cpu_xregs c = ctx # replicate 31 0"
    by (auto split: option.split_asm)
  have "event_ok (Guest_hvc 0 ?regs) s0" "event_ok (Run_work n) ?s2" using l r(3) assms(11) len(3) by simp_all
  then have "sys_run env h [Guest_hvc 0 ?regs, Run_work n] s0 = Some (set_cpu ?s2 n c)" using call c(1) by simp
  moreover have "cpu_xregs (sys_cpus (set_cpu ?s2 n c) ! 0) ! 0 = 0" "sys_cpus (set_cpu ?s2 n c) ! n = c"
    using l assms(8) len by (simp_all add: psci_set_ret_def)
  ultimately show ?thesis using r(3) c by (simp add: Let_def)
qed

theorem secondary_boots_witness:
  "\<exists>b s0. mach_vmapple_init sample_config = Inr b \<and> system_reset (\<lambda>_. (1, 2)) (sample_sys\<lparr>sys_cpus := bd_cpus b\<rparr>) = Some s0 \<and>
    (case sys_run sample_env sample_host
        [Guest_hvc 0 (0xc4000003 # arm_build_mp_affinity 17 16 # 0x80000 # 5 # replicate 28 0), Run_work 17] s0 of
       None \<Rightarrow> False | Some s2 \<Rightarrow> cpu_pc (sys_cpus s2 ! 17) = 0x80000)"
proof -
  obtain b where b: "mach_vmapple_init sample_config = Inr b" using sample_starts by blast
  let ?s = "sample_sys\<lparr>sys_cpus := bd_cpus b\<rparr>"
  obtain s0 where s0: "system_reset (\<lambda>_. (1, 2)) ?s = Some s0"
    using hvc_reset_some [of "\<lambda>_. (1, 2)"] by (fastforce simp: system_reset_def vmapple_reset_def)
  have cs: "smp_cpus sample_config \<le> smp_max_cpus sample_config" "cpu_work_queue (mc_cpu_model sample_config) = []"
    "feat_aarch64 (mc_cpu_model sample_config)" "\<not> cpu_start_powered_off (mc_cpu_model sample_config)" "17 < smp_cpus sample_config"
    by (simp_all add: sample_config_def sample_cpu_def)
  have "sys_cpus ?s = bd_cpus b" "(0 :: nat) < 17" "(0x80000 :: u64) AND 3 = 0" "length (replicate 28 (0 :: u64)) = 28" by simp_all
  from secondary_boots [OF b cs(1-4) this(1) s0 this(2) cs(5) this(3,4), where env = sample_env and h = sample_host and ctx = 5]
  have "case sys_run sample_env sample_host
        [Guest_hvc 0 (0xc4000003 # arm_build_mp_affinity 17 16 # 0x80000 # 5 # replicate 28 0), Run_work 17] s0 of
       None \<Rightarrow> False | Some s2 \<Rightarrow> cpu_pc (sys_cpus s2 ! 17) = 0x80000"
    unfolding Let_def by (auto split: option.split_asm simp del: sys_run.simps)
  then show ?thesis using b s0 by blast
qed

end
