(* ===== verification/Vgpu_Ram.thy ===== *)
theory Vgpu_Ram
  imports Guest_Memory
begin

text \<open>
  How the display device sees guest memory, \<^verbatim>\<open>hw/display/reims-vgpu-shim.c\<close>: byte
  access that is refused on devices, the test for RAM, and the walk that reports
  where guest RAM lies in the host as a list of merged spans.
\<close>

section \<open>Byte access\<close>

text \<open>A request without a buffer is an empty one; the result is 0 or -1.\<close>

definition reims_vgpu_shim_read_gpa :: "guest_mem \<Rightarrow> u64 \<Rightarrow> bytes \<Rightarrow> int \<times> bytes" where
  "reims_vgpu_shim_read_gpa gm gpa buf =
     (if buf = [] then (0, buf)
      else let (r, bs) = address_space_read_full gm True gpa buf in (if r = MEMTX_OK then 0 else - 1, bs))"

definition reims_vgpu_shim_write_gpa :: "guest_mem \<Rightarrow> u64 \<Rightarrow> bytes \<Rightarrow> int \<times> guest_mem" where
  "reims_vgpu_shim_write_gpa gm gpa buf =
     (if buf = [] then (0, gm)
      else let (r, gm') = address_space_write gm True gpa buf in (if r = MEMTX_OK then 0 else - 1, gm'))"

definition reims_vgpu_shim_is_ram_gpa :: "guest_mem \<Rightarrow> u64 \<Rightarrow> int" where
  "reims_vgpu_shim_is_ram_gpa gm gpa =
     (case address_space_translate_internal gm gpa 1 of
        (sec, xlat, plen) \<Rightarrow>
          if (case sec of None \<Rightarrow> False | Some fr \<Rightarrow> mr_ram (fr_mr fr)) \<and> plen \<ge> 1 then 1 else 0)"

section \<open>The walk\<close>

record ReimsVgpuGuestRamRegion =
  gpa_base :: u64
  host_va :: u64
  gr_len :: u64

record ReimsVgpuRamScan =
  sc_out :: "ReimsVgpuGuestRamRegion list"
  sc_max :: nat
  sc_found :: nat
  sc_pending :: bool
  sc_gpa :: u64
  sc_hva :: u64
  sc_len :: u64

definition reims_vgpu_ram_scan_flush :: "ReimsVgpuRamScan \<Rightarrow> ReimsVgpuRamScan" where
  "reims_vgpu_ram_scan_flush scan =
     (if \<not> sc_pending scan then scan
      else scan\<lparr>sc_out := (if sc_found scan < sc_max scan
             then (sc_out scan)[sc_found scan := \<lparr>gpa_base = sc_gpa scan, host_va = sc_hva scan, gr_len = sc_len scan\<rparr>]
             else sc_out scan),
           sc_found := sc_found scan + 1, sc_pending := False\<rparr>)"

definition reims_vgpu_ram_scan_range :: "FlatRange \<Rightarrow> ReimsVgpuRamScan \<Rightarrow> ReimsVgpuRamScan" where
  "reims_vgpu_ram_scan_range fr scan =
     (let mr = fr_mr fr in
      if \<not> mr_ram mr \<or> mr_readonly mr \<or> memory_region_is_romd mr \<or> mr_ram_device mr then reims_vgpu_ram_scan_flush scan
      else if fr_start fr div 2 ^ 64 \<noteq> 0 \<or> fr_size fr div 2 ^ 64 \<noteq> 0 then reims_vgpu_ram_scan_flush scan
      else let gpa = of_nat (fr_start fr) :: u64; bytes = of_nat (fr_size fr) :: u64 in
      if bytes = 0 then scan
      else if mr_host mr = 0 then reims_vgpu_ram_scan_flush scan
      else let hva = mr_host mr + fr_offset fr in
      if sc_pending scan \<and> sc_gpa scan + sc_len scan = gpa \<and> sc_hva scan + sc_len scan = hva \<and>
         sc_len scan \<le> 0xffffffffffffffff - bytes
      then scan\<lparr>sc_len := sc_len scan + bytes\<rparr>
      else (reims_vgpu_ram_scan_flush scan)\<lparr>sc_pending := True, sc_gpa := gpa, sc_hva := hva, sc_len := bytes\<rparr>)"

text \<open>The callback never stops the walk.\<close>

definition flatview_for_each_range :: "(FlatRange \<Rightarrow> 's \<Rightarrow> 's) \<Rightarrow> FlatRange list \<Rightarrow> 's \<Rightarrow> 's" where
  "flatview_for_each_range cb view s = fold cb view s"

abbreviation (input) GUEST_RAM_ERR_ARGS :: int where "GUEST_RAM_ERR_ARGS \<equiv> - 1"
abbreviation (input) GUEST_RAM_ERR_NO_RAM :: int where "GUEST_RAM_ERR_NO_RAM \<equiv> - 2"

text \<open>The caller's array is \<open>out\<close>, with room for \<open>length out\<close> spans; no array is the empty one.\<close>

definition reims_vgpu_shim_guest_ram_regions ::
    "guest_mem \<Rightarrow> ReimsVgpuGuestRamRegion list \<Rightarrow> int \<times> ReimsVgpuGuestRamRegion list" where
  "reims_vgpu_shim_guest_ram_regions gm out =
     (if out = [] then (GUEST_RAM_ERR_ARGS, out)
      else let scan = \<lparr>sc_out = out, sc_max = length out, sc_found = 0, sc_pending = False, sc_gpa = 0, sc_hva = 0, sc_len = 0\<rparr>;
               scan' = reims_vgpu_ram_scan_flush (flatview_for_each_range reims_vgpu_ram_scan_range (gm_view gm) scan)
           in (if sc_found scan' = 0 then GUEST_RAM_ERR_NO_RAM
               else if sc_found scan' > 0x7fffffff then GUEST_RAM_ERR_ARGS
               else int (sc_found scan'), sc_out scan'))"

section \<open>What the spans say\<close>

text \<open>The RAM the device may write, and where its bytes are, by the flat view and by a list of spans.\<close>

definition importable :: "FlatRange \<Rightarrow> bool" where
  "importable fr \<longleftrightarrow> mr_ram (fr_mr fr) \<and> \<not> mr_readonly (fr_mr fr) \<and> \<not> memory_region_is_romd (fr_mr fr) \<and>
     \<not> mr_ram_device (fr_mr fr) \<and> fr_size fr < 2 ^ 64 \<and> mr_host (fr_mr fr) \<noteq> 0"

definition view_maps :: "FlatRange list \<Rightarrow> u64 \<Rightarrow> u64 \<Rightarrow> bool" where
  "view_maps view g h \<longleftrightarrow> (\<exists>fr\<in>set view. importable fr \<and> section_covers_addr g fr \<and>
     h = mr_host (fr_mr fr) + fr_offset fr + (g - of_nat (fr_start fr)))"

definition span_maps :: "ReimsVgpuGuestRamRegion \<Rightarrow> u64 \<Rightarrow> u64 \<Rightarrow> bool" where
  "span_maps s g h \<longleftrightarrow> unat (gpa_base s) \<le> unat g \<and> unat g < unat (gpa_base s) + unat (gr_len s) \<and>
     h = host_va s + (g - gpa_base s)"

definition pending_span :: "ReimsVgpuRamScan \<Rightarrow> ReimsVgpuGuestRamRegion list" where
  "pending_span scan = (if sc_pending scan then [\<lparr>gpa_base = sc_gpa scan, host_va = sc_hva scan, gr_len = sc_len scan\<rparr>] else [])"

text \<open>
  The state of the walk after the ranges \<open>seen\<close>: \<open>spans\<close> are finished, the first
  of them stored; with the pending one they say what the ranges say.
\<close>

definition scan_inv ::
    "ReimsVgpuGuestRamRegion list \<Rightarrow> FlatRange list \<Rightarrow> ReimsVgpuGuestRamRegion list \<Rightarrow> ReimsVgpuRamScan \<Rightarrow> bool" where
  "scan_inv out seen spans scan \<longleftrightarrow>
     sc_max scan = length out \<and> sc_found scan = length spans \<and>
     sc_out scan = take (length out) spans @ drop (length spans) out \<and>
     (\<forall>g h. (\<exists>s\<in>set (spans @ pending_span scan). span_maps s g h) \<longleftrightarrow> view_maps seen g h) \<and>
     (sc_pending scan \<longrightarrow> 0 < sc_len scan \<and> (\<exists>fr\<in>set seen. unat (sc_gpa scan) \<le> fr_start fr) \<and>
        unat (sc_gpa scan) + unat (sc_len scan) \<le> 2 ^ 64)"

definition view_sorted :: "FlatRange list \<Rightarrow> bool" where
  "view_sorted view \<longleftrightarrow> sorted (map fr_start view) \<and> (\<forall>fr\<in>set view. fr_start fr + fr_size fr \<le> 2 ^ 64)"

lemma flush_inv:
  assumes "scan_inv out seen spans scan"
  shows "scan_inv out seen (spans @ pending_span scan) (reims_vgpu_ram_scan_flush scan)"
    and "\<not> sc_pending (reims_vgpu_ram_scan_flush scan)"
proof -
  show "\<not> sc_pending (reims_vgpu_ram_scan_flush scan)" by (simp add: reims_vgpu_ram_scan_flush_def)
  show "scan_inv out seen (spans @ pending_span scan) (reims_vgpu_ram_scan_flush scan)"
  proof (cases "sc_pending scan")
    case False
    then show ?thesis using assms by (simp add: reims_vgpu_ram_scan_flush_def pending_span_def)
  next
    case True
    let ?s = "\<lparr>gpa_base = sc_gpa scan, host_va = sc_hva scan, gr_len = sc_len scan\<rparr>"
    have "(take (length out) spans @ drop (length spans) out)[length spans := ?s] =
        take (length out) (spans @ [?s]) @ drop (Suc (length spans)) out" if "length spans < length out"
      using that by (simp add: list_update_append Cons_nth_drop_Suc [symmetric])
    with True assms show ?thesis
      by (auto simp: scan_inv_def reims_vgpu_ram_scan_flush_def pending_span_def)
  qed
qed

lemma view_maps_snoc:
  "view_maps (seen @ [fr]) g h \<longleftrightarrow> view_maps seen g h \<or> (importable fr \<and> section_covers_addr g fr \<and>
     h = mr_host (fr_mr fr) + fr_offset fr + (g - of_nat (fr_start fr)))"
  by (auto simp: view_maps_def)

text \<open>A range that is not reported, or empty, adds nothing.\<close>

lemma skip_inv:
  assumes "scan_inv out seen spans scan" and "\<And>g. \<not> (importable fr \<and> section_covers_addr g fr)"
  shows "scan_inv out (seen @ [fr]) spans scan"
proof -
  have "view_maps (seen @ [fr]) = view_maps seen" using assms(2) by (auto simp: view_maps_snoc fun_eq_iff)
  then show ?thesis using assms(1) by (auto simp: scan_inv_def)
qed

text \<open>The bytes of a range that the walk reports, as one span.\<close>

lemma range_span:
  assumes "importable fr" "fr_start fr + fr_size fr \<le> 2 ^ 64" "0 < fr_size fr"
  defines "s \<equiv> \<lparr>gpa_base = of_nat (fr_start fr), host_va = mr_host (fr_mr fr) + fr_offset fr, gr_len = of_nat (fr_size fr)\<rparr>"
  shows "unat (gpa_base s) = fr_start fr" "unat (gr_len s) = fr_size fr"
    "span_maps s g h \<longleftrightarrow> section_covers_addr g fr \<and> h = mr_host (fr_mr fr) + fr_offset fr + (g - of_nat (fr_start fr))"
proof -
  have "fr_start fr < 2 ^ 64" "fr_size fr < 2 ^ 64" using assms(1-3) by (auto simp: importable_def)
  then show u: "unat (gpa_base s) = fr_start fr" "unat (gr_len s) = fr_size fr"
    by (simp_all add: s_def unsigned_of_nat take_bit_nat_eq_self_iff)
  show "span_maps s g h \<longleftrightarrow> section_covers_addr g fr \<and> h = mr_host (fr_mr fr) + fr_offset fr + (g - of_nat (fr_start fr))"
    unfolding span_maps_def section_covers_addr_def u by (simp add: s_def)
qed

lemma merge_spans:
  assumes "unat (a + n) = unat a + unat n" "unat (n + k) = unat n + unat k"
  shows "span_maps \<lparr>gpa_base = a, host_va = v, gr_len = n + k\<rparr> g h \<longleftrightarrow>
    span_maps \<lparr>gpa_base = a, host_va = v, gr_len = n\<rparr> g h \<or> span_maps \<lparr>gpa_base = a + n, host_va = v + n, gr_len = k\<rparr> g h"
proof -
  have "v + n + (g - (a + n)) = v + (g - a)" by simp
  then show ?thesis unfolding span_maps_def by (auto simp: assms)
qed

lemma new_span_inv:
  assumes "scan_inv out seen spans scan" "\<not> sc_pending scan"
    and "importable fr" "fr_start fr + fr_size fr \<le> 2 ^ 64" "0 < fr_size fr"
  shows "scan_inv out (seen @ [fr]) spans (scan\<lparr>sc_pending := True, sc_gpa := of_nat (fr_start fr),
    sc_hva := mr_host (fr_mr fr) + fr_offset fr, sc_len := of_nat (fr_size fr)\<rparr>)"
proof -
  note s = range_span [OF assms(3-5)]
  have "0 < (of_nat (fr_size fr) :: u64)" using s(2) assms(5) by (simp add: word_less_nat_alt)
  then show ?thesis using assms s
    by (auto simp: scan_inv_def pending_span_def view_maps_snoc)
qed

lemma merge_inv:
  assumes "scan_inv out seen spans scan" "sc_pending scan"
    and "importable fr" "fr_start fr + fr_size fr \<le> 2 ^ 64" "0 < fr_size fr" "\<forall>fr'\<in>set seen. fr_start fr' \<le> fr_start fr"
    and "sc_gpa scan + sc_len scan = of_nat (fr_start fr)" "sc_hva scan + sc_len scan = mr_host (fr_mr fr) + fr_offset fr"
    and "sc_len scan \<le> 0xffffffffffffffff - of_nat (fr_size fr)"
  shows "scan_inv out (seen @ [fr]) spans (scan\<lparr>sc_len := sc_len scan + of_nat (fr_size fr)\<rparr>)"
proof -
  note s = range_span [OF assms(3-5), unfolded ReimsVgpuGuestRamRegion.simps]
  have p: "0 < sc_len scan" "unat (sc_gpa scan) + unat (sc_len scan) \<le> 2 ^ 64" "unat (sc_gpa scan) \<le> fr_start fr"
    using assms(1,2,6) by (auto simp: scan_inv_def)
  have wrap: "unat (sc_gpa scan + sc_len scan) = (unat (sc_gpa scan) + unat (sc_len scan)) mod 2 ^ 64"
    by (simp add: unat_word_ariths)
  have "unat (sc_gpa scan) + unat (sc_len scan) \<noteq> 2 ^ 64"
    using wrap p(3) s(1) assms(7) unat_bounds(4) [of "sc_len scan"] by auto
  then have a: "unat (sc_gpa scan + sc_len scan) = unat (sc_gpa scan) + unat (sc_len scan)" using p(2) wrap by simp
  have "unat (0xffffffffffffffff - of_nat (fr_size fr) :: u64) = 2 ^ 64 - 1 - fr_size fr"
    using s(2) assms(3) by (subst unat_sub) (simp_all add: word_le_nat_alt importable_def)
  then have "unat (sc_len scan) + fr_size fr < 2 ^ 64" using assms(3,9) by (simp add: word_le_nat_alt importable_def) linarith
  then have n: "unat (sc_len scan + of_nat (fr_size fr)) = unat (sc_len scan) + unat (of_nat (fr_size fr) :: u64)"
    using s(2) by (simp add: unat_word_ariths)
  have start: "unat (sc_gpa scan) + unat (sc_len scan) = fr_start fr" using a assms(7) s(1) by simp
  have "span_maps \<lparr>gpa_base = sc_gpa scan, host_va = sc_hva scan, gr_len = sc_len scan + of_nat (fr_size fr)\<rparr> g h \<longleftrightarrow>
      span_maps \<lparr>gpa_base = sc_gpa scan, host_va = sc_hva scan, gr_len = sc_len scan\<rparr> g h \<or>
      (section_covers_addr g fr \<and> h = mr_host (fr_mr fr) + fr_offset fr + (g - of_nat (fr_start fr)))" for g h
    unfolding merge_spans [OF a n] assms(7,8) s(3) ..
  note merged = this
  have old: "(span_maps \<lparr>gpa_base = sc_gpa scan, host_va = sc_hva scan, gr_len = sc_len scan\<rparr> g h \<or> (\<exists>s\<in>set spans. span_maps s g h)) =
      view_maps seen g h" for g h
    using assms(1,2) by (simp add: scan_inv_def pending_span_def)
  have "(\<exists>s\<in>set (spans @ pending_span (scan\<lparr>sc_len := sc_len scan + of_nat (fr_size fr)\<rparr>)). span_maps s g h) \<longleftrightarrow>
      view_maps (seen @ [fr]) g h" for g h
    using assms(2,3) by (simp add: pending_span_def merged view_maps_snoc old [symmetric]) blast
  then show ?thesis using assms(1,2,4,5) n s(2) start p
    unfolding scan_inv_def by (auto simp: word_less_nat_alt)
qed

lemma scan_range_inv:
  assumes "scan_inv out seen spans scan" "fr_start fr + fr_size fr \<le> 2 ^ 64" "\<forall>fr'\<in>set seen. fr_start fr' \<le> fr_start fr"
  shows "\<exists>spans'. scan_inv out (seen @ [fr]) spans' (reims_vgpu_ram_scan_range fr scan)"
proof (cases "importable fr \<and> 0 < fr_size fr")
  case True
  then have imp: "importable fr" "0 < fr_size fr" and hi: "fr_start fr div 2 ^ 64 = 0" "fr_size fr div 2 ^ 64 = 0"
    using assms(2) by (auto simp: importable_def)
  have nz: "(of_nat (fr_size fr) :: u64) \<noteq> 0"
    using range_span(2) [OF imp(1) assms(2) imp(2)] imp(2) by (metis ReimsVgpuGuestRamRegion.simps(3) less_irrefl unsigned_0)
  note flush = flush_inv [OF assms(1)]
  show ?thesis
    using new_span_inv [OF flush imp(1) assms(2) imp(2)] merge_inv [OF assms(1) _ imp(1) assms(2) imp(2) assms(3)] imp(1) hi nz
    unfolding reims_vgpu_ram_scan_range_def Let_def importable_def by auto
next
  case False
  have none: "\<not> (importable fr \<and> section_covers_addr g fr)" for g
    using False by (auto simp: section_covers_addr_def)
  note skip = skip_inv [OF assms(1) none] skip_inv [OF flush_inv(1) [OF assms(1)] none]
  have "reims_vgpu_ram_scan_range fr scan \<in> {scan, reims_vgpu_ram_scan_flush scan}"
    using False assms(2) by (auto simp: reims_vgpu_ram_scan_range_def Let_def importable_def)
  then show ?thesis using skip by auto
qed

lemma scan_fold_inv:
  assumes "view_sorted (seen @ view)" "scan_inv out seen spans scan"
  shows "\<exists>spans'. scan_inv out (seen @ view) spans' (fold reims_vgpu_ram_scan_range view scan)"
  using assms
proof (induction view arbitrary: seen spans scan)
  case (Cons fr view)
  have "fr_start fr + fr_size fr \<le> 2 ^ 64" "\<forall>fr'\<in>set seen. fr_start fr' \<le> fr_start fr"
    using Cons.prems(1) by (auto simp: view_sorted_def sorted_append)
  with scan_range_inv [OF Cons.prems(2)] obtain spans' where
    "scan_inv out (seen @ [fr]) spans' (reims_vgpu_ram_scan_range fr scan)" by blast
  from Cons.IH [OF _ this] Cons.prems(1) show ?case by simp
qed auto

section \<open>A concrete machine\<close>

definition sample_ram :: MemoryRegion where
  "sample_ram = \<lparr>mr_id = 1, mr_ram = True, mr_readonly = False, mr_rom_device = False, mr_romd_mode = False,
     mr_ram_device = False, mr_host = 0x7f0000000000, mr_ram_addr = 0\<rparr>"

text \<open>Firmware ROM, and RAM in two adjoining ranges of one block.\<close>

definition sample_mem :: guest_mem where
  "sample_mem = \<lparr>gm_view =
     [\<lparr>fr_start = 0x1000, fr_size = 0x1000, fr_mr = sample_ram\<lparr>mr_id := 2, mr_readonly := True, mr_host := 0x7e0000000000\<rparr>, fr_offset = 0\<rparr>,
      \<lparr>fr_start = 0x4000, fr_size = 0x1000, fr_mr = sample_ram, fr_offset = 0\<rparr>,
      \<lparr>fr_start = 0x5000, fr_size = 0x3000, fr_mr = sample_ram, fr_offset = 0x1000\<rparr>],
     gm_ram = (\<lambda>_. 0)\<rparr>"

lemma sample_mem_sorted: "view_sorted (gm_view sample_mem)"
  by (simp add: view_sorted_def sample_mem_def)

section \<open>Properties\<close>

text \<open>
  C21 (\<^verbatim>\<open>reims_vgpu_shim_guest_ram_regions\<close>).  The spans the walk finds name exactly the
  RAM that the guest may write, each byte at its true host address: a guest address
  lies in a span at a host address exactly when a range of writable RAM puts
  it there.  The caller gets the first spans its array has room for and the
  total count, so a short array is noticed; without any span, or with more than
  the result can carry, it gets an error.
\<close>

theorem ram_regions_exact:
  assumes "view_sorted (gm_view gm)" and "out \<noteq> []"
  shows "\<exists>spans. (\<forall>g h. (\<exists>s\<in>set spans. span_maps s g h) \<longleftrightarrow> view_maps (gm_view gm) g h) \<and>
    reims_vgpu_shim_guest_ram_regions gm out =
      (if spans = [] then GUEST_RAM_ERR_NO_RAM
       else if length spans > 0x7fffffff then GUEST_RAM_ERR_ARGS
       else int (length spans),
       take (length out) spans @ drop (length spans) out)"
proof -
  let ?s0 = "\<lparr>sc_out = out, sc_max = length out, sc_found = 0, sc_pending = False, sc_gpa = 0, sc_hva = 0, sc_len = 0\<rparr>"
  have "scan_inv out [] [] ?s0" by (simp add: scan_inv_def pending_span_def view_maps_def)
  with scan_fold_inv [of "[]" "gm_view gm" out "[]" ?s0] assms(1) obtain spans0 where
    "scan_inv out (gm_view gm) spans0 (fold reims_vgpu_ram_scan_range (gm_view gm) ?s0)" by auto
  note f = flush_inv [OF this]
  let ?s1 = "reims_vgpu_ram_scan_flush (fold reims_vgpu_ram_scan_range (gm_view gm) ?s0)"
  from f obtain spans where inv: "scan_inv out (gm_view gm) spans ?s1" and np: "\<not> sc_pending ?s1" by blast
  have "reims_vgpu_shim_guest_ram_regions gm out =
      (if spans = [] then GUEST_RAM_ERR_NO_RAM else if length spans > 0x7fffffff then GUEST_RAM_ERR_ARGS else int (length spans),
       take (length out) spans @ drop (length spans) out)"
    using inv assms(2) by (simp add: reims_vgpu_shim_guest_ram_regions_def flatview_for_each_range_def scan_inv_def Let_def)
  moreover have "\<forall>g h. (\<exists>s\<in>set spans. span_maps s g h) \<longleftrightarrow> view_maps (gm_view gm) g h"
    using inv np by (simp add: scan_inv_def pending_span_def)
  ultimately show ?thesis by blast
qed

theorem ram_regions_exact_witness:
  "\<exists>spans. span_maps (hd spans) 0x4000 0x7f0000000000 \<and> length spans = 1 \<and>
    reims_vgpu_shim_guest_ram_regions sample_mem [\<lparr>gpa_base = 0, host_va = 0, gr_len = 0\<rparr>] = (1, spans)"
proof -
  let ?o = "\<lparr>gpa_base = 0, host_va = 0, gr_len = 0\<rparr> :: ReimsVgpuGuestRamRegion"
  have run: "reims_vgpu_shim_guest_ram_regions sample_mem [?o] = (1, [\<lparr>gpa_base = 0x4000, host_va = 0x7f0000000000, gr_len = 0x4000\<rparr>])"
    by (simp add: reims_vgpu_shim_guest_ram_regions_def flatview_for_each_range_def reims_vgpu_ram_scan_range_def
        reims_vgpu_ram_scan_flush_def sample_mem_def sample_ram_def memory_region_is_romd_def)
  obtain spans where s: "\<forall>g h. (\<exists>s\<in>set spans. span_maps s g h) \<longleftrightarrow> view_maps (gm_view sample_mem) g h" and
    r: "reims_vgpu_shim_guest_ram_regions sample_mem [?o] =
      (if spans = [] then GUEST_RAM_ERR_NO_RAM else if length spans > 0x7fffffff then GUEST_RAM_ERR_ARGS else int (length spans),
       take (length [?o]) spans @ drop (length spans) [?o])"
    using ram_regions_exact [OF sample_mem_sorted, of "[?o]"] by blast
  have l: "length spans = 1" using r unfolding run by (auto split: if_split_asm)
  have "view_maps (gm_view sample_mem) 0x4000 0x7f0000000000"
    by (auto simp: view_maps_def sample_mem_def sample_ram_def importable_def memory_region_is_romd_def section_covers_addr_def)
  then have "span_maps (hd spans) 0x4000 0x7f0000000000" using s l by (cases spans) auto
  moreover have "reims_vgpu_shim_guest_ram_regions sample_mem [?o] = (1, spans)" using r l by (cases spans) auto
  ultimately show ?thesis using l by blast
qed

text \<open>
  The test \<^verbatim>\<open>reims_vgpu_shim_is_ram_gpa\<close> accepts read-only RAM: for an address in
  a ROM range it answers 1, although the walk does not report the byte and a
  write to it is refused.
\<close>

lemma is_ram_gpa_accepts_rom:
  assumes "find (section_covers_addr gpa) (gm_view gm) = Some fr" and "mr_ram (fr_mr fr)" and "mr_readonly (fr_mr fr)"
  shows "reims_vgpu_shim_is_ram_gpa gm gpa = 1 \<and> fst (reims_vgpu_shim_write_gpa gm gpa [b]) = - 1 \<and> \<not> importable fr"
proof -
  have c: "fr_start fr \<le> unat gpa" "unat gpa < fr_start fr + fr_size fr"
    using assms(1) by (auto simp: find_Some_iff section_covers_addr_def)
  then have tr: "address_space_translate_internal gm gpa 1 = (Some fr, of_nat (unat gpa - fr_start fr) + fr_offset fr, 1)"
    using assms(1,2) by (simp add: address_space_translate_internal_def Let_def)
  have "memory_access_size 1 a = 1" for a using memory_access_size_bounds [of 1 a] by simp
  then have "flatview_write_continue gm True gpa [b] = (MEMTX_DECODE_ERROR, gm)"
    using assms(2,3) tr by (subst flatview_write_continue.simps)
      (simp add: flatview_write_continue_step_def flatview_access_allowed_def memory_access_is_direct_def flatview_write_continue.simps [of _ _ _ "[]"])
  then show ?thesis
    using assms tr by (simp add: reims_vgpu_shim_is_ram_gpa_def reims_vgpu_shim_write_gpa_def address_space_write_def
        flatview_write_def flatview_access_allowed_def importable_def)
qed

end
