(* ===== verification/Vgpu_Pages.thy ===== *)
theory Vgpu_Pages
  imports Vgpu_Ram "HOL-Library.Multiset"
begin

text \<open>
  Host views of guest pages, \<^verbatim>\<open>hw/display/reims-vgpu-mmio.c\<close>: \<^verbatim>\<open>map_pages\<close> returns the host
  address of a run of guest pages if it is contiguous and otherwise builds
  a packed view with one shared file mapping per page (the POSIX branch);
  \<^verbatim>\<open>unmap_pages\<close> releases such a view.  The host's page tables are a function from
  host addresses to what lies there: a byte of a file, anonymous memory, or
  a reservation.  The answers of \<^verbatim>\<open>mmap\<close> are parameters.
\<close>

section \<open>The host\<close>

datatype host_loc = Reserved | File int u64 | Anon u64

record RAMBlock =
  rb_host :: u64
  rb_max_length :: u64
  rb_shared :: bool
  rb_fd :: int
  rb_fd_offset :: u64

type_synonym host_map = "u64 \<Rightarrow> host_loc option"

record pages_state =
  ps_map :: host_map
  ps_blocks :: "RAMBlock list"
  ps_mru :: "RAMBlock option"
  page_views :: "(u64 \<times> nat) list"

text \<open>What one call of \<^verbatim>\<open>map_pages\<close> hears from the host: the address of the reservation, and which pages map.\<close>

record mmap_answers =
  os_reserve :: "u64 option"
  os_fixed_ok :: "nat \<Rightarrow> bool"
  os_errno :: int

record ReimsVgpuMapPagesFailure =
  mf_stage :: nat
  mf_host_errno :: int
  mf_page_index :: u64

abbreviation (input) PAGE :: u64 where "PAGE \<equiv> 0x4000"
abbreviation (input) UINT64_MAX :: u64 where "UINT64_MAX \<equiv> 0xffffffffffffffff"
abbreviation (input) FAILURE_NONE :: nat where "FAILURE_NONE \<equiv> 0"
abbreviation (input) FAILURE_RESERVATION :: nat where "FAILURE_RESERVATION \<equiv> 1"
abbreviation (input) FAILURE_ALIAS :: nat where "FAILURE_ALIAS \<equiv> 2"
abbreviation (input) FAILURE_INVALID_GUEST_PAGE :: nat where "FAILURE_INVALID_GUEST_PAGE \<equiv> 3"

definition map_range :: "u64 \<Rightarrow> nat \<Rightarrow> (nat \<Rightarrow> host_loc option) \<Rightarrow> host_map \<Rightarrow> host_map" where
  "map_range base n f m = (\<lambda>a. if unat (a - base) < n then f (unat (a - base)) else m a)"

definition munmap :: "u64 \<Rightarrow> nat \<Rightarrow> host_map \<Rightarrow> host_map" where
  "munmap base n m = map_range base n (\<lambda>_. None) m"

definition qemu_ram_block_from_host :: "pages_state \<Rightarrow> u64 \<Rightarrow> (RAMBlock \<times> u64) option" where
  "qemu_ram_block_from_host s host =
     map_option (\<lambda>block. (block, host - rb_host block))
       (find (\<lambda>block. rb_host block \<noteq> 0 \<and> host - rb_host block < rb_max_length block)
         ((case ps_mru s of None \<Rightarrow> [] | Some b \<Rightarrow> [b]) @ ps_blocks s))"

section \<open>Operations\<close>

text \<open>The host address of the whole run, or 0.\<close>

definition reims_vgpu_contiguous_run_hva :: "guest_mem \<Rightarrow> u64 list \<Rightarrow> u64" where
  "reims_vgpu_contiguous_run_hva gm gpas =
     (let count = length gpas; total = count * 0x4000 in
      if count > unat UINT64_MAX div 0x4000 \<or> gpas ! 0 > UINT64_MAX - of_nat (count - 1) * PAGE then 0
      else if \<exists>i\<in>set [1..<count]. gpas ! i \<noteq> gpas ! 0 + of_nat i * PAGE then 0
      else case address_space_translate_internal gm (gpas ! 0) total of
        (None, xlat, plen) \<Rightarrow> 0
      | (Some fr, xlat, plen) \<Rightarrow>
          if \<not> mr_ram (fr_mr fr) \<or> plen < total then 0
          else let hva = mr_host (fr_mr fr) + xlat in
            if hva AND (PAGE - 1) \<noteq> 0 then 0 else hva)"

text \<open>One guest page: its host address, if it is a whole page of RAM.\<close>

definition resolve_page :: "guest_mem \<Rightarrow> u64 \<Rightarrow> u64 option" where
  "resolve_page gm gpa =
     (case address_space_translate_internal gm gpa 0x4000 of
        (None, xlat, plen) \<Rightarrow> None
      | (Some fr, xlat, plen) \<Rightarrow>
          if \<not> mr_ram (fr_mr fr) \<or> plen < 0x4000 then None
          else let hva = mr_host (fr_mr fr) + xlat in
            if hva AND (PAGE - 1) \<noteq> 0 then None else Some hva)"

fun reims_vgpu_resolve_guest_hvas :: "guest_mem \<Rightarrow> nat \<Rightarrow> u64 list \<Rightarrow> nat + u64 list" where
  "reims_vgpu_resolve_guest_hvas gm i [] = Inr []"
| "reims_vgpu_resolve_guest_hvas gm i (gpa # gpas) =
     (case resolve_page gm gpa of
        None \<Rightarrow> Inl i
      | Some hva \<Rightarrow> (case reims_vgpu_resolve_guest_hvas gm (i + 1) gpas of Inl j \<Rightarrow> Inl j | Inr hvas \<Rightarrow> Inr (hva # hvas)))"

text \<open>The shared mapping of one page of the view; a failure carries the error number, 0 before the call.\<close>

definition alias_page :: "mmap_answers \<Rightarrow> pages_state \<Rightarrow> u64 \<Rightarrow> nat \<Rightarrow> u64 \<Rightarrow> int + pages_state" where
  "alias_page os s view i hva =
     (case qemu_ram_block_from_host s hva of
        None \<Rightarrow> Inl 0
      | Some (rb, rb_offset) \<Rightarrow>
          if \<not> rb_shared rb then Inl 0
          else if rb_fd rb < 0 \<or> rb_offset > UINT64_MAX - rb_fd_offset rb then Inl 0
          else let fd_offset = rb_fd_offset rb + rb_offset in
          if fd_offset AND (PAGE - 1) \<noteq> 0 then Inl 0
          else if \<not> os_fixed_ok os i then Inl (os_errno os)
          else Inr (s\<lparr>ps_map := map_range (view + of_nat i * PAGE) 0x4000
                        (\<lambda>k. Some (File (rb_fd rb) (fd_offset + of_nat k))) (ps_map s)\<rparr>))"

fun alias_pages :: "mmap_answers \<Rightarrow> pages_state \<Rightarrow> u64 \<Rightarrow> nat \<Rightarrow> u64 list \<Rightarrow> (nat \<times> int \<times> pages_state) + pages_state" where
  "alias_pages os s view i [] = Inr s"
| "alias_pages os s view i (hva # hvas) =
     (case alias_page os s view i hva of
        Inl e \<Rightarrow> Inl (i, e, s)
      | Inr s' \<Rightarrow> alias_pages os s' view (i + 1) hvas)"

definition reims_vgpu_pack_fragmented_view ::
    "mmap_answers \<Rightarrow> pages_state \<Rightarrow> u64 list \<Rightarrow> (ReimsVgpuMapPagesFailure + u64) \<times> pages_state" where
  "reims_vgpu_pack_fragmented_view os s hvas =
     (let total = length hvas * 0x4000 in
      case os_reserve os of
        None \<Rightarrow> (Inl \<lparr>mf_stage = FAILURE_RESERVATION, mf_host_errno = os_errno os, mf_page_index = 0\<rparr>, s)
      | Some view \<Rightarrow>
          let s1 = s\<lparr>ps_map := map_range view total (\<lambda>_. Some Reserved) (ps_map s)\<rparr> in
          (case alias_pages os s1 view 0 hvas of
             Inl (i, e, s2) \<Rightarrow>
               (Inl \<lparr>mf_stage = FAILURE_ALIAS, mf_host_errno = e, mf_page_index = of_nat i\<rparr>,
                s2\<lparr>ps_map := munmap view total (ps_map s2)\<rparr>)
           | Inr s2 \<Rightarrow> (Inr view, s2\<lparr>page_views := page_views s2 @ [(view, total)]\<rparr>)))"

definition reims_vgpu_mmio_map_pages ::
    "mmap_answers \<Rightarrow> guest_mem \<Rightarrow> pages_state \<Rightarrow> u64 list \<Rightarrow> (ReimsVgpuMapPagesFailure + u64) \<times> pages_state" where
  "reims_vgpu_mmio_map_pages os gm s gpas =
     (let count = length gpas in
      if count = 0 \<or> count > unat UINT64_MAX div 0x4000
      then (Inl \<lparr>mf_stage = FAILURE_INVALID_GUEST_PAGE, mf_host_errno = 0, mf_page_index = UINT64_MAX\<rparr>, s)
      else let hva = reims_vgpu_contiguous_run_hva gm gpas in
      if hva \<noteq> 0 then (Inr hva, s)
      else case reims_vgpu_resolve_guest_hvas gm 0 gpas of
        Inl i \<Rightarrow> (Inl \<lparr>mf_stage = FAILURE_INVALID_GUEST_PAGE, mf_host_errno = 0, mf_page_index = of_nat i\<rparr>, s)
      | Inr hvas \<Rightarrow>
          if \<forall>i\<in>set [1..<count]. hvas ! i = hvas ! 0 + of_nat i * PAGE then (Inr (hvas ! 0), s)
          else reims_vgpu_pack_fragmented_view os s hvas)"

text \<open>Removal from a \<^verbatim>\<open>GArray\<close> moves the last element into the gap.\<close>

definition g_array_remove_index_fast :: "nat \<Rightarrow> 'a list \<Rightarrow> 'a list" where
  "g_array_remove_index_fast i xs = butlast (xs[i := last xs])"

fun view_index :: "u64 \<Rightarrow> nat \<Rightarrow> (u64 \<times> nat) list \<Rightarrow> nat option" where
  "view_index ptr i [] = None"
| "view_index ptr i (v # vs) = (if fst v = ptr then Some i else view_index ptr (i + 1) vs)"

definition reims_vgpu_mmio_unmap_pages :: "pages_state \<Rightarrow> u64 \<Rightarrow> pages_state" where
  "reims_vgpu_mmio_unmap_pages s ptr =
     (if ptr = 0 then s
      else case view_index ptr 0 (page_views s) of
        None \<Rightarrow> s
      | Some i \<Rightarrow> s\<lparr>ps_map := munmap ptr (snd (page_views s ! i)) (ps_map s),
                   page_views := g_array_remove_index_fast i (page_views s)\<rparr>)"

definition reims_vgpu_mmio_free_page_views :: "pages_state \<Rightarrow> pages_state" where
  "reims_vgpu_mmio_free_page_views s =
     s\<lparr>ps_map := fold (\<lambda>(ptr, n) m. munmap ptr n m) (page_views s) (ps_map s), page_views := []\<rparr>"

section \<open>Ranges of host addresses\<close>

lemma window:
  assumes "c + p \<le> 2 ^ 64" "0 < p"
  shows "unat (a - (base + of_nat c) :: u64) < p \<longleftrightarrow> c \<le> unat (a - base) \<and> unat (a - base) < c + p"
proof -
  define d where "d = a - base"
  have c: "unat (of_nat c :: u64) = c" using assms by (simp add: unsigned_of_nat take_bit_nat_eq_self_iff)
  have e: "a - (base + of_nat c) = d - of_nat c" by (simp add: d_def)
  have v: "unat (d - of_nat c) = (if c \<le> unat d then unat d - c else unat d + 2 ^ 64 - c)"
    using c by (simp add: unat_sub_if' word_le_nat_alt)
  show ?thesis unfolding e v d_def [symmetric] using assms unat_bounds(4) [of d] by auto
qed

lemma window_offset:
  assumes "k < n" "n \<le> 2 ^ 64"
  shows "unat (base + of_nat k - base :: u64) = k"
  using assms by (simp add: unsigned_of_nat take_bit_nat_eq_self_iff)

section \<open>Resolving guest pages\<close>

lemma resolve_hvas:
  "reims_vgpu_resolve_guest_hvas gm i gpas = Inr hvas \<Longrightarrow>
    length hvas = length gpas \<and> (\<forall>j<length gpas. resolve_page gm (gpas ! j) = Some (hvas ! j))"
proof (induction gpas arbitrary: i hvas)
  case (Cons g gpas)
  then obtain h hs where h: "resolve_page gm g = Some h" "reims_vgpu_resolve_guest_hvas gm (i + 1) gpas = Inr hs" "hvas = h # hs"
    by (auto split: option.split_asm sum.split_asm)
  with Cons.IH [OF h(2)] show ?case by (auto simp: nth_Cons split: nat.split)
qed simp

text \<open>Where a resolved page lies in its range.\<close>

lemma resolve_page_iff:
  "resolve_page gm gpa = Some hva \<longleftrightarrow> (\<exists>fr. find (section_covers_addr gpa) (gm_view gm) = Some fr \<and> mr_ram (fr_mr fr) \<and>
     0x4000 \<le> fr_size fr - (unat gpa - fr_start fr) \<and>
     hva = mr_host (fr_mr fr) + (of_nat (unat gpa - fr_start fr) + fr_offset fr) \<and> hva AND (PAGE - 1) = 0)"
  by (auto simp: resolve_page_def address_space_translate_internal_def Let_def min_def split: option.split)

lemma page_aligned_add: "a AND (PAGE - 1) = 0 \<Longrightarrow> (a + of_nat i * PAGE) AND (PAGE - 1) = 0"
proof -
  have m: "x AND (PAGE - 1) = take_bit 14 x" for x :: u64 by (simp add: take_bit_eq_mask mask_eq_exp_minus_1)
  have "of_nat i * PAGE = push_bit 14 (of_nat i)" by (simp add: push_bit_eq_mult)
  then have "take_bit 14 (of_nat i * PAGE) = 0" by (simp add: take_bit_push_bit)
  then show "a AND (PAGE - 1) = 0 \<Longrightarrow> (a + of_nat i * PAGE) AND (PAGE - 1) = 0" unfolding m by (simp add: aligned_add_diff)
qed

lemma contiguous_cond:
  assumes "reims_vgpu_contiguous_run_hva gm gpas \<noteq> 0"
  shows "0 < i \<Longrightarrow> i < length gpas \<Longrightarrow> gpas ! i = gpas ! 0 + of_nat i * PAGE"
    "\<exists>fr. find (section_covers_addr (gpas ! 0)) (gm_view gm) = Some fr \<and> mr_ram (fr_mr fr) \<and>
      length gpas * 0x4000 \<le> fr_size fr - (unat (gpas ! 0) - fr_start fr) \<and>
      reims_vgpu_contiguous_run_hva gm gpas = mr_host (fr_mr fr) + (of_nat (unat (gpas ! 0) - fr_start fr) + fr_offset fr) \<and>
      reims_vgpu_contiguous_run_hva gm gpas AND (PAGE - 1) = 0"
proof -
  let ?n = "length gpas * 0x4000"
  have c: "\<not> (\<exists>i\<in>set [1..<length gpas]. gpas ! i \<noteq> gpas ! 0 + of_nat i * PAGE)"
    and e: "reims_vgpu_contiguous_run_hva gm gpas = (case address_space_translate_internal gm (gpas ! 0) ?n of
        (None, xlat, plen) \<Rightarrow> 0
      | (Some fr, xlat, plen) \<Rightarrow>
          if \<not> mr_ram (fr_mr fr) \<or> plen < ?n then 0
          else let hva = mr_host (fr_mr fr) + xlat in if hva AND (PAGE - 1) \<noteq> 0 then 0 else hva)"
    using assms unfolding reims_vgpu_contiguous_run_hva_def Let_def by (simp_all only: split: if_split_asm) simp_all
  show "0 < i \<Longrightarrow> i < length gpas \<Longrightarrow> gpas ! i = gpas ! 0 + of_nat i * PAGE" using c by auto
  show "\<exists>fr. find (section_covers_addr (gpas ! 0)) (gm_view gm) = Some fr \<and> mr_ram (fr_mr fr) \<and>
      ?n \<le> fr_size fr - (unat (gpas ! 0) - fr_start fr) \<and>
      reims_vgpu_contiguous_run_hva gm gpas = mr_host (fr_mr fr) + (of_nat (unat (gpas ! 0) - fr_start fr) + fr_offset fr) \<and>
      reims_vgpu_contiguous_run_hva gm gpas AND (PAGE - 1) = 0"
    using assms unfolding e
    by (simp add: address_space_translate_internal_def Let_def split: option.split_asm if_split_asm)
qed

text \<open>A contiguous run resolves page by page, to consecutive host pages.\<close>

lemma contiguous_run:
  assumes "view_ok (gm_view gm)" "reims_vgpu_contiguous_run_hva gm gpas = h" "h \<noteq> 0" "i < length gpas"
  shows "resolve_page gm (gpas ! i) = Some (h + of_nat i * PAGE)"
proof -
  let ?a = "gpas ! 0" and ?n = "length gpas * 0x4000"
  have seq: "gpas ! i = ?a + of_nat i * PAGE" using contiguous_cond(1) [of gm gpas i] assms(2-4) by (cases "i = 0") simp_all
  obtain fr where fr: "find (section_covers_addr ?a) (gm_view gm) = Some fr" "mr_ram (fr_mr fr)"
      "?n \<le> fr_size fr - (unat ?a - fr_start fr)"
      "h = mr_host (fr_mr fr) + (of_nat (unat ?a - fr_start fr) + fr_offset fr)" "h AND (PAGE - 1) = 0"
    using contiguous_cond(2) [of gm gpas] assms(2,3) by blast
  have ok: "range_ok fr" and cov: "section_covers_addr ?a fr"
    using fr(1) assms(1) by (auto simp: find_Some_iff view_ok_def list_all_iff)
  have k: "i * 0x4000 < fr_size fr - (unat ?a - fr_start fr)" using fr(3) assms(4) by simp
  note sh = covers_shift [OF ok cov k]
  have g: "gpas ! i = ?a + of_nat (i * 0x4000)" using seq by simp
  have u: "unat (gpas ! i) - fr_start fr = (unat ?a - fr_start fr) + i * 0x4000"
    using sh cov unfolding g by (simp add: section_covers_addr_def)
  have "find (section_covers_addr (gpas ! i)) (gm_view gm) = Some fr"
    using find_covers_same [OF assms(1) fr(1)] sh unfolding g by blast
  moreover have "0x4000 \<le> fr_size fr - (unat (gpas ! i) - fr_start fr)" using fr(3) assms(4) unfolding u by simp
  moreover have "h + of_nat i * PAGE = mr_host (fr_mr fr) + (of_nat (unat (gpas ! i) - fr_start fr) + fr_offset fr)"
    unfolding u fr(4) by simp
  ultimately show ?thesis using fr(2) page_aligned_add [OF fr(5)] unfolding resolve_page_iff by blast
qed

section \<open>Backing\<close>

text \<open>
  What the memory system guarantees about guest RAM: the blocks do not overlap,
  every RAM range lies in one, and a shared block with a file maps that file
  from its offset on.
\<close>

definition in_block :: "u64 \<Rightarrow> RAMBlock \<Rightarrow> bool" where
  "in_block a rb \<longleftrightarrow> a - rb_host rb < rb_max_length rb"

definition blocks_ok :: "pages_state \<Rightarrow> bool" where
  "blocks_ok s \<longleftrightarrow> (\<forall>b. ps_mru s = Some b \<longrightarrow> b \<in> set (ps_blocks s)) \<and>
     (\<forall>a. \<forall>b\<in>set (ps_blocks s). \<forall>b'\<in>set (ps_blocks s). in_block a b \<and> in_block a b' \<longrightarrow> b = b') \<and>
     (\<forall>b\<in>set (ps_blocks s). rb_host b \<noteq> 0)"

definition block_mapped :: "host_map \<Rightarrow> RAMBlock \<Rightarrow> bool" where
  "block_mapped m rb \<longleftrightarrow> (\<forall>a. in_block a rb \<longrightarrow> m a \<noteq> None \<and>
     (rb_shared rb \<and> 0 \<le> rb_fd rb \<longrightarrow> m a = Some (File (rb_fd rb) (rb_fd_offset rb + (a - rb_host rb)))))"

definition ranges_backed :: "guest_mem \<Rightarrow> pages_state \<Rightarrow> bool" where
  "ranges_backed gm s \<longleftrightarrow> (\<forall>fr\<in>set (gm_view gm). mr_ram (fr_mr fr) \<longrightarrow>
     (\<exists>rb\<in>set (ps_blocks s). \<forall>k<fr_size fr. in_block (mr_host (fr_mr fr) + fr_offset fr + of_nat k) rb))"

definition backing_ok :: "guest_mem \<Rightarrow> pages_state \<Rightarrow> bool" where
  "backing_ok gm s \<longleftrightarrow> blocks_ok s \<and> ranges_backed gm s \<and> (\<forall>rb\<in>set (ps_blocks s). block_mapped (ps_map s) rb)"

text \<open>A reservation is fresh and does not wrap.\<close>

definition reserve_fresh :: "mmap_answers \<Rightarrow> pages_state \<Rightarrow> nat \<Rightarrow> bool" where
  "reserve_fresh os s n \<longleftrightarrow> (\<forall>v. os_reserve os = Some v \<longrightarrow> v \<noteq> 0 \<and> n \<le> 2 ^ 64 \<and>
     (\<forall>a. unat (a - v) < n \<longrightarrow> ps_map s a = None))"

lemma from_host:
  assumes "blocks_ok s" "rb \<in> set (ps_blocks s)" "in_block a rb"
  shows "qemu_ram_block_from_host s a = Some (rb, a - rb_host rb)"
proof -
  let ?P = "\<lambda>block. rb_host block \<noteq> 0 \<and> a - rb_host block < rb_max_length block"
  let ?l = "(case ps_mru s of None \<Rightarrow> [] | Some b \<Rightarrow> [b]) @ ps_blocks s"
  have "rb \<in> set ?l" "?P rb" using assms by (auto simp: blocks_ok_def in_block_def)
  then obtain b where b: "find ?P ?l = Some b" by (cases "find ?P ?l") (auto simp: find_None_iff)
  then have "b \<in> set ?l" "?P b" unfolding find_Some_iff by (metis nth_mem)+
  then have "b \<in> set (ps_blocks s)" "in_block a b" using assms(1) by (auto simp: blocks_ok_def in_block_def split: option.split_asm)
  then have "b = rb" using assms unfolding blocks_ok_def by blast
  then show ?thesis using b by (simp add: qemu_ram_block_from_host_def)
qed

text \<open>A resolved page lies in one block.\<close>

lemma resolved_in_block:
  assumes "ranges_backed gm s" "resolve_page gm gpa = Some hva"
  obtains rb where "rb \<in> set (ps_blocks s)" "\<forall>k<0x4000. in_block (hva + of_nat k) rb"
proof -
  obtain fr where fr: "find (section_covers_addr gpa) (gm_view gm) = Some fr" "mr_ram (fr_mr fr)"
      "0x4000 \<le> fr_size fr - (unat gpa - fr_start fr)"
      "hva = mr_host (fr_mr fr) + (of_nat (unat gpa - fr_start fr) + fr_offset fr)"
    using assms(2) unfolding resolve_page_iff by blast
  then have "fr \<in> set (gm_view gm)" by (auto simp: find_Some_iff)
  with assms(1) fr(2) obtain rb where rb: "rb \<in> set (ps_blocks s)"
      "\<forall>k<fr_size fr. in_block (mr_host (fr_mr fr) + fr_offset fr + of_nat k) rb"
    by (auto simp: ranges_backed_def)
  have "in_block (hva + of_nat k) rb" if "k < 0x4000" for k
  proof -
    have "hva + of_nat k = mr_host (fr_mr fr) + fr_offset fr + of_nat (unat gpa - fr_start fr + k)" by (simp add: fr(4))
    moreover have "unat gpa - fr_start fr + k < fr_size fr" using fr(3) that by linarith
    ultimately show ?thesis using rb(2) by metis
  qed
  then show ?thesis using that rb(1) by blast
qed

section \<open>Packing a view\<close>

lemma alias_pageE:
  assumes "alias_page os s view i hva = Inr s'"
  obtains rb off where "qemu_ram_block_from_host s hva = Some (rb, off)" "rb_shared rb" "0 \<le> rb_fd rb"
    "s' = s\<lparr>ps_map := map_range (view + of_nat i * PAGE) 0x4000
       (\<lambda>k. Some (File (rb_fd rb) (rb_fd_offset rb + off + of_nat k))) (ps_map s)\<rparr>"
  using assms unfolding alias_page_def Let_def
  by (auto split: option.split_asm if_split_asm)

lemma from_host_map [simp]: "qemu_ram_block_from_host (s\<lparr>ps_map := m\<rparr>) = qemu_ram_block_from_host s"
  by (simp add: qemu_ram_block_from_host_def fun_eq_iff)

text \<open>Page \<open>i\<close> of a view at \<open>view\<close>: the byte range, and what it shows.\<close>

definition page_shows :: "pages_state \<Rightarrow> host_map \<Rightarrow> u64 \<Rightarrow> nat \<Rightarrow> u64 \<Rightarrow> bool" where
  "page_shows s m view i hva \<longleftrightarrow> (\<exists>rb off. qemu_ram_block_from_host s hva = Some (rb, off) \<and> rb_shared rb \<and> 0 \<le> rb_fd rb \<and>
     (\<forall>k<0x4000. m (view + of_nat (i * 0x4000 + k)) = Some (File (rb_fd rb) (rb_fd_offset rb + off + of_nat k))))"

lemma page_window:
  assumes "(i + 1) * 0x4000 \<le> (2 :: nat) ^ 64"
  shows "unat (a - (view + of_nat i * PAGE)) < 0x4000 \<longleftrightarrow> i * 0x4000 \<le> unat (a - view) \<and> unat (a - view) < (i + 1) * 0x4000"
  using window [of "i * 0x4000" "0x4000" a view] assms by (simp add: add.commute)

lemma page_byte:
  assumes "(i + 1) * 0x4000 \<le> (2 :: nat) ^ 64" "k < 0x4000"
  shows "unat (view + of_nat (i * 0x4000 + k) - view :: u64) = i * 0x4000 + k"
  using assms by (intro window_offset [of _ "(i + 1) * 0x4000"]) simp_all

lemma alias_page_effect:
  assumes "alias_page os s view i hva = Inr s'" "(i + 1) * 0x4000 \<le> (2 :: nat) ^ 64"
  shows "s' = s\<lparr>ps_map := ps_map s'\<rparr>"
    "unat (a - view) < i * 0x4000 \<or> (i + 1) * 0x4000 \<le> unat (a - view) \<Longrightarrow> ps_map s' a = ps_map s a"
    "page_shows s (ps_map s') view i hva"
proof -
  obtain rb off where r: "qemu_ram_block_from_host s hva = Some (rb, off)" "rb_shared rb" "0 \<le> rb_fd rb"
    and s': "s' = s\<lparr>ps_map := map_range (view + of_nat i * PAGE) 0x4000
       (\<lambda>k. Some (File (rb_fd rb) (rb_fd_offset rb + off + of_nat k))) (ps_map s)\<rparr>"
    using assms(1) by (rule alias_pageE)
  show "s' = s\<lparr>ps_map := ps_map s'\<rparr>" by (simp add: s')
  show "unat (a - view) < i * 0x4000 \<or> (i + 1) * 0x4000 \<le> unat (a - view) \<Longrightarrow> ps_map s' a = ps_map s a"
    using page_window [OF assms(2), of a view] by (auto simp: s' map_range_def)
  have "unat (view + of_nat (i * 0x4000 + k) - (view + of_nat i * PAGE)) = k" if "k < 0x4000" for k
    using that by (simp add: unsigned_of_nat take_bit_nat_eq_self_iff)
  then have "\<forall>k<0x4000. ps_map s' (view + of_nat (i * 0x4000 + k)) = Some (File (rb_fd rb) (rb_fd_offset rb + off + of_nat k))"
    unfolding s' by (simp add: map_range_def del: of_nat_add of_nat_mult)
  then show "page_shows s (ps_map s') view i hva" unfolding page_shows_def using r by blast
qed

text \<open>The loop: only the pages of the view change, and when it ends each shows its guest page.\<close>

lemma alias_pages_effect:
  assumes "(i + length hvas) * 0x4000 \<le> (2 :: nat) ^ 64"
  shows "case alias_pages os s view i hvas of
      Inl (j, e, s') \<Rightarrow> s' = s\<lparr>ps_map := ps_map s'\<rparr> \<and>
        (\<forall>a. unat (a - view) < i * 0x4000 \<or> (i + length hvas) * 0x4000 \<le> unat (a - view) \<longrightarrow> ps_map s' a = ps_map s a)
    | Inr s' \<Rightarrow> s' = s\<lparr>ps_map := ps_map s'\<rparr> \<and>
        (\<forall>a. unat (a - view) < i * 0x4000 \<or> (i + length hvas) * 0x4000 \<le> unat (a - view) \<longrightarrow> ps_map s' a = ps_map s a) \<and>
        (\<forall>j<length hvas. page_shows s (ps_map s') view (i + j) (hvas ! j))"
  using assms
proof (induction hvas arbitrary: i s)
  case (Cons h hvas)
  show ?case
  proof (cases "alias_page os s view i h")
    case (Inl e)
    then show ?thesis by simp
  next
    case (Inr s1)
    have b: "(i + 1) * 0x4000 \<le> (2 :: nat) ^ 64" "(i + 1 + length hvas) * 0x4000 \<le> (2 :: nat) ^ 64"
      using Cons.prems by simp_all
    note one = alias_page_effect [OF Inr b(1)]
    have hosts: "qemu_ram_block_from_host s1 = qemu_ram_block_from_host s" by (subst one(1)) simp
    show ?thesis
    proof (cases "alias_pages os s1 view (i + 1) hvas")
      case (Inl r)
      then show ?thesis using Cons.IH [OF b(2), of s1] one(1,2) Inr by (cases r) (auto, metis one(1) pages_state.surjective pages_state.update_convs(1))
    next
      case r: (Inr s2)
      have ih: "s2 = s1\<lparr>ps_map := ps_map s2\<rparr>"
          "\<And>a. unat (a - view) < (i + 1) * 0x4000 \<or> (i + 1 + length hvas) * 0x4000 \<le> unat (a - view) \<Longrightarrow> ps_map s2 a = ps_map s1 a"
          "\<And>j. j < length hvas \<Longrightarrow> page_shows s1 (ps_map s2) view (i + 1 + j) (hvas ! j)"
        using Cons.IH [OF b(2), of s1] by (simp_all only: r sum.case)
      have "s2 = s\<lparr>ps_map := ps_map s2\<rparr>" by (subst ih(1), subst one(1)) simp
      moreover have "ps_map s2 a = ps_map s a"
        if "unat (a - view) < i * 0x4000 \<or> (i + length (h # hvas)) * 0x4000 \<le> unat (a - view)" for a
        using ih(2) [of a] one(2) [of a] that by auto
      moreover have "page_shows s (ps_map s2) view (i + j) ((h # hvas) ! j)" if "j < length (h # hvas)" for j
      proof (cases j)
        case 0
        have "ps_map s2 (view + of_nat (i * 0x4000 + k)) = ps_map s1 (view + of_nat (i * 0x4000 + k))" if "k < 0x4000" for k
          using ih(2) [of "view + of_nat (i * 0x4000 + k)"] page_byte [OF b(1) that, of view] that by simp
        then show ?thesis using one(3) 0 by (simp add: page_shows_def)
      next
        case (Suc j')
        then show ?thesis using ih(3) [of j'] that by (simp add: page_shows_def hosts)
      qed
      ultimately show ?thesis using Inr r by simp
    qed
  qed
qed simp

text \<open>A failed pack leaves everything as it was; a good one adds one view.\<close>

lemma pack_effect:
  assumes "reserve_fresh os s (length hvas * 0x4000)"
  shows "case reims_vgpu_pack_fragmented_view os s hvas of
      (Inl f, s') \<Rightarrow> s' = s
    | (Inr view, s') \<Rightarrow> s' = s\<lparr>ps_map := ps_map s', page_views := page_views s @ [(view, length hvas * 0x4000)]\<rparr> \<and>
        os_reserve os = Some view \<and>
        (\<forall>a. length hvas * 0x4000 \<le> unat (a - view) \<longrightarrow> ps_map s' a = ps_map s a) \<and>
        (\<forall>j<length hvas. page_shows s (ps_map s') view j (hvas ! j))"
proof (cases "os_reserve os")
  case None
  then show ?thesis by (simp add: reims_vgpu_pack_fragmented_view_def)
next
  case (Some view)
  let ?n = "length hvas * 0x4000" and ?s1 = "s\<lparr>ps_map := map_range view (length hvas * 0x4000) (\<lambda>_. Some Reserved) (ps_map s)\<rparr>"
  have f: "?n \<le> 2 ^ 64" "\<And>a. unat (a - view) < ?n \<Longrightarrow> ps_map s a = None" using assms Some by (auto simp: reserve_fresh_def)
  then have b: "(0 + length hvas) * 0x4000 \<le> (2 :: nat) ^ 64" by simp
  have fields: "s2\<lparr>ps_map := m\<rparr> = s\<lparr>ps_map := m\<rparr>" if "s2 = ?s1\<lparr>ps_map := ps_map s2\<rparr>" for s2 m by (subst that) simp
  have out: "ps_map ?s1 a = ps_map s a" if "?n \<le> unat (a - view)" for a using that by (simp add: map_range_def)
  show ?thesis
  proof (cases "alias_pages os ?s1 view 0 hvas")
    case (Inl r)
    obtain j e s2 where r: "r = (j, e, s2)" by (cases r)
    have e2: "s2 = ?s1\<lparr>ps_map := ps_map s2\<rparr>" "\<And>a. ?n \<le> unat (a - view) \<Longrightarrow> ps_map s2 a = ps_map s a"
      using alias_pages_effect [OF b, where os = os and s = ?s1 and view = view] out by (simp_all add: Inl r)
    have "munmap view ?n (ps_map s2) = ps_map s"
      using e2(2) f(2) by (auto simp: munmap_def map_range_def fun_eq_iff not_less)
    then show ?thesis using fields [OF e2(1), of "ps_map s"] by (simp add: reims_vgpu_pack_fragmented_view_def Some Inl r Let_def)
  next
    case (Inr s2)
    have e2: "s2 = ?s1\<lparr>ps_map := ps_map s2\<rparr>" "\<And>a. ?n \<le> unat (a - view) \<Longrightarrow> ps_map s2 a = ps_map s a"
        "\<And>j. j < length hvas \<Longrightarrow> page_shows s (ps_map s2) view j (hvas ! j)"
      using alias_pages_effect [OF b, where os = os and s = ?s1 and view = view] out by (simp_all add: Inr page_shows_def)
    obtain m where s2: "s2 = s\<lparr>ps_map := m\<rparr>" using fields [OF e2(1), of "ps_map s2"] by simp
    show ?thesis using e2(2,3) by (simp add: reims_vgpu_pack_fragmented_view_def Some Inr Let_def s2)
  qed
qed

text \<open>A page that is shown holds the bytes of its guest page.\<close>

lemma page_shows_guest:
  assumes "backing_ok gm s" "resolve_page gm gpa = Some hva" "page_shows s m view i hva" "k < 0x4000"
  shows "m (view + of_nat (i * 0x4000 + k)) = ps_map s (hva + of_nat k)"
proof -
  obtain rb where rb: "rb \<in> set (ps_blocks s)" "\<forall>k<0x4000. in_block (hva + of_nat k) rb"
    using assms(1,2) resolved_in_block unfolding backing_ok_def by metis
  have "in_block hva rb" using rb(2) [rule_format, of 0] by simp
  then have "qemu_ram_block_from_host s hva = Some (rb, hva - rb_host rb)"
    using from_host assms(1) rb(1) by (simp add: backing_ok_def)
  with assms(3,4) have sh: "rb_shared rb" "0 \<le> rb_fd rb"
      "m (view + of_nat (i * 0x4000 + k)) = Some (File (rb_fd rb) (rb_fd_offset rb + (hva - rb_host rb) + of_nat k))"
    by (auto simp: page_shows_def)
  have "block_mapped (ps_map s) rb" using assms(1) rb(1) by (simp add: backing_ok_def)
  then have "ps_map s (hva + of_nat k) = Some (File (rb_fd rb) (rb_fd_offset rb + (hva + of_nat k - rb_host rb)))"
    using rb(2) assms(4) sh(1,2) by (simp add: block_mapped_def)
  then show ?thesis using sh(3) by (simp add: algebra_simps)
qed

section \<open>Histories\<close>

text \<open>The device maps, unmaps any pointer and, at reset or teardown, frees every view.\<close>

inductive page_step :: "pages_state \<Rightarrow> pages_state \<Rightarrow> bool" where
  step_map: "reserve_fresh os s (length gpas * 0x4000) \<Longrightarrow> reims_vgpu_mmio_map_pages os gm s gpas = (r, s') \<Longrightarrow> page_step s s'"
| step_unmap: "page_step s (reims_vgpu_mmio_unmap_pages s ptr)"
| step_free: "page_step s (reims_vgpu_mmio_free_page_views s)"

inductive_cases page_step_elim: "page_step s s'"

definition in_view :: "u64 \<Rightarrow> u64 \<times> nat \<Rightarrow> bool" where
  "in_view a v \<longleftrightarrow> unat (a - fst v) < snd v"

text \<open>
  Relative to the map \<open>m0\<close> before the first call: outside the recorded views nothing
  has changed, the views lie where nothing was mapped, are mapped, not empty,
  and do not overlap.
\<close>

definition views_inv :: "host_map \<Rightarrow> pages_state \<Rightarrow> bool" where
  "views_inv m0 s \<longleftrightarrow>
     (\<forall>a. (\<forall>v\<in>set (page_views s). \<not> in_view a v) \<longrightarrow> ps_map s a = m0 a) \<and>
     (\<forall>v\<in>set (page_views s). in_view (fst v) v \<and> (\<forall>a. in_view a v \<longrightarrow> m0 a = None \<and> ps_map s a \<noteq> None)) \<and>
     (\<forall>v\<in>set (page_views s). \<forall>w\<in>set (page_views s). \<forall>a. in_view a v \<and> in_view a w \<longrightarrow> v = w) \<and>
     distinct (page_views s)"

lemma remove_index_fast:
  assumes "i < length xs" "distinct xs"
  shows "set (g_array_remove_index_fast i xs) = set xs - {xs ! i}" "distinct (g_array_remove_index_fast i xs)"
proof -
  let ?ys = "xs[i := last xs]" and ?r = "g_array_remove_index_fast i xs"
  have ne: "xs \<noteq> []" using assms(1) by auto
  then have l: "last ?ys = last xs" by (simp add: last_list_update)
  have "butlast ?ys @ [last ?ys] = ?ys" using ne by (intro append_butlast_last_id) simp
  then have "mset (butlast ?ys @ [last xs]) = mset ?ys" by (simp only: l)
  then have "mset ?r = mset xs - {#xs ! i#}" using assms(1) by (simp add: g_array_remove_index_fast_def mset_update)
  then have c: "count (mset ?r) x = (if x \<in> set xs \<and> x \<noteq> xs ! i then 1 else 0)" for x
    using assms(2) by (simp add: distinct_count_atmost_1)
  have s: "x \<in> set ?r \<longleftrightarrow> x \<in> set xs \<and> x \<noteq> xs ! i" for x
    using c [of x] count_eq_zero_iff [of "mset ?r" x] by (simp split: if_split_asm)
  then show "set ?r = set xs - {xs ! i}" by auto
  show "distinct ?r" unfolding distinct_count_atmost_1 using c s by simp
qed

lemma view_index_Some: "view_index ptr i vs = Some j \<Longrightarrow> i \<le> j \<and> j - i < length vs \<and> fst (vs ! (j - i)) = ptr"
proof (induction vs arbitrary: i)
  case (Cons v vs)
  show ?case
  proof (cases "fst v = ptr")
    case False
    then have "view_index ptr (i + 1) vs = Some j" using Cons.prems by simp
    from Cons.IH [OF this] have "i + 1 \<le> j" "j - (i + 1) < length vs" "fst (vs ! (j - (i + 1))) = ptr" by auto
    moreover have "j - i = Suc (j - (i + 1))" using calculation(1) by simp
    ultimately show ?thesis by simp
  qed (use Cons.prems in simp)
qed simp

lemma unmap_inv:
  assumes "views_inv m0 s"
  shows "views_inv m0 (reims_vgpu_mmio_unmap_pages s ptr)"
proof (cases "ptr = 0 \<or> view_index ptr 0 (page_views s) = None")
  case True
  then show ?thesis using assms by (auto simp: reims_vgpu_mmio_unmap_pages_def)
next
  case False
  then obtain i where i: "view_index ptr 0 (page_views s) = Some i" and nz: "ptr \<noteq> 0" by auto
  define v where "v = page_views s ! i"
  have v: "i < length (page_views s)" "fst v = ptr" "v \<in> set (page_views s)" using view_index_Some [OF i] by (auto simp: v_def)
  have inv: "\<And>a. (\<forall>v\<in>set (page_views s). \<not> in_view a v) \<Longrightarrow> ps_map s a = m0 a"
      "\<And>v. v \<in> set (page_views s) \<Longrightarrow> in_view (fst v) v"
      "\<And>v a. v \<in> set (page_views s) \<Longrightarrow> in_view a v \<Longrightarrow> m0 a = None \<and> ps_map s a \<noteq> None"
      "\<And>v w a. v \<in> set (page_views s) \<Longrightarrow> w \<in> set (page_views s) \<Longrightarrow> in_view a v \<Longrightarrow> in_view a w \<Longrightarrow> v = w"
      "distinct (page_views s)"
    using assms unfolding views_inv_def by blast+
  note vs = remove_index_fast [OF v(1) inv(5), folded v_def]
  let ?s = "reims_vgpu_mmio_unmap_pages s ptr"
  have s: "ps_map ?s a = (if in_view a v then None else ps_map s a)"
      "page_views ?s = g_array_remove_index_fast i (page_views s)" for a
    using i nz v(2) by (simp_all add: reims_vgpu_mmio_unmap_pages_def munmap_def map_range_def in_view_def flip: v_def)
  have "ps_map ?s a = m0 a" if "\<forall>w\<in>set (page_views ?s). \<not> in_view a w" for a
    using that inv(1) [of a] inv(3) [OF v(3), of a] by (auto simp: s vs)
  moreover have "in_view (fst w) w \<and> (\<forall>a. in_view a w \<longrightarrow> m0 a = None \<and> ps_map ?s a \<noteq> None)" if "w \<in> set (page_views ?s)" for w
    using that inv(2) [of w] inv(3) [of w] inv(4) [OF v(3), of w] by (auto simp: s vs)
  ultimately show ?thesis using inv(4) vs(2) unfolding views_inv_def by (auto simp: s(2) vs(1))
qed

lemma free_map: "fold (\<lambda>(ptr, n) m. munmap ptr n m) vs m a = (if \<exists>v\<in>set vs. in_view a v then None else m a)"
  by (induction vs arbitrary: m) (auto simp: munmap_def map_range_def in_view_def)

lemma free_inv:
  assumes "views_inv m0 s"
  shows "ps_map (reims_vgpu_mmio_free_page_views s) = m0" "views_inv m0 (reims_vgpu_mmio_free_page_views s)"
proof -
  show "ps_map (reims_vgpu_mmio_free_page_views s) = m0"
    using assms by (auto simp: reims_vgpu_mmio_free_page_views_def views_inv_def free_map fun_eq_iff)
  then show "views_inv m0 (reims_vgpu_mmio_free_page_views s)" by (simp add: views_inv_def reims_vgpu_mmio_free_page_views_def)
qed

text \<open>Every byte of a packed view is mapped.\<close>

lemma shown_mapped:
  assumes "\<forall>j<n. page_shows s m view j (hvas ! j)" "in_view a (view, n * 0x4000)"
  shows "m a \<noteq> None"
proof -
  let ?d = "unat (a - view)"
  have "?d div 0x4000 < n" using assms(2) by (simp add: in_view_def less_mult_imp_div_less)
  with assms(1) have "m (view + of_nat (?d div 0x4000 * 0x4000 + ?d mod 0x4000)) \<noteq> None"
    unfolding page_shows_def by (metis mod_less_divisor option.distinct(1) zero_less_numeral)
  moreover have "view + of_nat (?d div 0x4000 * 0x4000 + ?d mod 0x4000) = a" by (simp only: div_mult_mod_eq) simp
  ultimately show ?thesis by simp
qed

lemma add_view_inv:
  assumes "views_inv m0 s" "reserve_fresh os s n" "os_reserve os = Some view" "0 < n"
    and "s' = s\<lparr>ps_map := ps_map s', page_views := page_views s @ [(view, n)]\<rparr>"
    and "\<And>a. \<not> in_view a (view, n) \<Longrightarrow> ps_map s' a = ps_map s a" "\<And>a. in_view a (view, n) \<Longrightarrow> ps_map s' a \<noteq> None"
  shows "views_inv m0 s'"
proof -
  have inv: "\<And>a. (\<forall>v\<in>set (page_views s). \<not> in_view a v) \<Longrightarrow> ps_map s a = m0 a"
      "\<And>v. v \<in> set (page_views s) \<Longrightarrow> in_view (fst v) v"
      "\<And>v a. v \<in> set (page_views s) \<Longrightarrow> in_view a v \<Longrightarrow> m0 a = None \<and> ps_map s a \<noteq> None"
      "\<And>v w a. v \<in> set (page_views s) \<Longrightarrow> w \<in> set (page_views s) \<Longrightarrow> in_view a v \<Longrightarrow> in_view a w \<Longrightarrow> v = w"
      "distinct (page_views s)"
    using assms(1) unfolding views_inv_def by blast+
  have fresh: "ps_map s a = None" if "in_view a (view, n)" for a using assms(2,3) that by (simp add: reserve_fresh_def in_view_def)
  have old: "\<not> in_view a v" if "in_view a (view, n)" "v \<in> set (page_views s)" for a v using inv(3) [OF that(2)] fresh [OF that(1)] by blast
  have new: "in_view view (view, n)" using assms(4) by (simp add: in_view_def)
  have vs: "set (page_views s') = insert (view, n) (set (page_views s))" "distinct (page_views s')"
    using inv(5) old [OF new] new by (subst assms(5), auto)+
  have "ps_map s' a = m0 a" if "\<forall>v\<in>set (page_views s'). \<not> in_view a v" for a using that inv(1) [of a] assms(6) [of a] by (auto simp: vs(1))
  moreover have "in_view (fst v) v \<and> (\<forall>a. in_view a v \<longrightarrow> m0 a = None \<and> ps_map s' a \<noteq> None)" if "v \<in> set (page_views s')" for v
  proof (cases "v = (view, n)")
    case True
    have "m0 a = None" if "in_view a (view, n)" for a using inv(1) [of a] old [OF that] fresh [OF that] by auto
    then show ?thesis using True new assms(7) by simp
  next
    case False
    then have m: "v \<in> set (page_views s)" using that by (simp add: vs(1))
    have "m0 a = None \<and> ps_map s' a \<noteq> None" if "in_view a v" for a using inv(3) [OF m that] assms(6) [of a] old [OF _ m, of a] that by (cases "in_view a (view, n)") simp_all
    then show ?thesis using inv(2) [OF m] by blast
  qed
  moreover have "v = w" if "v \<in> set (page_views s')" "w \<in> set (page_views s')" "in_view a v" "in_view a w" for v w a
    using that inv(4) old unfolding vs(1) by blast
  ultimately show ?thesis using vs(2) unfolding views_inv_def by blast
qed

text \<open>Only packing changes the state.\<close>

definition direct_run :: "guest_mem \<Rightarrow> u64 list \<Rightarrow> u64 \<Rightarrow> bool" where
  "direct_run gm gpas ptr \<longleftrightarrow> (ptr = reims_vgpu_contiguous_run_hva gm gpas \<and> ptr \<noteq> 0) \<or>
     (\<exists>hvas. reims_vgpu_resolve_guest_hvas gm 0 gpas = Inr hvas \<and> ptr = hvas ! 0 \<and>
        (\<forall>i\<in>set [1..<length gpas]. hvas ! i = hvas ! 0 + of_nat i * PAGE))"

lemma map_pages_cases:
  assumes "reims_vgpu_mmio_map_pages os gm s gpas = (r, s')"
  obtains (direct) "s' = s" "\<And>ptr. r = Inr ptr \<Longrightarrow> direct_run gm gpas ptr"
  | (pack) hvas where "gpas \<noteq> []" "reims_vgpu_resolve_guest_hvas gm 0 gpas = Inr hvas" "reims_vgpu_pack_fragmented_view os s hvas = (r, s')"
proof (cases "length gpas = 0 \<or> length gpas > unat UINT64_MAX div 0x4000 \<or> reims_vgpu_contiguous_run_hva gm gpas \<noteq> 0")
  case True
  show thesis
    by (rule direct) (use assms True in \<open>auto simp: reims_vgpu_mmio_map_pages_def Let_def direct_run_def simp del: upt_rec_numeral split: if_split_asm\<close>)
next
  case False
  show thesis
  proof (cases "reims_vgpu_resolve_guest_hvas gm 0 gpas")
    case (Inl i)
    show thesis by (rule direct) (use assms False Inl in \<open>simp_all add: reims_vgpu_mmio_map_pages_def\<close>)
  next
    case (Inr hvas)
    show thesis
    proof (cases "\<forall>i\<in>set [1..<length gpas]. hvas ! i = hvas ! 0 + of_nat i * PAGE")
      case True
      have "(r, s') = (Inr (hvas ! 0), s)"
        using assms False unfolding reims_vgpu_mmio_map_pages_def Let_def Inr sum.case if_P [OF True] by simp
      then show thesis using True Inr by (intro direct) (auto simp: direct_run_def simp del: set_upt)
    next
      case fragmented: False
      have "reims_vgpu_pack_fragmented_view os s hvas = (r, s')"
        using assms False unfolding reims_vgpu_mmio_map_pages_def Let_def Inr sum.case if_not_P [OF fragmented] by simp
      then show thesis using False Inr by (intro pack) auto
    qed
  qed
qed

lemma page_step_inv:
  assumes "page_step s s'" "views_inv m0 s"
  shows "views_inv m0 s'"
  using assms(1)
proof (cases rule: page_step.cases)
  case (step_map os gpas gm r)
  show ?thesis
  proof (rule map_pages_cases [OF step_map(2)])
    assume "s' = s"
    then show ?thesis using assms(2) by simp
  next
    fix hvas
    assume p: "gpas \<noteq> []" "reims_vgpu_resolve_guest_hvas gm 0 gpas = Inr hvas" "reims_vgpu_pack_fragmented_view os s hvas = (r, s')"
    have l: "length hvas = length gpas" using resolve_hvas [OF p(2)] by simp
    note f = step_map(1) [folded l]
    show ?thesis
    proof (cases r)
      case (Inl e)
      then show ?thesis using pack_effect [OF f] p(3) assms(2) by simp
    next
      case (Inr view)
      have e: "s' = s\<lparr>ps_map := ps_map s', page_views := page_views s @ [(view, length hvas * 0x4000)]\<rparr>" "os_reserve os = Some view"
          "\<And>a. length hvas * 0x4000 \<le> unat (a - view) \<Longrightarrow> ps_map s' a = ps_map s a"
          "\<forall>j<length hvas. page_shows s (ps_map s') view j (hvas ! j)"
        using pack_effect [OF f] unfolding p(3) Inr prod.case sum.case by blast+
      show ?thesis
        using p(1) l e(3) shown_mapped [OF e(4)] by (intro add_view_inv [OF assms(2) f e(2) _ e(1)]) (auto simp: in_view_def)
    qed
  qed
next
  case (step_unmap ptr)
  then show ?thesis using unmap_inv [OF assms(2)] by simp
next
  case step_free
  then show ?thesis using free_inv [OF assms(2)] by simp
qed

lemma views_inv_outside:
  assumes "views_inv m0 s" "m0 a \<noteq> None"
  shows "ps_map s a = m0 a"
proof -
  have "\<not> in_view a v" if "v \<in> set (page_views s)" for v using assms that by (auto simp: views_inv_def)
  then show ?thesis using assms(1) by (simp add: views_inv_def)
qed

lemma page_steps_inv:
  assumes "page_step\<^sup>*\<^sup>* s0 s" "page_views s0 = []"
  shows "views_inv (ps_map s0) s"
  using assms(1)
proof (induction rule: rtranclp_induct)
  case base
  then show ?case using assms(2) by (simp add: views_inv_def)
next
  case (step y z)
  then show ?case using page_step_inv by blast
qed

text \<open>A pointer into the RAM block itself is the address of every page of the run.\<close>

lemma direct_run_pages:
  assumes "view_ok (gm_view gm)" "direct_run gm gpas ptr" "i < length gpas"
  shows "resolve_page gm (gpas ! i) = Some (ptr + of_nat i * PAGE)"
  using assms(2) unfolding direct_run_def
proof (elim disjE exE conjE)
  fix hvas
  assume a: "reims_vgpu_resolve_guest_hvas gm 0 gpas = Inr hvas" "ptr = hvas ! 0"
    "\<forall>i\<in>set [1..<length gpas]. hvas ! i = hvas ! 0 + of_nat i * PAGE"
  show ?thesis using resolve_hvas [OF a(1)] assms(3) a(2,3) by (cases "i = 0") auto
qed (use contiguous_run [OF assms(1) _ _ assms(3)] in simp)

lemma page_offset: "ptr + of_nat (i * 0x4000 + k) = ptr + of_nat i * PAGE + (of_nat k :: u64)"
  by (simp add: algebra_simps)

text \<open>What a page needs to be aliased: shared RAM with a file, at an aligned file offset.\<close>

definition page_aliasable :: "pages_state \<Rightarrow> u64 \<Rightarrow> bool" where
  "page_aliasable s hva \<longleftrightarrow> (\<exists>rb off. qemu_ram_block_from_host s hva = Some (rb, off) \<and> rb_shared rb \<and> 0 \<le> rb_fd rb \<and>
     off \<le> UINT64_MAX - rb_fd_offset rb \<and> (rb_fd_offset rb + off) AND 0x3fff = 0)"

lemma page_aliasable_map [simp]: "page_aliasable (s\<lparr>ps_map := m\<rparr>) = page_aliasable s"
  by (simp add: page_aliasable_def fun_eq_iff)

lemma alias_pages_succeed:
  assumes "\<forall>j<length hvas. page_aliasable s (hvas ! j) \<and> os_fixed_ok os (i + j)"
  shows "\<exists>s'. alias_pages os s view i hvas = Inr s'"
  using assms
proof (induction hvas arbitrary: i s)
  case (Cons h hvas)
  obtain rb off where "qemu_ram_block_from_host s h = Some (rb, off)" "rb_shared rb" "0 \<le> rb_fd rb"
      "off \<le> UINT64_MAX - rb_fd_offset rb" "(rb_fd_offset rb + off) AND 0x3fff = 0"
    using Cons.prems [rule_format, of 0] by (auto simp: page_aliasable_def)
  moreover have "os_fixed_ok os i" using Cons.prems [rule_format, of 0] by simp
  ultimately obtain m where m: "alias_page os s view i h = Inr (s\<lparr>ps_map := m\<rparr>)"
    by (simp add: alias_page_def not_less linorder_not_less)
  have "\<exists>s'. alias_pages os (s\<lparr>ps_map := m\<rparr>) view (i + 1) hvas = Inr s'"
    using Cons.prems by (intro Cons.IH) fastforce
  then show ?case by (simp add: m)
qed simp

lemma resolve_hvas_total: "\<forall>g\<in>set gpas. resolve_page gm g \<noteq> None \<Longrightarrow> \<exists>hvas. reims_vgpu_resolve_guest_hvas gm i gpas = Inr hvas"
proof (induction gpas arbitrary: i)
  case (Cons g gpas)
  then obtain hvas where "reims_vgpu_resolve_guest_hvas gm (i + 1) gpas = Inr hvas" by force
  then show ?case using Cons.prems by auto
qed simp

definition map_pages_possible :: "mmap_answers \<Rightarrow> guest_mem \<Rightarrow> pages_state \<Rightarrow> u64 list \<Rightarrow> bool" where
  "map_pages_possible os gm s gpas \<longleftrightarrow> gpas \<noteq> [] \<and> length gpas * 0x4000 < 2 ^ 64 \<and> os_reserve os \<noteq> None \<and>
     (\<forall>i<length gpas. \<exists>hva. resolve_page gm (gpas ! i) = Some hva \<and> page_aliasable s hva \<and> os_fixed_ok os i)"

lemma map_pages_succeeds:
  assumes "map_pages_possible os gm s gpas"
  shows "\<exists>ptr s'. reims_vgpu_mmio_map_pages os gm s gpas = (Inr ptr, s')"
proof -
  have r: "\<forall>g\<in>set gpas. resolve_page gm g \<noteq> None" using assms by (force simp: map_pages_possible_def in_set_conv_nth)
  obtain hvas where h: "reims_vgpu_resolve_guest_hvas gm 0 gpas = Inr hvas" using resolve_hvas_total [OF r] by blast
  have hs: "length hvas = length gpas" "\<forall>j<length hvas. page_aliasable s (hvas ! j) \<and> os_fixed_ok os (0 + j)"
    using resolve_hvas [OF h] assms unfolding map_pages_possible_def by fastforce+
  obtain v where v: "os_reserve os = Some v" using assms by (auto simp: map_pages_possible_def)
  obtain s2 where "alias_pages os (s\<lparr>ps_map := map_range v (length hvas * 0x4000) (\<lambda>_. Some Reserved) (ps_map s)\<rparr>) v 0 hvas = Inr s2"
    using alias_pages_succeed [of hvas "s\<lparr>ps_map := map_range v (length hvas * 0x4000) (\<lambda>_. Some Reserved) (ps_map s)\<rparr>" os 0 v] hs(2) by auto
  then have p: "\<exists>s'. reims_vgpu_pack_fragmented_view os s hvas = (Inr v, s')" by (simp add: reims_vgpu_pack_fragmented_view_def v Let_def)
  have n: "\<not> (length gpas = 0 \<or> length gpas > unat UINT64_MAX div 0x4000)" using assms by (auto simp: map_pages_possible_def)
  show ?thesis unfolding reims_vgpu_mmio_map_pages_def Let_def if_not_P [OF n] h sum.case using p by (auto simp del: set_upt)
qed

section \<open>A concrete host\<close>

text \<open>Two pages of RAM backed by a shared file.\<close>

definition sample_pages_mem :: guest_mem where
  "sample_pages_mem = \<lparr>gm_view = [\<lparr>fr_start = 0x4000, fr_size = 0x8000, fr_mr = sample_ram, fr_offset = 0\<rparr>], gm_ram = (\<lambda>_. 0)\<rparr>"

definition sample_block :: RAMBlock where
  "sample_block = \<lparr>rb_host = 0x7f0000000000, rb_max_length = 0x8000, rb_shared = True, rb_fd = 5, rb_fd_offset = 0\<rparr>"

definition sample_pages :: pages_state where
  "sample_pages = \<lparr>ps_map = (\<lambda>a. if in_block a sample_block then Some (File 5 (a - 0x7f0000000000)) else None),
     ps_blocks = [sample_block], ps_mru = None, page_views = []\<rparr>"

definition sample_answers :: mmap_answers where
  "sample_answers = \<lparr>os_reserve = Some 0x600000000000, os_fixed_ok = (\<lambda>_. True), os_errno = 0\<rparr>"

lemma sample_view_ok: "view_ok (gm_view sample_pages_mem)"
  by (auto simp: view_ok_def sample_pages_mem_def range_ok_def sample_ram_def)

lemma sample_backing: "backing_ok sample_pages_mem sample_pages"
  by (auto simp: backing_ok_def blocks_ok_def ranges_backed_def block_mapped_def sample_pages_def sample_pages_mem_def
      sample_block_def sample_ram_def in_block_def word_less_nat_alt unsigned_of_nat take_bit_nat_eq_self)

lemma sample_fresh: "reserve_fresh sample_answers sample_pages 0x8000"
proof -
  have "\<not> in_block a sample_block" if "unat (a - 0x600000000000) < 0x8000" for a
  proof -
    define x where "x = a - 0x600000000000"
    have "unat x + 0xffffe10000000000 < (2 :: nat) ^ 64" using that by (simp add: x_def)
    then have "unat (x + (0xffffe10000000000 :: u64)) = unat x + 0xffffe10000000000" by (simp add: unat_word_ariths)
    moreover have "a - 0x7f0000000000 = x + (0xffffe10000000000 :: u64)" by (simp add: x_def)
    ultimately have "unat (a - 0x7f0000000000) = unat x + 0xffffe10000000000" by (simp only:)
    then show ?thesis by (simp add: in_block_def sample_block_def word_less_nat_alt)
  qed
  then show ?thesis by (simp add: reserve_fresh_def sample_answers_def sample_pages_def)
qed

lemma sample_map: "\<exists>s'. reims_vgpu_mmio_map_pages sample_answers sample_pages_mem sample_pages [0x8000, 0x4000] = (Inr 0x600000000000, s')"
  by (simp add: reims_vgpu_mmio_map_pages_def reims_vgpu_contiguous_run_hva_def resolve_page_def address_space_translate_internal_def
      reims_vgpu_pack_fragmented_view_def alias_page_def qemu_ram_block_from_host_def sample_answers_def sample_pages_mem_def sample_pages_def
      sample_block_def sample_ram_def section_covers_addr_def)

section \<open>Properties\<close>

text \<open>
  C18 (\<^verbatim>\<open>reims_vgpu_mmio_map_pages\<close>).  A call succeeds whenever every page resolves to
  shared file-backed RAM at an aligned file offset and the host grants the mappings.  When
  it succeeds, each page behind the returned pointer is the guest page asked
  for: its bytes are the same memory, whether the pointer leads into the RAM block
  or to a packed view.  Nothing that was mapped changes, and
  a failed call leaves no trace.
\<close>

theorem map_pages_aliases:
  assumes "view_ok (gm_view gm)" and "backing_ok gm s" and "reserve_fresh os s (length gpas * 0x4000)"
  shows "(map_pages_possible os gm s gpas \<longrightarrow> (\<exists>ptr. fst (reims_vgpu_mmio_map_pages os gm s gpas) = Inr ptr)) \<and>
    (case reims_vgpu_mmio_map_pages os gm s gpas of
       (Inl f, s') \<Rightarrow> s' = s
     | (Inr ptr, s') \<Rightarrow>
         (\<forall>i<length gpas. \<exists>hva. resolve_page gm (gpas ! i) = Some hva \<and>
            (\<forall>k<0x4000. ps_map s' (ptr + of_nat (i * 0x4000 + k)) = ps_map s (hva + of_nat k))) \<and>
         (\<forall>a. ps_map s a \<noteq> None \<longrightarrow> ps_map s' a = ps_map s a))"
proof (rule conjI)
  show "map_pages_possible os gm s gpas \<longrightarrow> (\<exists>ptr. fst (reims_vgpu_mmio_map_pages os gm s gpas) = Inr ptr)"
    using map_pages_succeeds [of os gm s gpas] by auto
  obtain r s' where m: "reims_vgpu_mmio_map_pages os gm s gpas = (r, s')" by fastforce
  show "case reims_vgpu_mmio_map_pages os gm s gpas of
       (Inl f, s') \<Rightarrow> s' = s
     | (Inr ptr, s') \<Rightarrow>
         (\<forall>i<length gpas. \<exists>hva. resolve_page gm (gpas ! i) = Some hva \<and>
            (\<forall>k<0x4000. ps_map s' (ptr + of_nat (i * 0x4000 + k)) = ps_map s (hva + of_nat k))) \<and>
         (\<forall>a. ps_map s a \<noteq> None \<longrightarrow> ps_map s' a = ps_map s a)"
  proof (cases rule: map_pages_cases [OF m])
    case 1
    then show ?thesis unfolding m page_offset
      using direct_run_pages [OF assms(1)] by (cases r) auto
  next
    case (2 hvas)
    have h: "length hvas = length gpas" "\<And>j. j < length gpas \<Longrightarrow> resolve_page gm (gpas ! j) = Some (hvas ! j)"
      using resolve_hvas [OF 2(2)] by auto
    have fresh: "reserve_fresh os s (length hvas * 0x4000)" using assms(3) by (simp only: h)
    show ?thesis
    proof (cases r)
      case (Inl f)
      then show ?thesis using pack_effect [OF fresh] 2(3) m by simp
    next
      case (Inr v)
      have e: "os_reserve os = Some v" "\<And>a. length hvas * 0x4000 \<le> unat (a - v) \<Longrightarrow> ps_map s' a = ps_map s a"
          "\<forall>j<length hvas. page_shows s (ps_map s') v j (hvas ! j)"
        using pack_effect [OF fresh] unfolding 2(3) Inr prod.case sum.case by blast+
      have "ps_map s' a = ps_map s a" if "ps_map s a \<noteq> None" for a
        using fresh e(1) e(2) [of a] that unfolding reserve_fresh_def by (meson linorder_not_less)
      then show ?thesis unfolding m Inr prod.case sum.case
        using h e(3) page_shows_guest [OF assms(2)] by metis
    qed
  qed
qed

theorem map_pages_aliases_witness:
  "\<exists>s'. reims_vgpu_mmio_map_pages sample_answers sample_pages_mem sample_pages [0x8000, 0x4000] = (Inr 0x600000000000, s') \<and>
    ps_map s' 0x600000000000 = Some (File 5 0x4000) \<and> ps_map s' 0x7f0000000000 = ps_map sample_pages 0x7f0000000000"
proof -
  obtain s' where m: "reims_vgpu_mmio_map_pages sample_answers sample_pages_mem sample_pages [0x8000, 0x4000] = (Inr 0x600000000000, s')"
    using sample_map by blast
  have f: "reserve_fresh sample_answers sample_pages (length [0x8000, 0x4000 :: u64] * 0x4000)" using sample_fresh by simp
  note r = map_pages_aliases [OF sample_view_ok sample_backing f, THEN conjunct2, unfolded m prod.case sum.case]
  have p: "resolve_page sample_pages_mem 0x8000 = Some 0x7f0000004000"
    by (simp add: resolve_page_def address_space_translate_internal_def sample_pages_mem_def sample_ram_def section_covers_addr_def)
  have "ps_map s' 0x600000000000 = ps_map sample_pages 0x7f0000004000"
    using r [THEN conjunct1, rule_format, of 0] p by force
  moreover have "ps_map s' 0x7f0000000000 = ps_map sample_pages 0x7f0000000000"
    using r [THEN conjunct2, rule_format, of "0x7f0000000000"] by (simp add: sample_pages_def in_block_def sample_block_def)
  ultimately show ?thesis using m by (simp add: sample_pages_def in_block_def sample_block_def)
qed

text \<open>
  C19 (\<^verbatim>\<open>reims_vgpu_mmio_unmap_pages\<close>, \<^verbatim>\<open>reims_vgpu_mmio_free_page_views\<close>).  Over any history of
  mapping, unmapping (of any pointer, a RAM address or a view freed before
  included) and freeing: what the host had mapped before stays as it was, and
  freeing the views restores the map of before, so no view leaks and
  guest RAM is never unmapped.
\<close>

theorem page_views_no_leak:
  assumes "page_views s0 = []" and "page_step\<^sup>*\<^sup>* s0 s"
  shows "(\<forall>a. ps_map s0 a \<noteq> None \<longrightarrow> ps_map s a = ps_map s0 a) \<and>
    ps_map (reims_vgpu_mmio_free_page_views s) = ps_map s0 \<and> page_views (reims_vgpu_mmio_free_page_views s) = []"
proof -
  note inv = page_steps_inv [OF assms(2,1)]
  have "ps_map s a = ps_map s0 a" if "ps_map s0 a \<noteq> None" for a using views_inv_outside [OF inv that] .
  then show ?thesis using free_inv(1) [OF inv] by (simp add: reims_vgpu_mmio_free_page_views_def)
qed

theorem page_views_no_leak_witness:
  "\<exists>s. page_views s = [(0x600000000000, 0x8000)] \<and> ps_map (reims_vgpu_mmio_free_page_views s) = ps_map sample_pages"
proof -
  obtain s where m: "reims_vgpu_mmio_map_pages sample_answers sample_pages_mem sample_pages [0x8000, 0x4000] = (Inr 0x600000000000, s)"
    using sample_map by blast
  have "page_step sample_pages s" by (rule step_map [OF _ m]) (use sample_fresh in simp)
  then have "ps_map (reims_vgpu_mmio_free_page_views s) = ps_map sample_pages"
    using page_views_no_leak [of sample_pages s] by (simp add: sample_pages_def r_into_rtranclp)
  moreover have "page_views s = [(0x600000000000, 0x8000)]"
    using m by (auto simp: reims_vgpu_mmio_map_pages_def reims_vgpu_contiguous_run_hva_def resolve_page_def address_space_translate_internal_def
      reims_vgpu_pack_fragmented_view_def alias_page_def qemu_ram_block_from_host_def sample_answers_def sample_pages_mem_def sample_pages_def
      sample_block_def sample_ram_def section_covers_addr_def)
  ultimately show ?thesis by blast
qed

end
