(* ===== verification/Vgpu_Console.thy ===== *)
theory Vgpu_Console
  imports Vgpu_Pages
begin

text \<open>
  The console side of the display device, \<^verbatim>\<open>hw/display/reims-vgpu-mmio.c\<close>: mode changes, painting of
  presented frames, the mirror of the firmware framebuffer, cursor and input
  actions, and reset.  What the Rust device answers is a parameter of each
  call; the bytes it paints are arbitrary.  An operation is \<open>None\<close> when it
  touches memory past a pixel buffer.
\<close>

section \<open>State\<close>

record DisplaySurface =
  sf_width :: u32
  sf_height :: u32
  sf_stride :: u32
  sf_data :: bytes

record early_fb =
  fb_mem :: bytes
  fb_stride :: u64
  fb_width :: u32
  fb_height :: u32

text \<open>What the device asks of the rest of QEMU.\<close>

datatype InputButton = BUTTON_LEFT | BUTTON_MIDDLE | BUTTON_RIGHT | BUTTON_WHEEL_UP | BUTTON_WHEEL_DOWN
  | BUTTON_SIDE | BUTTON_EXTRA | BUTTON_WHEEL_LEFT | BUTTON_WHEEL_RIGHT

datatype console_ev =
    SetSurface u32 u32
  | UpdateFull
  | SetMouse int int bool
  | SetCursor u16 u16 u32 u32 "u32 list"
  | CursorHidden
  | PulseGfx
  | PulseIosfc
  | LowerLines
  | Key u32 bool
  | PointerMove int int int int
  | Button InputButton bool
  | Shutdown
  | RustReset
  | RearmTimer
  | WindowEarlyFb
  | WindowStop
  | DeviceDestroy
  | ClearSurface

record mmio_state =
  con :: bool
  surface :: "DisplaySurface option"
  new_frame_ready :: bool
  early :: "early_fb option"
  rust_handle :: u64
  dev_pages :: pages_state
  con_log :: "console_ev list"

record ReimsVgpuHostAction =
  act_kind :: u32
  act_a0 :: u64
  act_a1 :: u64
  act_a2 :: u64
  act_a3 :: u64

record ReimsVgpuCursorGlyphInfo =
  gi_width :: u32
  gi_height :: u32
  gi_hot_x :: u32
  gi_hot_y :: u32
  gi_pixel_count :: u32

text \<open>The answers of the Rust device to the calls that one action can make.\<close>

record rust_answers =
  ra_may_paint :: bool
  ra_copy_rc :: int
  ra_copy_byte :: "nat \<Rightarrow> u8 \<Rightarrow> u8"
  ra_glyph_info :: "ReimsVgpuCursorGlyphInfo option"
  ra_glyph_copy_ok :: bool
  ra_glyph_pixel :: "nat \<Rightarrow> u32"

record console_feed =
  cf_kind :: u32
  cf_mapping :: u32
  cf_width :: u32
  cf_height :: u32

abbreviation (input) MAX_SCANOUT_DIM :: u32 where "MAX_SCANOUT_DIM \<equiv> 8192"
abbreviation (input) EFI_BOOT_WIDTH :: u32 where "EFI_BOOT_WIDTH \<equiv> 1920"
abbreviation (input) EFI_BOOT_HEIGHT :: u32 where "EFI_BOOT_HEIGHT \<equiv> 1080"
abbreviation (input) QEMU_OK :: int where "QEMU_OK \<equiv> 0"
abbreviation (input) QEMU_ERR_ARGS :: int where "QEMU_ERR_ARGS \<equiv> 1"
abbreviation (input) QEMU_EMPTY :: int where "QEMU_EMPTY \<equiv> 4"
abbreviation (input) FEED_FIRMWARE :: u32 where "FEED_FIRMWARE \<equiv> 0"
abbreviation (input) FEED_EARLY :: u32 where "FEED_EARLY \<equiv> 1"

definition emit :: "console_ev \<Rightarrow> mmio_state \<Rightarrow> mmio_state" where
  "emit e s = s\<lparr>con_log := con_log s @ [e]\<rparr>"

section \<open>Surfaces\<close>

definition qemu_create_displaysurface :: "u32 \<Rightarrow> u32 \<Rightarrow> DisplaySurface" where
  "qemu_create_displaysurface width height =
     \<lparr>sf_width = width, sf_height = height, sf_stride = width * 4,
      sf_data = replicate (unat height * unat (width * 4)) 0\<rparr>"

definition reims_vgpu_mmio_set_mode :: "mmio_state \<Rightarrow> u32 \<Rightarrow> u32 \<Rightarrow> mmio_state" where
  "reims_vgpu_mmio_set_mode s width height =
     (if width = 0 \<or> height = 0 \<or> width > MAX_SCANOUT_DIM \<or> height > MAX_SCANOUT_DIM then s
      else if (case surface s of None \<Rightarrow> False | Some sf \<Rightarrow> sf_width sf = width \<and> sf_height sf = height) then s
      else let s1 = s\<lparr>surface := Some (qemu_create_displaysurface width height)\<rparr> in
        if con s1 then emit (SetSurface width height) s1 else s1)"

text \<open>The Rust side takes the destination as a slice of \<^verbatim>\<open>height * dst_stride\<close> bytes.\<close>

definition reims_vgpu_qemu_scanout_copy ::
    "rust_answers \<Rightarrow> u64 \<Rightarrow> bytes \<Rightarrow> u32 \<Rightarrow> u32 \<Rightarrow> u32 \<Rightarrow> (int \<times> bytes) option" where
  "reims_vgpu_qemu_scanout_copy ra handle dst dst_stride width height =
     (if handle = 0 \<or> width = 0 \<or> height = 0 \<or> dst_stride = 0 then Some (QEMU_ERR_ARGS, dst)
      else let nbytes = unat height * unat dst_stride in
      if nbytes > length dst then None
      else Some (ra_copy_rc ra, map2 (ra_copy_byte ra) [0..<nbytes] (take nbytes dst) @ drop nbytes dst))"

definition reims_vgpu_mmio_paint_scanout :: "rust_answers \<Rightarrow> mmio_state \<Rightarrow> u32 \<Rightarrow> u32 \<Rightarrow> (bool \<times> mmio_state) option" where
  "reims_vgpu_mmio_paint_scanout ra s width height =
     (if width = 0 \<or> height = 0 then Some (False, s)
      else let s1 = reims_vgpu_mmio_set_mode s width height in
      case surface s1 of
        None \<Rightarrow> Some (False, s1)
      | Some sf \<Rightarrow>
          (case reims_vgpu_qemu_scanout_copy ra (rust_handle s1) (sf_data sf) (sf_stride sf) width height of
             None \<Rightarrow> None
           | Some (rc, dst) \<Rightarrow>
               let s2 = s1\<lparr>surface := Some (sf\<lparr>sf_data := dst\<rparr>)\<rparr> in
               if rc \<noteq> QEMU_OK \<and> rc \<noteq> QEMU_EMPTY then Some (False, s2)
               else if rc = QEMU_OK \<and> con s2 then Some (True, (emit UpdateFull s2)\<lparr>new_frame_ready := False\<rparr>)
               else Some (True, s2)))"

section \<open>Actions\<close>

definition reims_vgpu_mmio_apply_scanout :: "rust_answers \<Rightarrow> mmio_state \<Rightarrow> ReimsVgpuHostAction \<Rightarrow> mmio_state option" where
  "reims_vgpu_mmio_apply_scanout ra s a =
     (if rust_handle s = 0 \<or> \<not> con s then Some s
      else if \<not> ra_may_paint ra then Some s
      else case reims_vgpu_mmio_paint_scanout ra s (ucast (act_a1 a)) (ucast (act_a2 a)) of
        None \<Rightarrow> None
      | Some (painted, s1) \<Rightarrow> Some (if painted then s1\<lparr>new_frame_ready := True\<rparr> else s1))"

definition reims_vgpu_mmio_apply_cursor :: "mmio_state \<Rightarrow> ReimsVgpuHostAction \<Rightarrow> mmio_state" where
  "reims_vgpu_mmio_apply_cursor s a =
     (if \<not> con s then s
      else emit (SetMouse (sint (ucast (act_a0 a) :: u32)) (sint (ucast (act_a1 a) :: u32)) (act_a2 a \<noteq> 0)) s)"

definition cursor_alloc :: "u16 \<Rightarrow> u16 \<Rightarrow> u32 list option" where
  "cursor_alloc width height =
     (if width > 512 \<or> height > 512 then None else Some (replicate (unat width * unat height) 0))"

definition reims_vgpu_mmio_apply_cursor_glyph :: "rust_answers \<Rightarrow> mmio_state \<Rightarrow> mmio_state option" where
  "reims_vgpu_mmio_apply_cursor_glyph ra s =
     (if rust_handle s = 0 \<or> \<not> con s then Some s
      else case ra_glyph_info ra of
        None \<Rightarrow> Some s
      | Some info \<Rightarrow>
          if gi_width info = 0 \<or> gi_height info = 0 \<or> gi_pixel_count info = 0 \<or>
             gi_pixel_count info \<noteq> gi_width info * gi_height info then Some s
          else if \<not> ra_glyph_copy_ok ra then Some s
          else let pixels = map (ra_glyph_pixel ra) [0..<unat (gi_pixel_count info)] in
          case cursor_alloc (ucast (gi_width info)) (ucast (gi_height info)) of
            None \<Rightarrow> Some s
          | Some c_data \<Rightarrow>
              if length pixels > length c_data then None
              else Some (emit (SetCursor (ucast (gi_width info)) (ucast (gi_height info)) (gi_hot_x info) (gi_hot_y info)
                          (bsplice 0 pixels c_data)) s))"

definition reims_vgpu_shim_button :: "u32 \<Rightarrow> InputButton option" where
  "reims_vgpu_shim_button code =
     (if code = 0 then Some BUTTON_LEFT else if code = 1 then Some BUTTON_MIDDLE
      else if code = 2 then Some BUTTON_RIGHT else if code = 3 then Some BUTTON_WHEEL_UP
      else if code = 4 then Some BUTTON_WHEEL_DOWN else if code = 5 then Some BUTTON_SIDE
      else if code = 6 then Some BUTTON_EXTRA else if code = 7 then Some BUTTON_WHEEL_LEFT
      else if code = 8 then Some BUTTON_WHEEL_RIGHT else None)"

definition reims_vgpu_shim_input_key :: "mmio_state \<Rightarrow> u32 \<Rightarrow> bool \<Rightarrow> mmio_state" where
  "reims_vgpu_shim_input_key s evdev down = (if \<not> con s then s else emit (Key evdev down) s)"

definition reims_vgpu_shim_input_pointer_move :: "mmio_state \<Rightarrow> u32 \<Rightarrow> u32 \<Rightarrow> u32 \<Rightarrow> u32 \<Rightarrow> mmio_state" where
  "reims_vgpu_shim_input_pointer_move s x y w h =
     (if \<not> con s \<or> w = 0 \<or> h = 0 then s else emit (PointerMove (sint x) (sint w) (sint y) (sint h)) s)"

definition reims_vgpu_shim_input_button :: "mmio_state \<Rightarrow> u32 \<Rightarrow> bool \<Rightarrow> mmio_state" where
  "reims_vgpu_shim_input_button s code down =
     (if \<not> con s then s
      else case reims_vgpu_shim_button code of None \<Rightarrow> s | Some button \<Rightarrow> emit (Button button down) s)"

definition reims_vgpu_mmio_apply_action :: "rust_answers \<Rightarrow> mmio_state \<Rightarrow> ReimsVgpuHostAction \<Rightarrow> mmio_state option" where
  "reims_vgpu_mmio_apply_action ra s a =
     (if act_kind a = 1 then Some (emit PulseGfx s)
      else if act_kind a = 2 then Some (emit PulseIosfc s)
      else if act_kind a = 3 then reims_vgpu_mmio_apply_scanout ra s a
      else if act_kind a = 4 then Some (reims_vgpu_mmio_apply_cursor s a)
      else if act_kind a = 6 then reims_vgpu_mmio_apply_cursor_glyph ra s
      else if act_kind a = 8 then Some (reims_vgpu_shim_input_key s (ucast (act_a0 a)) (act_a1 a \<noteq> 0))
      else if act_kind a = 9 then Some (reims_vgpu_shim_input_pointer_move s (ucast (act_a0 a)) (ucast (act_a1 a))
                                          (ucast (act_a2 a)) (ucast (act_a3 a)))
      else if act_kind a = 10 then Some (reims_vgpu_shim_input_button s (ucast (act_a0 a)) (act_a1 a \<noteq> 0))
      else if act_kind a = 11 then Some (emit Shutdown s)
      else Some s)"

text \<open>The actions popped until the queue is empty, each with the answers its calls get.\<close>

fun apply_actions :: "mmio_state \<Rightarrow> (ReimsVgpuHostAction \<times> rust_answers) list \<Rightarrow> mmio_state option" where
  "apply_actions s [] = Some s"
| "apply_actions s ((a, ra) # as) =
     (case reims_vgpu_mmio_apply_action ra s a of None \<Rightarrow> None | Some s1 \<Rightarrow> apply_actions s1 as)"

definition reims_vgpu_mmio_deliver_actions :: "mmio_state \<Rightarrow> (ReimsVgpuHostAction \<times> rust_answers) list \<Rightarrow> mmio_state option" where
  "reims_vgpu_mmio_deliver_actions s as = (if rust_handle s = 0 then Some s else apply_actions s as)"

definition reims_vgpu_mmio_bh :: "int \<Rightarrow> mmio_state \<Rightarrow> (ReimsVgpuHostAction \<times> rust_answers) list \<Rightarrow> mmio_state option" where
  "reims_vgpu_mmio_bh drain_rc s as =
     (if rust_handle s = 0 then Some s
      else if drain_rc \<noteq> QEMU_OK then Some s
      else reims_vgpu_mmio_deliver_actions s as)"

definition reims_vgpu_mmio_poll_tick :: "int \<Rightarrow> mmio_state \<Rightarrow> (ReimsVgpuHostAction \<times> rust_answers) list \<Rightarrow> mmio_state option" where
  "reims_vgpu_mmio_poll_tick poll_rc s as =
     (if rust_handle s = 0 then Some s
      else map_option (emit RearmTimer) (if poll_rc = QEMU_OK then reims_vgpu_mmio_deliver_actions s as else Some s))"

section \<open>Refresh and reset\<close>

text \<open>Rows \<open>y\<close> to \<open>y + n - 1\<close> of the firmware framebuffer, copied into the surface.\<close>

fun firmware_rows :: "early_fb \<Rightarrow> u32 \<Rightarrow> nat \<Rightarrow> nat \<Rightarrow> nat \<Rightarrow> bytes \<Rightarrow> bytes option" where
  "firmware_rows fb stride copy_bytes 0 y dst = Some dst"
| "firmware_rows fb stride copy_bytes (Suc n) y dst =
     (let d = unat (of_nat y * stride); src = unat (of_nat y * fb_stride fb) in
      if d + copy_bytes > length dst \<or> src + copy_bytes > length (fb_mem fb) then None
      else firmware_rows fb stride copy_bytes n (y + 1) (bsplice d (bslice src copy_bytes (fb_mem fb)) dst))"

definition mirror_firmware :: "mmio_state \<Rightarrow> mmio_state option" where
  "mirror_firmware s =
     (case early s of
        None \<Rightarrow> Some s
      | Some fb \<Rightarrow>
          if fb_width fb = 0 \<or> fb_height fb = 0 then Some s
          else let s1 = reims_vgpu_mmio_set_mode s (fb_width fb) (fb_height fb) in
          case surface s1 of
            None \<Rightarrow> Some s1
          | Some sf \<Rightarrow>
              let copy_bytes = unat (ucast (min (ucast (sf_stride sf)) (fb_stride fb)) :: u32) in
              (case firmware_rows fb (sf_stride sf) copy_bytes (unat (fb_height fb)) 0 (sf_data sf) of
                 None \<Rightarrow> None
               | Some dst \<Rightarrow> Some (emit UpdateFull (s1\<lparr>surface := Some (sf\<lparr>sf_data := dst\<rparr>)\<rparr>))))"

text \<open>The owner of the console; a handle of 0 or an error means the firmware.\<close>

definition reims_vgpu_shim_console_feed :: "u64 \<Rightarrow> console_feed option \<Rightarrow> console_feed" where
  "reims_vgpu_shim_console_feed handle answer =
     (if handle = 0 then \<lparr>cf_kind = FEED_FIRMWARE, cf_mapping = 0, cf_width = 0, cf_height = 0\<rparr>
      else case answer of
        None \<Rightarrow> \<lparr>cf_kind = FEED_FIRMWARE, cf_mapping = 0, cf_width = 0, cf_height = 0\<rparr>
      | Some f \<Rightarrow> f)"

definition reims_vgpu_mmio_fb_update ::
    "int \<Rightarrow> (ReimsVgpuHostAction \<times> rust_answers) list \<Rightarrow> console_feed option \<Rightarrow> rust_answers \<Rightarrow> mmio_state \<Rightarrow> mmio_state option" where
  "reims_vgpu_mmio_fb_update poll_rc as feed ra s =
     (if \<not> con s then Some s
      else case (if rust_handle s \<noteq> 0 \<and> poll_rc = QEMU_OK then reims_vgpu_mmio_deliver_actions s as else Some s) of
        None \<Rightarrow> None
      | Some s1 \<Rightarrow>
          let f = reims_vgpu_shim_console_feed (rust_handle s1) feed in
          if cf_kind f = FEED_EARLY then
            (case reims_vgpu_mmio_paint_scanout ra s1 (cf_width f) (cf_height f) of
               None \<Rightarrow> None
             | Some (painted, s2) \<Rightarrow> Some (if painted then (emit UpdateFull s2)\<lparr>new_frame_ready := False\<rparr> else s2))
          else if cf_kind f = FEED_FIRMWARE then mirror_firmware s1
          else if new_frame_ready s1 \<and> surface s1 \<noteq> None then Some ((emit UpdateFull s1)\<lparr>new_frame_ready := False\<rparr>)
          else Some s1)"

text \<open>The registered device, if any, takes the framebuffer and passes it on to the host window.\<close>

definition reims_vgpu_mmio_set_early_fb :: "int \<Rightarrow> mmio_state option \<Rightarrow> early_fb option \<Rightarrow> int \<times> mmio_state option" where
  "reims_vgpu_mmio_set_early_fb window_rc inst fb =
     (case inst of
        None \<Rightarrow> (- 1, None)
      | Some s \<Rightarrow>
          let s1 = s\<lparr>early := fb\<rparr> in
          if rust_handle s1 \<noteq> 0 then (window_rc, Some (emit WindowEarlyFb s1)) else (0, Some s1))"

text \<open>\<^verbatim>\<open>memset\<close> of the first \<open>n\<close> bytes of a buffer.\<close>

definition memset0 :: "nat \<Rightarrow> bytes \<Rightarrow> bytes option" where
  "memset0 n dst = (if n > length dst then None else Some (replicate n 0 @ drop n dst))"

definition reims_vgpu_mmio_reset :: "mmio_state \<Rightarrow> mmio_state option" where
  "reims_vgpu_mmio_reset s =
     (let s1 = (if rust_handle s \<noteq> 0 then emit RustReset s else s);
          s2 = (emit LowerLines (s1\<lparr>dev_pages := reims_vgpu_mmio_free_page_views (dev_pages s1)\<rparr>))\<lparr>new_frame_ready := False\<rparr>;
          s3 = reims_vgpu_mmio_set_mode s2 EFI_BOOT_WIDTH EFI_BOOT_HEIGHT in
      case surface s3 of
        None \<Rightarrow> Some s3
      | Some sf \<Rightarrow>
          if \<not> con s3 then Some s3
          else case memset0 (unat (sf_stride sf) * unat EFI_BOOT_HEIGHT) (sf_data sf) of
            None \<Rightarrow> None
          | Some dst \<Rightarrow> Some ((emit UpdateFull (emit (SetMouse 0 0 False) (emit CursorHidden (s3\<lparr>surface := Some (sf\<lparr>sf_data := dst\<rparr>)\<rparr>))))
                              \<lparr>new_frame_ready := False\<rparr>))"

text \<open>The console that realize creates, and the injection properties.\<close>

definition realize_console :: "mmio_state \<Rightarrow> mmio_state option" where
  "realize_console s =
     (let s1 = reims_vgpu_mmio_set_mode (s\<lparr>con := True\<rparr>) EFI_BOOT_WIDTH EFI_BOOT_HEIGHT in
      case (case surface s1 of
              None \<Rightarrow> Some s1
            | Some sf \<Rightarrow>
                (case memset0 (unat (sf_stride sf) * unat EFI_BOOT_HEIGHT) (sf_data sf) of
                   None \<Rightarrow> None
                 | Some dst \<Rightarrow> Some (emit UpdateFull (s1\<lparr>surface := Some (sf\<lparr>sf_data := dst\<rparr>)\<rparr>)))) of
        None \<Rightarrow> None
      | Some s2 \<Rightarrow> Some (emit (SetMouse 0 0 False) (emit CursorHidden s2)))"

definition reims_vgpu_mmio_set_inject_pointer :: "mmio_state \<Rightarrow> u64 \<Rightarrow> string + mmio_state" where
  "reims_vgpu_mmio_set_inject_pointer s v =
     (case surface s of
        None \<Rightarrow> Inl ''no display surface yet''
      | Some sf \<Rightarrow> Inr (reims_vgpu_shim_input_pointer_move s (ucast (drop_bit 32 v)) (ucast v) (sf_width sf) (sf_height sf)))"

definition reims_vgpu_mmio_set_inject_button :: "mmio_state \<Rightarrow> u64 \<Rightarrow> mmio_state" where
  "reims_vgpu_mmio_set_inject_button s v = reims_vgpu_shim_input_button s (ucast (drop_bit 1 v)) (v AND 1 \<noteq> 0)"

definition reims_vgpu_mmio_set_inject_key :: "mmio_state \<Rightarrow> u64 \<Rightarrow> mmio_state" where
  "reims_vgpu_mmio_set_inject_key s v = reims_vgpu_shim_input_key s (ucast (drop_bit 1 v)) (v AND 1 \<noteq> 0)"

section \<open>Histories\<close>

datatype console_op =
    Bh int "(ReimsVgpuHostAction \<times> rust_answers) list"
  | Poll int "(ReimsVgpuHostAction \<times> rust_answers) list"
  | Refresh int "(ReimsVgpuHostAction \<times> rust_answers) list" "console_feed option" rust_answers
  | EarlyFb int "early_fb option"
  | Reset
  | InjectPointer u64
  | InjectButton u64
  | InjectKey u64

fun console_do :: "mmio_state \<Rightarrow> console_op \<Rightarrow> mmio_state option" where
  "console_do s (Bh rc as) = reims_vgpu_mmio_bh rc s as"
| "console_do s (Poll rc as) = reims_vgpu_mmio_poll_tick rc s as"
| "console_do s (Refresh rc as f ra) = reims_vgpu_mmio_fb_update rc as f ra s"
| "console_do s (EarlyFb rc fb) = snd (reims_vgpu_mmio_set_early_fb rc (Some s) fb)"
| "console_do s Reset = reims_vgpu_mmio_reset s"
| "console_do s (InjectPointer v) = (case reims_vgpu_mmio_set_inject_pointer s v of Inl e \<Rightarrow> Some s | Inr s' \<Rightarrow> Some s')"
| "console_do s (InjectButton v) = Some (reims_vgpu_mmio_set_inject_button s v)"
| "console_do s (InjectKey v) = Some (reims_vgpu_mmio_set_inject_key s v)"

fun console_run :: "mmio_state \<Rightarrow> console_op list \<Rightarrow> mmio_state option" where
  "console_run s [] = Some s"
| "console_run s (op # ops) = (case console_do s op of None \<Rightarrow> None | Some s' \<Rightarrow> console_run s' ops)"

text \<open>
  Geometry within the bound of the device, glyphs of 16-bit size, and a framebuffer
  whose memory holds all its rows.
\<close>

definition dim_ok :: "u32 \<Rightarrow> bool" where
  "dim_ok d \<longleftrightarrow> d \<le> MAX_SCANOUT_DIM"

definition fb_ok :: "early_fb \<Rightarrow> bool" where
  "fb_ok fb \<longleftrightarrow> dim_ok (fb_width fb) \<and> dim_ok (fb_height fb) \<and>
     unat (fb_height fb) * unat (fb_stride fb) \<le> length (fb_mem fb) \<and> length (fb_mem fb) < 2 ^ 64"

definition act_ok :: "ReimsVgpuHostAction \<times> rust_answers \<Rightarrow> bool" where
  "act_ok p \<longleftrightarrow> (act_kind (fst p) = 3 \<longrightarrow> dim_ok (ucast (act_a1 (fst p))) \<and> dim_ok (ucast (act_a2 (fst p)))) \<and>
     (\<forall>i. ra_glyph_info (snd p) = Some i \<longrightarrow> gi_width i \<le> 0xffff \<and> gi_height i \<le> 0xffff)"

fun op_ok :: "console_op \<Rightarrow> bool" where
  "op_ok (Bh rc as) = list_all act_ok as"
| "op_ok (Poll rc as) = list_all act_ok as"
| "op_ok (Refresh rc as f ra) = (list_all act_ok as \<and> (case f of None \<Rightarrow> True | Some f \<Rightarrow> dim_ok (cf_width f) \<and> dim_ok (cf_height f)))"
| "op_ok (EarlyFb rc fb) = (case fb of None \<Rightarrow> True | Some fb \<Rightarrow> fb_ok fb)"
| "op_ok op = True"

definition surface_ok :: "DisplaySurface \<Rightarrow> bool" where
  "surface_ok sf \<longleftrightarrow> sf_width sf \<noteq> 0 \<and> sf_height sf \<noteq> 0 \<and> dim_ok (sf_width sf) \<and> dim_ok (sf_height sf) \<and>
     sf_stride sf = sf_width sf * 4 \<and> length (sf_data sf) = unat (sf_height sf) * unat (sf_stride sf)"

definition console_ok :: "mmio_state \<Rightarrow> bool" where
  "console_ok s \<longleftrightarrow> (\<forall>sf. surface s = Some sf \<longrightarrow> surface_ok sf) \<and> (\<forall>fb. early s = Some fb \<longrightarrow> fb_ok fb)"

text \<open>What no operation changes between two states.\<close>

definition keeps :: "mmio_state \<Rightarrow> mmio_state \<Rightarrow> bool" where
  "keeps s s' \<longleftrightarrow> con s' = con s \<and> rust_handle s' = rust_handle s \<and> early s' = early s"

lemma emit_simps [simp]:
  "surface (emit e s) = surface s" "early (emit e s) = early s" "con (emit e s) = con s"
  "rust_handle (emit e s) = rust_handle s" "console_ok (emit e s) = console_ok s" "keeps s0 (emit e s) = keeps s0 s"
  by (simp_all add: emit_def console_ok_def keeps_def)

lemma keeps_refl [simp]: "keeps s s" and keeps_trans: "keeps s t \<Longrightarrow> keeps t u \<Longrightarrow> keeps s u"
  by (simp_all add: keeps_def)

lemma set_mode:
  assumes "console_ok s"
  shows "console_ok (reims_vgpu_mmio_set_mode s w h)" "keeps s (reims_vgpu_mmio_set_mode s w h)"
  using assms by (auto simp: reims_vgpu_mmio_set_mode_def Let_def console_ok_def surface_ok_def qemu_create_displaysurface_def
      dim_ok_def keeps_def not_less linorder_not_less)

lemma set_mode_fits:
  assumes "dim_ok w" "dim_ok h" "w \<noteq> 0" "h \<noteq> 0"
  shows "\<exists>sf. surface (reims_vgpu_mmio_set_mode s w h) = Some sf \<and> sf_width sf = w \<and> sf_height sf = h"
  using assms by (cases "surface s")
    (auto simp: reims_vgpu_mmio_set_mode_def Let_def qemu_create_displaysurface_def dim_ok_def not_less linorder_not_less)

lemma surface_bounds:
  assumes "surface_ok sf"
  shows "unat (sf_stride sf) = 4 * unat (sf_width sf)" "unat (sf_width sf) \<le> 8192" "unat (sf_height sf) \<le> 8192"
    "0 < unat (sf_width sf)" "0 < unat (sf_height sf)"
proof -
  show b: "unat (sf_width sf) \<le> 8192" "unat (sf_height sf) \<le> 8192" using assms by (auto simp: surface_ok_def dim_ok_def word_le_nat_alt)
  show "0 < unat (sf_width sf)" "0 < unat (sf_height sf)" using assms by (auto simp: surface_ok_def unat_gt_0)
  show "unat (sf_stride sf) = 4 * unat (sf_width sf)" using assms b by (simp add: surface_ok_def unat_word_ariths)
qed

text \<open>An operation ends within bounds and in a good state.\<close>

definition fine :: "mmio_state \<Rightarrow> mmio_state option \<Rightarrow> bool" where
  "fine s r \<longleftrightarrow> (\<exists>s'. r = Some s' \<and> console_ok s' \<and> keeps s s')"

lemma fine_Some [simp]: "fine s (Some s') \<longleftrightarrow> console_ok s' \<and> keeps s s'"
  by (simp add: fine_def)

lemma update_surface:
  assumes "console_ok s" "surface s = Some sf" "length dst = length (sf_data sf)"
  shows "console_ok (s\<lparr>surface := Some (sf\<lparr>sf_data := dst\<rparr>)\<rparr>)" "keeps s0 (s\<lparr>surface := x\<rparr>) = keeps s0 s"
  using assms by (auto simp: console_ok_def surface_ok_def keeps_def)

lemma flag_irrelevant [simp]:
  "console_ok (s\<lparr>new_frame_ready := b\<rparr>) = console_ok s" "keeps s0 (s\<lparr>new_frame_ready := b\<rparr>) = keeps s0 s"
  by (simp_all add: console_ok_def keeps_def)

lemma scanout_copy_fits:
  assumes "surface_ok sf" "height = sf_height sf"
  shows "\<exists>rc dst. reims_vgpu_qemu_scanout_copy ra handle (sf_data sf) (sf_stride sf) width height = Some (rc, dst) \<and>
    length dst = length (sf_data sf)"
  using assms by (auto simp: reims_vgpu_qemu_scanout_copy_def Let_def surface_ok_def)

lemma paint_fine:
  assumes "console_ok s" "dim_ok w" "dim_ok h"
  shows "\<exists>b s'. reims_vgpu_mmio_paint_scanout ra s w h = Some (b, s') \<and> console_ok s' \<and> keeps s s'"
proof (cases "w = 0 \<or> h = 0")
  case False
  let ?s1 = "reims_vgpu_mmio_set_mode s w h"
  obtain sf where sf: "surface ?s1 = Some sf" "sf_width sf = w" "sf_height sf = h" using set_mode_fits [OF assms(2,3)] False by blast
  note ok = set_mode [OF assms(1), of w h]
  have "surface_ok sf" using ok(1) sf(1) by (simp add: console_ok_def)
  then obtain rc dst where c: "reims_vgpu_qemu_scanout_copy ra (rust_handle ?s1) (sf_data sf) (sf_stride sf) w h = Some (rc, dst)"
      "length dst = length (sf_data sf)"
    using scanout_copy_fits sf(3) by metis
  have u: "console_ok (?s1\<lparr>surface := Some (sf\<lparr>sf_data := dst\<rparr>)\<rparr>)" "keeps s (?s1\<lparr>surface := Some (sf\<lparr>sf_data := dst\<rparr>)\<rparr>)"
    using update_surface [OF ok(1) sf(1) c(2)] ok(2) by simp_all
  show ?thesis using False u by (auto simp: reims_vgpu_mmio_paint_scanout_def sf(1) c(1) Let_def)
qed (use assms in \<open>auto simp: reims_vgpu_mmio_paint_scanout_def\<close>)

lemma scanout_fine:
  assumes "console_ok s" "act_ok (a, ra)" "act_kind a = 3"
  shows "fine s (reims_vgpu_mmio_apply_scanout ra s a)"
proof -
  obtain b s' where "reims_vgpu_mmio_paint_scanout ra s (ucast (act_a1 a)) (ucast (act_a2 a)) = Some (b, s')" "console_ok s'" "keeps s s'"
    using paint_fine [OF assms(1), of "ucast (act_a1 a)" "ucast (act_a2 a)" ra] assms(2,3) unfolding act_ok_def by auto
  then show ?thesis using assms(1) by (simp add: reims_vgpu_mmio_apply_scanout_def)
qed

lemma glyph_fine:
  assumes "console_ok s" "act_ok (a, ra)"
  shows "fine s (reims_vgpu_mmio_apply_cursor_glyph ra s)"
proof (cases "ra_glyph_info ra")
  case (Some i)
  let ?w = "gi_width i" and ?h = "gi_height i"
  have b: "unat ?w \<le> 0xffff" "unat ?h \<le> 0xffff" using assms(2) Some by (auto simp: act_ok_def word_le_nat_alt)
  then have n: "unat (ucast ?w :: u16) = unat ?w" "unat (ucast ?h :: u16) = unat ?h" by (simp_all add: unsigned_ucast_eq take_bit_nat_eq_self_iff)
  have "unat (?w * ?h) \<le> length c" if "cursor_alloc (ucast ?w) (ucast ?h) = Some c" for c
    using that n by (auto simp: cursor_alloc_def unat_word_ariths split: if_split_asm)
  then show ?thesis using assms(1) Some
    by (auto simp: reims_vgpu_mmio_apply_cursor_glyph_def Let_def not_less split: option.split)
qed (use assms in \<open>simp add: reims_vgpu_mmio_apply_cursor_glyph_def\<close>)

lemma input_fine [simp]:
  "console_ok (reims_vgpu_shim_input_key s c d) = console_ok s" "keeps s0 (reims_vgpu_shim_input_key s c d) = keeps s0 s"
  "console_ok (reims_vgpu_shim_input_button s c d) = console_ok s" "keeps s0 (reims_vgpu_shim_input_button s c d) = keeps s0 s"
  "console_ok (reims_vgpu_shim_input_pointer_move s x y w h) = console_ok s" "keeps s0 (reims_vgpu_shim_input_pointer_move s x y w h) = keeps s0 s"
  "console_ok (reims_vgpu_mmio_apply_cursor s a) = console_ok s" "keeps s0 (reims_vgpu_mmio_apply_cursor s a) = keeps s0 s"
  by (simp_all add: reims_vgpu_shim_input_key_def reims_vgpu_shim_input_button_def reims_vgpu_shim_input_pointer_move_def
      reims_vgpu_mmio_apply_cursor_def split: option.split)

lemma action_fine:
  assumes "console_ok s" "act_ok (a, ra)"
  shows "fine s (reims_vgpu_mmio_apply_action ra s a)"
  using assms scanout_fine [OF assms] glyph_fine [OF assms] by (simp add: reims_vgpu_mmio_apply_action_def)

lemma actions_fine:
  assumes "console_ok s" "list_all act_ok as"
  shows "fine s (reims_vgpu_mmio_deliver_actions s as)"
proof -
  have "fine s (apply_actions s as)"
    using assms
  proof (induction as arbitrary: s)
    case (Cons p as)
    obtain a ra where p: "p = (a, ra)" by fastforce
    obtain s1 where s1: "reims_vgpu_mmio_apply_action ra s a = Some s1" "console_ok s1" "keeps s s1"
      using action_fine [OF Cons.prems(1), of a ra] Cons.prems(2) by (auto simp: p fine_def)
    have "fine s1 (apply_actions s1 as)" using Cons.IH [OF s1(2)] Cons.prems(2) by simp
    then show ?case using s1 keeps_trans by (auto simp: p fine_def)
  qed simp
  then show ?thesis using assms(1) by (simp add: reims_vgpu_mmio_deliver_actions_def)
qed

section \<open>The firmware console\<close>

lemma unat_row: "y * unat s < 2 ^ LENGTH('a) \<Longrightarrow> unat (of_nat y * s :: 'a::len word) = y * unat s"
proof -
  assume "y * unat s < 2 ^ LENGTH('a)"
  then have "unat (of_nat (y * unat s) :: 'a word) = y * unat s"
    by (subst unsigned_of_nat) (simp add: take_bit_nat_eq_self_iff)
  then show ?thesis by simp
qed

text \<open>
  The copy of the rows: it stays inside both buffers, every row shows the row of
  the framebuffer, and rows before the first are left alone.
\<close>

lemma firmware_rows:
  assumes "unat stride * H \<le> length dst" "unat (fb_stride fb) * H \<le> length (fb_mem fb)" "length (fb_mem fb) < 2 ^ 64"
    and "cb \<le> unat stride" "cb \<le> unat (fb_stride fb)" "unat stride * H < 2 ^ 32" "y + n \<le> H"
  shows "\<exists>dst'. firmware_rows fb stride cb n y dst = Some dst' \<and> length dst' = length dst \<and>
    (\<forall>k < unat stride * y. dst' ! k = dst ! k) \<and>
    (\<forall>r i. y \<le> r \<and> r < y + n \<and> i < cb \<longrightarrow> dst' ! (r * unat stride + i) = fb_mem fb ! (r * unat (fb_stride fb) + i))"
  using assms(1,7)
proof (induction n arbitrary: y dst)
  case (Suc n)
  let ?S = "unat stride" and ?F = "unat (fb_stride fb)"
  have le: "?S * (y + 1) \<le> ?S * H" "?F * (y + 1) \<le> ?F * H" using Suc.prems(2) by (simp_all only: mult_le_mono2)
  have "y * ?S \<le> ?S * H" "y * ?F \<le> ?F * H" using Suc.prems(2) by (simp_all add: mult.commute [of _ H] mult_le_mono1)
  then have rows: "y * ?S < 2 ^ 32" "y * ?F < 2 ^ 64" using assms(2,3,6) by linarith+
  have d: "unat (of_nat y * stride) = y * ?S" and f: "unat (of_nat y * fb_stride fb) = y * ?F"
    using rows by (simp_all add: unat_row)
  let ?d1 = "bsplice (y * ?S) (bslice (y * ?F) cb (fb_mem fb)) dst"
  have in1: "y * ?S + cb \<le> length dst" "y * ?F + cb \<le> length (fb_mem fb)"
    using le assms(2,4,5) Suc.prems(1) by (simp_all add: algebra_simps)
  have lb: "length (bslice (y * ?F) cb (fb_mem fb)) = cb" using in1(2) by (simp add: bslice_def)
  then have l1: "length ?d1 = length dst" using in1(1) by simp
  obtain dst' where r: "firmware_rows fb stride cb n (y + 1) ?d1 = Some dst'" "length dst' = length ?d1"
      "\<And>k. k < ?S * (y + 1) \<Longrightarrow> dst' ! k = ?d1 ! k"
      "\<And>r i. y + 1 \<le> r \<Longrightarrow> r < y + 1 + n \<Longrightarrow> i < cb \<Longrightarrow> dst' ! (r * ?S + i) = fb_mem fb ! (r * ?F + i)"
    using Suc.IH [of ?d1 "y + 1"] Suc.prems l1 by auto
  have "dst' ! k = dst ! k" if "k < ?S * y" for k
    using that r(3) [of k] in1(1) lb by (simp add: nth_bsplice algebra_simps)
  moreover have "dst' ! (y * ?S + i) = fb_mem fb ! (y * ?F + i)" if "i < cb" for i
    using that r(3) [of "y * ?S + i"] in1 lb assms(4) by (simp add: nth_bsplice bslice_def algebra_simps)
  moreover have "firmware_rows fb stride cb (Suc n) y dst = Some dst'"
    using in1 r(1) by (simp add: d f Let_def not_less)
  moreover have "dst' ! (r * ?S + i) = fb_mem fb ! (r * ?F + i)" if "y \<le> r" "r < y + Suc n" "i < cb" for r i
    using that r(4) [of r i] calculation(2) by (cases "r = y") simp_all
  ultimately show ?case using r(2) l1 by auto
qed auto

lemma copy_bytes_min: "unat (ucast (min (ucast (a :: u32)) (b :: u64)) :: u32) = min (unat a) (unat b)"
proof -
  have "unat (min (ucast a) b) = min (unat a) (unat b)" by (simp add: min_def word_le_nat_alt)
  moreover have "min (unat a) (unat b) < 2 ^ 32" using unat_bounds(3) [of a] by (simp add: min_less_iff_disj)
  ultimately show ?thesis by (simp add: unsigned_ucast_eq take_bit_nat_eq_self_iff)
qed

text \<open>The mirror shows the framebuffer at its own geometry, row by row.\<close>

definition shows_fb :: "early_fb \<Rightarrow> DisplaySurface \<Rightarrow> bool" where
  "shows_fb fb sf \<longleftrightarrow> sf_width sf = fb_width fb \<and> sf_height sf = fb_height fb \<and> surface_ok sf \<and>
     (\<forall>y<unat (fb_height fb). \<forall>i<min (4 * unat (fb_width fb)) (unat (fb_stride fb)).
        sf_data sf ! (y * (4 * unat (fb_width fb)) + i) = fb_mem fb ! (y * unat (fb_stride fb) + i))"

lemma mirror_shows:
  assumes "console_ok s" "early s = Some fb" "fb_width fb \<noteq> 0" "fb_height fb \<noteq> 0"
  shows "\<exists>s' sf. mirror_firmware s = Some s' \<and> console_ok s' \<and> keeps s s' \<and> surface s' = Some sf \<and> shows_fb fb sf"
proof -
  let ?s1 = "reims_vgpu_mmio_set_mode s (fb_width fb) (fb_height fb)"
  have f: "fb_ok fb" using assms(1,2) by (simp add: console_ok_def)
  then obtain sf where sf: "surface ?s1 = Some sf" "sf_width sf = fb_width fb" "sf_height sf = fb_height fb"
    using set_mode_fits [of "fb_width fb" "fb_height fb" s] assms(3,4) by (auto simp: fb_ok_def)
  note ok = set_mode [OF assms(1), of "fb_width fb" "fb_height fb"]
  have so: "surface_ok sf" using ok(1) sf(1) by (simp add: console_ok_def)
  note b = surface_bounds [OF so]
  let ?cb = "min (unat (sf_stride sf)) (unat (fb_stride fb))" and ?H = "unat (fb_height fb)"
  have "unat (sf_stride sf) * ?H \<le> (4 * 8192) * 8192" unfolding b(1) by (intro mult_le_mono) (use b sf(3) in simp_all)
  then have small: "unat (sf_stride sf) * ?H < 2 ^ 32" by simp
  obtain dst where d: "firmware_rows fb (sf_stride sf) ?cb ?H 0 (sf_data sf) = Some dst" "length dst = length (sf_data sf)"
      "\<forall>r i. r < ?H \<and> i < ?cb \<longrightarrow> dst ! (r * unat (sf_stride sf) + i) = fb_mem fb ! (r * unat (fb_stride fb) + i)"
    using firmware_rows [where stride = "sf_stride sf" and H = ?H and dst = "sf_data sf" and fb = fb and cb = ?cb and y = 0 and n = ?H] small f so sf(3)
    by (auto simp: fb_ok_def surface_ok_def mult.commute)
  let ?s2 = "?s1\<lparr>surface := Some (sf\<lparr>sf_data := dst\<rparr>)\<rparr>"
  have "mirror_firmware s = Some (emit UpdateFull ?s2)"
    using assms sf(1) d(1) by (simp add: mirror_firmware_def Let_def copy_bytes_min)
  moreover have "console_ok ?s2" "keeps s ?s2" using update_surface [OF ok(1) sf(1) d(2)] ok(2) by simp_all
  moreover have "shows_fb fb (sf\<lparr>sf_data := dst\<rparr>)" using sf so d(2,3) b(1) by (simp add: shows_fb_def surface_ok_def)
  ultimately show ?thesis by simp
qed

lemma mirror_fine: "console_ok s \<Longrightarrow> fine s (mirror_firmware s)"
  using mirror_shows by (cases "\<exists>fb. early s = Some fb \<and> fb_width fb \<noteq> 0 \<and> fb_height fb \<noteq> 0")
    (auto simp: fine_def mirror_firmware_def split: option.split)

lemma feed_dims:
  "(case f of None \<Rightarrow> True | Some f \<Rightarrow> dim_ok (cf_width f) \<and> dim_ok (cf_height f)) \<Longrightarrow>
    dim_ok (cf_width (reims_vgpu_shim_console_feed h f)) \<and> dim_ok (cf_height (reims_vgpu_shim_console_feed h f))"
  by (cases f) (auto simp: reims_vgpu_shim_console_feed_def dim_ok_def)

lemma update_fine:
  assumes "console_ok s" "list_all act_ok as" "case f of None \<Rightarrow> True | Some f \<Rightarrow> dim_ok (cf_width f) \<and> dim_ok (cf_height f)"
  shows "fine s (reims_vgpu_mmio_fb_update rc as f ra s)"
proof -
  have "fine s (if rust_handle s \<noteq> 0 \<and> rc = QEMU_OK then reims_vgpu_mmio_deliver_actions s as else Some s)"
    using actions_fine [OF assms(1,2)] assms(1) by simp
  then obtain s1 where s1: "(if rust_handle s \<noteq> 0 \<and> rc = QEMU_OK then reims_vgpu_mmio_deliver_actions s as else Some s) = Some s1"
      "console_ok s1" "keeps s s1"
    unfolding fine_def by blast
  let ?f = "reims_vgpu_shim_console_feed (rust_handle s1) f"
  obtain b s2 where p: "reims_vgpu_mmio_paint_scanout ra s1 (cf_width ?f) (cf_height ?f) = Some (b, s2)" "console_ok s2" "keeps s1 s2"
    using paint_fine [OF s1(2)] feed_dims [OF assms(3)] by blast
  obtain s3 where m: "mirror_firmware s1 = Some s3" "console_ok s3" "keeps s1 s3" using mirror_fine [OF s1(2)] by (auto simp: fine_def)
  have k: "keeps s s2" "keeps s s3" using keeps_trans [OF s1(3)] p(3) m(3) by blast+
  show ?thesis
    using assms(1) s1(2,3) p m k by (simp add: reims_vgpu_mmio_fb_update_def s1(1) Let_def)
qed

lemma memset0_fits: "length dst = n \<Longrightarrow> memset0 n dst = Some (replicate n 0)"
  by (simp add: memset0_def)

lemma efi_surface:
  obtains sf where "surface (reims_vgpu_mmio_set_mode s EFI_BOOT_WIDTH EFI_BOOT_HEIGHT) = Some sf" "sf_width sf = EFI_BOOT_WIDTH" "sf_height sf = EFI_BOOT_HEIGHT"
  using set_mode_fits [of EFI_BOOT_WIDTH EFI_BOOT_HEIGHT s] by (auto simp: dim_ok_def)

text \<open>Reset leaves the black boot surface and no page view.\<close>

lemma reset_fine:
  assumes "console_ok s"
  shows "\<exists>s' sf. reims_vgpu_mmio_reset s = Some s' \<and> console_ok s' \<and> keeps s s' \<and> page_views (dev_pages s') = [] \<and>
    surface s' = Some sf \<and> sf_width sf = EFI_BOOT_WIDTH \<and> sf_height sf = EFI_BOOT_HEIGHT \<and> (con s \<longrightarrow> set (sf_data sf) = {0})"
proof -
  let ?s1 = "if rust_handle s \<noteq> 0 then emit RustReset s else s"
  let ?s2 = "(emit LowerLines (?s1\<lparr>dev_pages := reims_vgpu_mmio_free_page_views (dev_pages ?s1)\<rparr>))\<lparr>new_frame_ready := False\<rparr>"
  let ?s3 = "reims_vgpu_mmio_set_mode ?s2 EFI_BOOT_WIDTH EFI_BOOT_HEIGHT"
  have "console_ok ?s2" "keeps s ?s2" using assms by (auto simp: console_ok_def keeps_def emit_def)
  then have ok: "console_ok ?s3" "keeps s ?s3" using set_mode keeps_trans by blast+
  have pv: "page_views (dev_pages ?s3) = []"
    by (auto simp: reims_vgpu_mmio_set_mode_def Let_def emit_def reims_vgpu_mmio_free_page_views_def)
  obtain sf where sf: "surface ?s3 = Some sf" "sf_width sf = EFI_BOOT_WIDTH" "sf_height sf = EFI_BOOT_HEIGHT" by (rule efi_surface)
  have so: "surface_ok sf" using ok(1) sf(1) by (simp add: console_ok_def)
  have l: "length (sf_data sf) = unat (sf_stride sf) * unat EFI_BOOT_HEIGHT" using so by (simp add: surface_ok_def sf(3))
  have pos: "0 < unat (sf_stride sf)" using surface_bounds [OF so] by simp
  let ?sf = "sf\<lparr>sf_data := replicate (unat (sf_stride sf) * unat EFI_BOOT_HEIGHT) 0\<rparr>"
  have u: "console_ok (?s3\<lparr>surface := Some ?sf\<rparr>)" "keeps s (?s3\<lparr>surface := Some ?sf\<rparr>)"
    using update_surface [OF ok(1) sf(1)] l ok(2) by simp_all
  show ?thesis
    unfolding reims_vgpu_mmio_reset_def Let_def sf(1) option.case memset0_fits [OF l]
    using u ok pv sf pos by (auto simp: emit_def keeps_def console_ok_def)
qed

lemma op_fine:
  assumes "console_ok s" "op_ok op"
  shows "\<exists>s'. console_do s op = Some s' \<and> console_ok s' \<and> con s' = con s \<and> rust_handle s' = rust_handle s"
proof -
  have lift: "\<exists>s'. r = Some s' \<and> console_ok s' \<and> con s' = con s \<and> rust_handle s' = rust_handle s" if "fine s r" for r
    using that by (auto simp: fine_def keeps_def)
  show ?thesis
  proof (cases op)
    case (Bh rc as)
    then show ?thesis using assms actions_fine by (intro lift) (simp add: reims_vgpu_mmio_bh_def)
  next
    case (Poll rc as)
    have "fine s (reims_vgpu_mmio_deliver_actions s as)" using assms actions_fine Poll by simp
    then show ?thesis using Poll assms(1) by (intro lift) (auto simp: reims_vgpu_mmio_poll_tick_def fine_def)
  next
    case (Refresh rc as f ra)
    then show ?thesis using update_fine [OF assms(1)] assms(2) by (intro lift) simp
  next
    case (EarlyFb rc fb)
    then show ?thesis using assms by (auto simp: reims_vgpu_mmio_set_early_fb_def Let_def console_ok_def emit_def)
  next
    case Reset
    then show ?thesis using reset_fine [OF assms(1)] by (auto simp: keeps_def)
  next
    case (InjectPointer v)
    then show ?thesis using assms by (intro lift) (simp add: reims_vgpu_mmio_set_inject_pointer_def split: option.split)
  qed (use assms in \<open>(intro lift, simp add: reims_vgpu_mmio_set_inject_button_def reims_vgpu_mmio_set_inject_key_def)+\<close>)
qed

lemma run_fine:
  assumes "console_ok s" "list_all op_ok ops"
  shows "\<exists>s'. console_run s ops = Some s' \<and> console_ok s' \<and> con s' = con s \<and> rust_handle s' = rust_handle s"
  using assms
proof (induction ops arbitrary: s)
  case (Cons op ops)
  obtain s1 where "console_do s op = Some s1" "console_ok s1" "con s1 = con s" "rust_handle s1 = rust_handle s"
    using op_fine [OF Cons.prems(1), of op] Cons.prems(2) by auto
  then show ?case using Cons.IH [of s1] Cons.prems(2) by simp
qed simp

text \<open>The state before realize has no surface and no framebuffer; realize gives it the boot surface.\<close>

lemma realize_fine:
  assumes "surface s = None" "early s = None"
  shows "\<exists>s'. realize_console s = Some s' \<and> console_ok s' \<and> con s' \<and> rust_handle s' = rust_handle s"
proof -
  let ?s0 = "s\<lparr>con := True\<rparr>"
  let ?s1 = "reims_vgpu_mmio_set_mode ?s0 EFI_BOOT_WIDTH EFI_BOOT_HEIGHT"
  have "console_ok ?s0" using assms by (simp add: console_ok_def)
  note ok = set_mode [OF this, of EFI_BOOT_WIDTH EFI_BOOT_HEIGHT]
  obtain sf where sf: "surface ?s1 = Some sf" "sf_height sf = EFI_BOOT_HEIGHT" by (rule efi_surface)
  have l: "length (sf_data sf) = unat (sf_stride sf) * unat EFI_BOOT_HEIGHT"
    using ok(1) sf by (auto simp: console_ok_def surface_ok_def)
  show ?thesis
    unfolding realize_console_def Let_def sf(1) option.case memset0_fits [OF l]
    using update_surface [OF ok(1) sf(1)] l ok(2) by (simp add: keeps_def)
qed

section \<open>A framebuffer beyond the bound\<close>

lemma firmware_rows_overrun:
  "y \<le> r \<Longrightarrow> r < y + n \<Longrightarrow> length dst < unat (of_nat r * stride) + cb \<Longrightarrow> firmware_rows fb stride cb n y dst = None"
proof (induction n arbitrary: y dst)
  case (Suc n)
  show ?case
  proof (cases "unat (of_nat y * stride) + cb > length dst \<or> unat (of_nat y * fb_stride fb) + cb > length (fb_mem fb)")
    case False
    then have "r \<noteq> y" using Suc.prems(3) by auto
    let ?d = "bsplice (unat (of_nat y * stride)) (bslice (unat (of_nat y * fb_stride fb)) cb (fb_mem fb)) dst"
    have "length ?d = length dst" using False by (intro length_bsplice) (auto simp: bslice_def)
    then have "firmware_rows fb stride cb n (Suc y) ?d = None" using Suc.IH [of "Suc y" ?d] Suc.prems \<open>r \<noteq> y\<close> by simp
    then show ?thesis using False by (simp add: Let_def)
  qed (simp add: Let_def)
qed simp

text \<open>
  The mode change refuses a framebuffer with more rows than the bound and keeps
  the surface of before, but the copy runs over all the rows: it writes past the
  surface.
\<close>

lemma firmware_overrun:
  assumes "con s" "rust_handle s = 0" "surface s = Some sf" "surface_ok sf"
    and "early s = Some fb" "fb_height fb > MAX_SCANOUT_DIM" "fb_width fb \<noteq> 0" "fb_stride fb \<noteq> 0"
  shows "reims_vgpu_mmio_fb_update rc as feed ra s = None"
proof -
  note b = surface_bounds [OF assms(4)]
  have "reims_vgpu_mmio_set_mode s (fb_width fb) (fb_height fb) = s" using assms(6) by (simp add: reims_vgpu_mmio_set_mode_def)
  moreover have "firmware_rows fb (sf_stride sf) (min (unat (sf_stride sf)) (unat (fb_stride fb))) (unat (fb_height fb)) 0 (sf_data sf) = None"
  proof (rule firmware_rows_overrun [where r = "unat (sf_height sf)"])
    show "unat (sf_height sf) < 0 + unat (fb_height fb)" using b(3) assms(6) by (simp add: word_less_nat_alt)
    have "unat (sf_height sf) * unat (sf_stride sf) \<le> 8192 * (4 * 8192)" unfolding b(1) using b by (intro mult_le_mono) simp_all
    then have "unat (of_nat (unat (sf_height sf)) * sf_stride sf) = unat (sf_height sf) * unat (sf_stride sf)" by (intro unat_row) simp
    then show "length (sf_data sf) < unat (of_nat (unat (sf_height sf)) * sf_stride sf) + min (unat (sf_stride sf)) (unat (fb_stride fb))"
      using assms(4,8) b by (simp add: surface_ok_def unat_gt_0)
  qed simp
  moreover have "fb_height fb \<noteq> 0" using assms(6) by auto
  ultimately show ?thesis
    using assms by (simp add: reims_vgpu_mmio_fb_update_def reims_vgpu_shim_console_feed_def mirror_firmware_def copy_bytes_min Let_def)
qed

section \<open>Properties\<close>

definition sample_console :: mmio_state where
  "sample_console = \<lparr>con = False, surface = None, new_frame_ready = False, early = None, rust_handle = 7,
     dev_pages = \<lparr>ps_map = (\<lambda>_. None), ps_blocks = [], ps_mru = None, page_views = []\<rparr>, con_log = []\<rparr>"

definition sample_fb :: early_fb where
  "sample_fb = \<lparr>fb_mem = [1, 2, 3, 4, 5, 6, 7, 8], fb_stride = 4, fb_width = 1, fb_height = 2\<rparr>"

definition sample_answer :: rust_answers where
  "sample_answer = \<lparr>ra_may_paint = True, ra_copy_rc = 0, ra_copy_byte = (\<lambda>_ b. b), ra_glyph_info = None,
     ra_glyph_copy_ok = False, ra_glyph_pixel = (\<lambda>_. 0)\<rparr>"

text \<open>
  C20 (\<^verbatim>\<open>reims_vgpu_mmio_fb_update\<close>, \<^verbatim>\<open>reims_vgpu_mmio_apply_action\<close>, \<^verbatim>\<open>reims_vgpu_mmio_reset\<close>).  From
  realize on, over any sequence of refreshes, queued actions, framebuffer registrations,
  injected input and resets whose geometry is within the bound of 8192, no operation
  touches memory past the surface, the framebuffer or the cursor, whatever the Rust
  device answers.  Then a refresh of the firmware console shows the framebuffer
  row by row, and a reset leaves the black boot surface and no page view.
\<close>

theorem console_in_bounds:
  assumes "surface s0 = None" and "early s0 = None" and "list_all op_ok ops"
  shows "\<exists>s1 s. realize_console s0 = Some s1 \<and> console_run s1 ops = Some s \<and>
    (\<forall>fb rc ra. early s = Some fb \<and> fb_width fb \<noteq> 0 \<and> fb_height fb \<noteq> 0 \<longrightarrow>
       (\<exists>s' sf. reims_vgpu_mmio_fb_update rc [] None ra s = Some s' \<and> surface s' = Some sf \<and> shows_fb fb sf)) \<and>
    (\<exists>s' sf. reims_vgpu_mmio_reset s = Some s' \<and> page_views (dev_pages s') = [] \<and> surface s' = Some sf \<and>
       sf_width sf = 1920 \<and> sf_height sf = 1080 \<and> set (sf_data sf) = {0})"
proof -
  obtain s1 where s1: "realize_console s0 = Some s1" "console_ok s1" "con s1" using realize_fine [OF assms(1,2)] by blast
  obtain s where s: "console_run s1 ops = Some s" "console_ok s" "con s" using run_fine [OF s1(2) assms(3)] s1(3) by auto
  have "\<exists>s' sf. reims_vgpu_mmio_fb_update rc [] None ra s = Some s' \<and> surface s' = Some sf \<and> shows_fb fb sf"
    if "early s = Some fb" "fb_width fb \<noteq> 0" "fb_height fb \<noteq> 0" for fb rc ra
    using mirror_shows [OF s(2) that] s(3)
    by (auto simp: reims_vgpu_mmio_fb_update_def reims_vgpu_mmio_deliver_actions_def reims_vgpu_shim_console_feed_def Let_def)
  moreover have "\<exists>s' sf. reims_vgpu_mmio_reset s = Some s' \<and> page_views (dev_pages s') = [] \<and> surface s' = Some sf \<and>
       sf_width sf = 1920 \<and> sf_height sf = 1080 \<and> set (sf_data sf) = {0}"
    using reset_fine [OF s(2)] s(3) by blast
  ultimately show ?thesis using s1(1) s(1) by blast
qed

theorem console_in_bounds_witness:
  "\<exists>s1 s s' sf. realize_console sample_console = Some s1 \<and> console_run s1 [EarlyFb 0 (Some sample_fb)] = Some s \<and>
    reims_vgpu_mmio_fb_update 0 [] None sample_answer s = Some s' \<and> surface s' = Some sf \<and> sf_data sf ! 5 = 6"
proof -
  have ok: "list_all op_ok [EarlyFb 0 (Some sample_fb)]" by (simp add: sample_fb_def fb_ok_def dim_ok_def)
  obtain s1 s where r: "realize_console sample_console = Some s1" "console_run s1 [EarlyFb 0 (Some sample_fb)] = Some s"
    "\<forall>fb rc ra. early s = Some fb \<and> fb_width fb \<noteq> 0 \<and> fb_height fb \<noteq> 0 \<longrightarrow>
       (\<exists>s' sf. reims_vgpu_mmio_fb_update rc [] None ra s = Some s' \<and> surface s' = Some sf \<and> shows_fb fb sf)"
    using console_in_bounds [OF _ _ ok, of sample_console] by (auto simp: sample_console_def)
  have "early s = Some sample_fb" using r(2) by (auto simp: reims_vgpu_mmio_set_early_fb_def Let_def split: if_split_asm)
  then obtain s' sf where u: "reims_vgpu_mmio_fb_update 0 [] None sample_answer s = Some s'" "surface s' = Some sf" "shows_fb sample_fb sf"
    using r(3) [rule_format, of sample_fb 0 sample_answer] by (auto simp: sample_fb_def)
  have "sf_data sf ! 5 = 6" using u(3) by (auto simp: shows_fb_def sample_fb_def dest!: spec [of _ 1])
  then show ?thesis using r(1,2) u(1,2) by blast
qed

end
