(* ===== verification/Dirty.thy ===== *)
theory Dirty
  imports Prelude "HOL-Library.Product_Lexorder"
begin

text \<open>
  Guest-write tracking for the display device, \<^verbatim>\<open>hw/display/reims-vgpu-dirty.c\<close>: page
  sets with a generation, and the harvest that folds the dirty bitmap of the
  memory system into them.  Of the memory system (\<^verbatim>\<open>system/memory.c\<close>,
  \<^verbatim>\<open>system/physmem.c\<close>) the record \<open>dirty_host\<close> keeps the flat view, the VGA dirty
  bitmap by target page of RAM address, the accelerator's own log, which a sync
  folds into the bitmap and a clear resets along with it, and which regions are
  being logged.  Addresses are 64-bit words; counters and tokens, which would
  need \<open>2 ^ 64\<close> harvests or mappings to wrap, are natural numbers.  Locks and
  the debug counters are left out.

  The last sections show that no guest store to a tracked page goes unreported,
  that the clear pass resets exactly the pages that were found written, and that
  a store between the two passes of one harvest is lost.
\<close>

section \<open>The memory system\<close>

record flat_range =
  fr_start :: u64
  fr_size :: u64
  fr_mr :: nat
  fr_ram :: bool
  fr_offset :: u64

record dirty_host =
  dh_page_bits :: nat
  dh_view :: "flat_range list"
  dh_ram_addr :: "nat \<Rightarrow> u64"
  dh_used_length :: "nat \<Rightarrow> u64"
  dh_bitmap :: "nat \<Rightarrow> bool"
  dh_log :: "nat \<Rightarrow> bool"
  dh_vga_logging_count :: "nat \<Rightarrow> u8"

definition qemu_target_page_size :: "dirty_host \<Rightarrow> u64" where
  "qemu_target_page_size h = push_bit (dh_page_bits h) 1"

text \<open>The bitmap index of a RAM address.\<close>

definition ram_page :: "dirty_host \<Rightarrow> u64 \<Rightarrow> nat" where
  "ram_page h addr = unat (drop_bit (dh_page_bits h) addr)"

definition physical_memory_get_dirty_flag :: "dirty_host \<Rightarrow> u64 \<Rightarrow> bool" where
  "physical_memory_get_dirty_flag h addr = dh_bitmap h (ram_page h addr)"

definition memory_global_dirty_log_sync :: "dirty_host \<Rightarrow> dirty_host" where
  "memory_global_dirty_log_sync h = h\<lparr>dh_bitmap := (\<lambda>p. dh_bitmap h p \<or> dh_log h p)\<rparr>"

text \<open>
  The pages from the one of \<open>start\<close> to the one of the last byte; \<open>None\<close> when the
  range does not lie in the RAM block of the region, which is asserted.
\<close>

definition TARGET_PAGE_ALIGN :: "dirty_host \<Rightarrow> u64 \<Rightarrow> u64" where
  "TARGET_PAGE_ALIGN h addr =
     (addr + (qemu_target_page_size h - 1)) AND NOT (qemu_target_page_size h - 1)"

definition physical_memory_test_and_clear_dirty :: "dirty_host \<Rightarrow> nat \<Rightarrow> u64 \<Rightarrow> u64 \<Rightarrow> dirty_host option" where
  "physical_memory_test_and_clear_dirty h mr start len =
     (if len = 0 then Some h
      else if \<not> (start \<ge> dh_ram_addr h mr \<and> start + len \<le> dh_ram_addr h mr + dh_used_length h mr) then None
      else let page = ram_page h start; fin = ram_page h (TARGET_PAGE_ALIGN h (start + len))
           in Some (h\<lparr>dh_bitmap := (\<lambda>p. dh_bitmap h p \<and> \<not> (page \<le> p \<and> p < fin)),
                      dh_log := (\<lambda>p. dh_log h p \<and> \<not> (page \<le> p \<and> p < fin))\<rparr>))"

definition memory_region_reset_dirty :: "dirty_host \<Rightarrow> nat \<Rightarrow> u64 \<Rightarrow> u64 \<Rightarrow> dirty_host option" where
  "memory_region_reset_dirty h mr addr sz =
     physical_memory_test_and_clear_dirty h mr (dh_ram_addr h mr + addr) sz"

text \<open>A region is logged while its count, a byte, is not zero.\<close>

definition memory_region_set_log :: "dirty_host \<Rightarrow> nat \<Rightarrow> bool \<Rightarrow> dirty_host" where
  "memory_region_set_log h mr on =
     h\<lparr>dh_vga_logging_count := (dh_vga_logging_count h)
         (mr := dh_vga_logging_count h mr + (if on then 1 else - 1))\<rparr>"

section \<open>The tracker\<close>

record ReimsVgpuDirtySlice =
  sl_mr :: nat
  sl_gpa :: u64
  sl_len :: u64
  sl_ram_addr :: u64
  sl_offset :: u64
  sl_logged :: bool
  sl_needs_log :: bool

record ReimsVgpuDirtySet =
  ds_pages :: "u64 list"
  ds_page_gen :: "nat list"
  ds_page_size :: u64
  ds_gen :: nat
  ds_arm_at :: nat

text \<open>The hash tables are an association list and a list without duplicates.\<close>

record ReimsVgpuDirty =
  d_sets :: "(nat \<times> ReimsVgpuDirtySet) list"
  d_next_token :: nat
  d_logged :: "nat list"
  d_harvests :: nat
  d_reads_since_harvest :: nat

definition reims_vgpu_dirty_new :: ReimsVgpuDirty where
  "reims_vgpu_dirty_new =
     \<lparr>d_sets = [], d_next_token = 0, d_logged = [], d_harvests = 0, d_reads_since_harvest = 0\<rparr>"

definition reims_vgpu_dirty_free :: "dirty_host \<Rightarrow> ReimsVgpuDirty \<Rightarrow> dirty_host" where
  "reims_vgpu_dirty_free h d = fold (\<lambda>mr h. memory_region_set_log h mr False) (d_logged d) h"

fun dedup_sorted :: "u64 option \<Rightarrow> u64 list \<Rightarrow> u64 list" where
  "dedup_sorted prev [] = []"
| "dedup_sorted prev (p # ps) =
     (if prev = Some p then dedup_sorted prev ps else p # dedup_sorted (Some p) ps)"

definition reims_vgpu_dirty_track ::
    "dirty_host \<Rightarrow> ReimsVgpuDirty \<Rightarrow> u64 list \<Rightarrow> u64 \<Rightarrow> nat \<times> ReimsVgpuDirty" where
  "reims_vgpu_dirty_track h d gpas page_size =
     (if gpas = [] \<or> page_size = 0 \<or> page_size AND (page_size - 1) \<noteq> 0 then (0, d)
      else if page_size < qemu_target_page_size h then (0, d)
      else let pages = dedup_sorted None (sort (map (\<lambda>g. g AND NOT (page_size - 1)) gpas));
               s = \<lparr>ds_pages = pages, ds_page_gen = replicate (length pages) 0, ds_page_size = page_size,
                    ds_gen = 0, ds_arm_at = d_harvests d + 1\<rparr>;
               token = d_next_token d + 1
           in (token, d\<lparr>d_next_token := token, d_sets := (token, s) # d_sets d\<rparr>))"

definition reims_vgpu_dirty_untrack :: "ReimsVgpuDirty \<Rightarrow> nat \<Rightarrow> ReimsVgpuDirty" where
  "reims_vgpu_dirty_untrack d token =
     (if token = 0 then d else d\<lparr>d_sets := filter (\<lambda>ts. fst ts \<noteq> token) (d_sets d)\<rparr>)"

definition reims_vgpu_dirty_gen :: "ReimsVgpuDirty \<Rightarrow> nat \<Rightarrow> nat \<times> ReimsVgpuDirty" where
  "reims_vgpu_dirty_gen d token =
     (if token = 0 then (0, d)
      else ((case map_of (d_sets d) token of None \<Rightarrow> 0 | Some s \<Rightarrow> ds_gen s),
            d\<lparr>d_reads_since_harvest := d_reads_since_harvest d + 1\<rparr>))"

fun written_loop :: "nat \<Rightarrow> nat \<Rightarrow> nat \<Rightarrow> (u64 \<times> nat) list \<Rightarrow> u64 list option" where
  "written_loop since_gen mx found [] = Some []"
| "written_loop since_gen mx found ((page, gen) # ps) =
     (if gen \<le> since_gen then written_loop since_gen mx found ps
      else if found = mx then None
      else map_option ((#) page) (written_loop since_gen mx (found + 1) ps))"

text \<open>\<open>None\<close> is the result \<open>- 1\<close>: the caller must take every page as written.\<close>

definition reims_vgpu_dirty_written_since ::
    "ReimsVgpuDirty \<Rightarrow> nat \<Rightarrow> nat \<Rightarrow> nat \<Rightarrow> u64 list option \<times> ReimsVgpuDirty" where
  "reims_vgpu_dirty_written_since d token since_gen mx =
     (if token = 0 then (None, d)
      else case map_of (d_sets d) token of
        None \<Rightarrow> (None, d)
      | Some s \<Rightarrow>
          if ds_gen s = 0 \<or> since_gen = 0 then (None, d)
          else (case written_loop since_gen mx 0 (zip (ds_pages s) (ds_page_gen s)) of
                  None \<Rightarrow> (None, d)
                | Some out \<Rightarrow> (Some out, d\<lparr>d_reads_since_harvest := d_reads_since_harvest d + 1\<rparr>)))"

section \<open>The harvest\<close>

definition reims_vgpu_dirty_ram_range :: "dirty_host \<Rightarrow> flat_range \<Rightarrow> ReimsVgpuDirtySlice list" where
  "reims_vgpu_dirty_ram_range h fr =
     (if \<not> fr_ram fr \<or> fr_size fr = 0 then []
      else [\<lparr>sl_mr = fr_mr fr, sl_gpa = fr_start fr, sl_len = fr_size fr,
             sl_ram_addr = dh_ram_addr h (fr_mr fr) + fr_offset fr, sl_offset = fr_offset fr,
             sl_logged = False, sl_needs_log = False\<rparr>])"

definition reims_vgpu_dirty_ram_slices :: "dirty_host \<Rightarrow> ReimsVgpuDirtySlice list" where
  "reims_vgpu_dirty_ram_slices h = concat (map (reims_vgpu_dirty_ram_range h) (dh_view h))"

fun reims_vgpu_dirty_slice_of :: "ReimsVgpuDirtySlice list \<Rightarrow> u64 \<Rightarrow> nat option" where
  "reims_vgpu_dirty_slice_of [] gpa = None"
| "reims_vgpu_dirty_slice_of (sl # sls) gpa =
     (if gpa \<ge> sl_gpa sl \<and> gpa - sl_gpa sl < sl_len sl then Some 0
      else map_option Suc (reims_vgpu_dirty_slice_of sls gpa))"

text \<open>The offsets the loop over the target pages of a guest page visits.\<close>

definition page_offsets :: "dirty_host \<Rightarrow> u64 \<Rightarrow> u64 list" where
  "page_offsets h page_size =
     (let target = unat (qemu_target_page_size h)
      in map (\<lambda>k. of_nat (k * target)) [0..<(unat page_size + target - 1) div target])"

definition reims_vgpu_dirty_page_written :: "dirty_host \<Rightarrow> ReimsVgpuDirtySlice \<Rightarrow> u64 \<Rightarrow> u64 \<Rightarrow> bool" where
  "reims_vgpu_dirty_page_written h sl gpa page_size =
     list_ex (\<lambda>off. physical_memory_get_dirty_flag h (sl_ram_addr sl + (gpa - sl_gpa sl) + off))
       (page_offsets h page_size)"

text \<open>The body of the loop over the pages of one set.\<close>

datatype page_verdict = No_slice | Unlogged nat | Written | Clean

definition page_verdict :: "dirty_host \<Rightarrow> ReimsVgpuDirtySlice list \<Rightarrow> u64 \<Rightarrow> u64 \<Rightarrow> page_verdict" where
  "page_verdict h slices page_size gpa =
     (case reims_vgpu_dirty_slice_of slices gpa of
        None \<Rightarrow> No_slice
      | Some i \<Rightarrow>
          if \<not> sl_logged (slices ! i) then Unlogged i
          else if reims_vgpu_dirty_page_written h (slices ! i) gpa page_size then Written
          else Clean)"

definition is_unlogged :: "page_verdict \<Rightarrow> bool" where
  "is_unlogged v = (case v of Unlogged i \<Rightarrow> True | _ \<Rightarrow> False)"

definition harvest_set :: "nat \<Rightarrow> page_verdict list \<Rightarrow> ReimsVgpuDirtySet \<Rightarrow> ReimsVgpuDirtySet" where
  "harvest_set harvests vs s =
     (let arm_at = (if ds_gen s = 0 \<and> list_ex is_unlogged vs then harvests + 1 else ds_arm_at s);
          gen = (if harvests < arm_at then 0
                 else if ds_gen s = 0 then 1
                 else if list_ex (\<lambda>v. v \<noteq> Clean) vs then ds_gen s + 1
                 else ds_gen s);
          page_gen = (if gen = 0 then ds_page_gen s
                      else map2 (\<lambda>v g. if v \<noteq> Clean then gen else g) vs (ds_page_gen s))
      in s\<lparr>ds_arm_at := arm_at, ds_gen := gen, ds_page_gen := page_gen\<rparr>)"

definition set_verdicts :: "dirty_host \<Rightarrow> ReimsVgpuDirtySlice list \<Rightarrow> ReimsVgpuDirtySet \<Rightarrow> page_verdict list" where
  "set_verdicts h slices s = map (page_verdict h slices (ds_page_size s)) (ds_pages s)"

definition set_written :: "dirty_host \<Rightarrow> ReimsVgpuDirtySlice list \<Rightarrow> ReimsVgpuDirtySet \<Rightarrow> (u64 \<times> u64) list" where
  "set_written h slices s =
     map (\<lambda>gpa. (gpa, ds_page_size s))
       (filter (\<lambda>gpa. page_verdict h slices (ds_page_size s) gpa = Written) (ds_pages s))"

text \<open>The first pass, under the lock: what it reads and what the readers see afterwards.\<close>

definition harvest_slices :: "dirty_host \<Rightarrow> ReimsVgpuDirty \<Rightarrow> ReimsVgpuDirtySlice list" where
  "harvest_slices h d =
     map (\<lambda>sl. sl\<lparr>sl_logged := sl_mr sl \<in> set (d_logged d)\<rparr>) (reims_vgpu_dirty_ram_slices h)"

definition harvest_fold ::
    "dirty_host \<Rightarrow> ReimsVgpuDirtySlice list \<Rightarrow> ReimsVgpuDirty \<Rightarrow>
     ReimsVgpuDirty \<times> ReimsVgpuDirtySlice list \<times> (u64 \<times> u64) list" where
  "harvest_fold h slices d =
     (let harvests = d_harvests d + 1;
          asked = concat (map (\<lambda>ts. set_verdicts h slices (snd ts)) (d_sets d))
      in (d\<lparr>d_harvests := harvests, d_reads_since_harvest := 0,
            d_sets := map (\<lambda>ts. (fst ts, harvest_set harvests (set_verdicts h slices (snd ts)) (snd ts))) (d_sets d)\<rparr>,
          map (\<lambda>i. (slices ! i)\<lparr>sl_needs_log := Unlogged i \<in> set asked\<rparr>) [0..<length slices],
          concat (map (\<lambda>ts. set_written h slices (snd ts)) (d_sets d))))"

text \<open>The clear pass: sort, merge adjacent pages into runs, reset each run.\<close>

definition cmp_key :: "u64 \<times> u64 \<Rightarrow> nat \<times> int" where
  "cmp_key w = (unat (fst w), - int (unat (snd w)))"

fun merge_run :: "ReimsVgpuDirtySlice list \<Rightarrow> nat option \<Rightarrow> u64 \<Rightarrow> (u64 \<times> u64) list \<Rightarrow> u64 \<times> (u64 \<times> u64) list" where
  "merge_run slices si e [] = (e, [])"
| "merge_run slices si e ((gpa, page_size) # ws) =
     (if gpa + page_size \<le> e then merge_run slices si e ws
      else if gpa \<noteq> e \<or> reims_vgpu_dirty_slice_of slices gpa \<noteq> si then (e, (gpa, page_size) # ws)
      else merge_run slices si (gpa + page_size) ws)"

lemma merge_run_length: "length (snd (merge_run slices si e ws)) \<le> length ws"
  by (induction slices si e ws rule: merge_run.induct) auto

function clear_runs :: "ReimsVgpuDirtySlice list \<Rightarrow> (u64 \<times> u64) list \<Rightarrow> (nat option \<times> u64 \<times> u64) list" where
  "clear_runs slices [] = []"
| "clear_runs slices ((gpa, page_size) # ws) =
     (let si = reims_vgpu_dirty_slice_of slices gpa; r = merge_run slices si (gpa + page_size) ws
      in (si, gpa, fst r - gpa) # clear_runs slices (snd r))"
  by pat_completeness auto
termination
  by (relation "measure (\<lambda>(slices, ws). length ws)") (auto simp: le_imp_less_Suc merge_run_length)

fun reset_runs :: "ReimsVgpuDirtySlice list \<Rightarrow> (nat option \<times> u64 \<times> u64) list \<Rightarrow> dirty_host \<Rightarrow> dirty_host option" where
  "reset_runs slices [] h = Some h"
| "reset_runs slices ((None, gpa, len) # rs) h = reset_runs slices rs h"
| "reset_runs slices ((Some i, gpa, len) # rs) h =
     (case memory_region_reset_dirty h (sl_mr (slices ! i)) (sl_offset (slices ! i) + (gpa - sl_gpa (slices ! i))) len of
        None \<Rightarrow> None
      | Some h' \<Rightarrow> reset_runs slices rs h')"

definition harvest_clear :: "ReimsVgpuDirtySlice list \<Rightarrow> (u64 \<times> u64) list \<Rightarrow> dirty_host \<Rightarrow> dirty_host option" where
  "harvest_clear slices written h = reset_runs slices (clear_runs slices (sort_key cmp_key written)) h"

fun harvest_enable ::
    "ReimsVgpuDirtySlice list \<Rightarrow> dirty_host \<Rightarrow> ReimsVgpuDirty \<Rightarrow> dirty_host \<times> ReimsVgpuDirty" where
  "harvest_enable [] h d = (h, d)"
| "harvest_enable (sl # sls) h d =
     (if sl_needs_log sl \<and> sl_mr sl \<notin> set (d_logged d)
      then harvest_enable sls (memory_region_set_log h (sl_mr sl) True) (d\<lparr>d_logged := sl_mr sl # d_logged d\<rparr>)
      else harvest_enable sls h d)"

definition reims_vgpu_dirty_harvest :: "dirty_host \<Rightarrow> ReimsVgpuDirty \<Rightarrow> (dirty_host \<times> ReimsVgpuDirty) option" where
  "reims_vgpu_dirty_harvest h d =
     (if d_sets d = [] \<or> d_reads_since_harvest d = 0 then Some (h, d)
      else let slices = harvest_slices h d;
               h1 = memory_global_dirty_log_sync h;
               (d1, slices1, written) = harvest_fold h1 slices d
           in case harvest_clear slices1 written h1 of
                None \<Rightarrow> None
              | Some h2 \<Rightarrow> Some (harvest_enable slices1 h2 d1))"

section \<open>Histories\<close>

text \<open>
  A guest store sets the bit of its target page in the accelerator's log if the
  region it hits is logged.
\<close>

definition guest_store :: "dirty_host \<Rightarrow> u64 \<Rightarrow> dirty_host" where
  "guest_store h gpa =
     (let slices = reims_vgpu_dirty_ram_slices h in
      case reims_vgpu_dirty_slice_of slices gpa of
        None \<Rightarrow> h
      | Some i \<Rightarrow>
          if dh_vga_logging_count h (sl_mr (slices ! i)) = 0 then h
          else h\<lparr>dh_log := (dh_log h)
                 (ram_page h (sl_ram_addr (slices ! i) + (gpa - sl_gpa (slices ! i))) := True)\<rparr>)"

datatype dirty_event = Guest_store u64 | Track "u64 list" u64 | Untrack nat | Gen nat | Written_since nat nat nat | Harvest

fun dirty_do :: "dirty_event \<Rightarrow> dirty_host \<times> ReimsVgpuDirty \<Rightarrow> (dirty_host \<times> ReimsVgpuDirty) option" where
  "dirty_do (Guest_store gpa) (h, d) = Some (guest_store h gpa, d)"
| "dirty_do (Track gpas page_size) (h, d) = Some (h, snd (reims_vgpu_dirty_track h d gpas page_size))"
| "dirty_do (Untrack token) (h, d) = Some (h, reims_vgpu_dirty_untrack d token)"
| "dirty_do (Gen token) (h, d) = Some (h, snd (reims_vgpu_dirty_gen d token))"
| "dirty_do (Written_since token since_gen mx) (h, d) = Some (h, snd (reims_vgpu_dirty_written_since d token since_gen mx))"
| "dirty_do Harvest (h, d) = reims_vgpu_dirty_harvest h d"

fun dirty_run :: "dirty_event list \<Rightarrow> dirty_host \<times> ReimsVgpuDirty \<Rightarrow> (dirty_host \<times> ReimsVgpuDirty) option" where
  "dirty_run [] st = Some st"
| "dirty_run (e # es) st = (case dirty_do e st of None \<Rightarrow> None | Some st' \<Rightarrow> dirty_run es st')"

lemma dirty_run_append:
  "dirty_run (es @ es') st = (case dirty_run es st of None \<Rightarrow> None | Some st' \<Rightarrow> dirty_run es' st')"
  by (induction es arbitrary: st) (auto split: option.splits)

section \<open>What a history keeps\<close>

text \<open>The geometry, which no event changes, and its alignment to target pages.\<close>

definition same_geometry :: "dirty_host \<Rightarrow> dirty_host \<Rightarrow> bool" where
  "same_geometry h h' \<longleftrightarrow> dh_page_bits h' = dh_page_bits h \<and> dh_view h' = dh_view h \<and>
     dh_ram_addr h' = dh_ram_addr h \<and> dh_used_length h' = dh_used_length h"

definition host_aligned :: "dirty_host \<Rightarrow> bool" where
  "host_aligned h \<longleftrightarrow> dh_page_bits h < 64 \<and>
     list_all (\<lambda>fr. take_bit (dh_page_bits h) (fr_start fr) = 0 \<and> take_bit (dh_page_bits h) (fr_offset fr) = 0 \<and>
       take_bit (dh_page_bits h) (dh_ram_addr h (fr_mr fr)) = 0) (dh_view h)"

definition set_ok :: "nat \<Rightarrow> nat \<Rightarrow> ReimsVgpuDirtySet \<Rightarrow> bool" where
  "set_ok bits harvests s \<longleftrightarrow> length (ds_page_gen s) = length (ds_pages s) \<and>
     (\<forall>p\<in>set (ds_pages s). take_bit bits p = 0) \<and> (\<forall>g\<in>set (ds_page_gen s). g \<le> ds_gen s) \<and>
     (ds_gen s \<noteq> 0 \<longrightarrow> ds_arm_at s \<le> harvests)"

definition log_ok :: "dirty_host \<Rightarrow> ReimsVgpuDirty \<Rightarrow> bool" where
  "log_ok h d \<longleftrightarrow> (\<forall>mr. if mr \<in> set (d_logged d) then dh_vga_logging_count h mr \<noteq> 0 else dh_vga_logging_count h mr \<noteq> - 1)"

definition dirty_ok :: "dirty_host \<Rightarrow> ReimsVgpuDirty \<Rightarrow> bool" where
  "dirty_ok h d \<longleftrightarrow> host_aligned h \<and> log_ok h d \<and> distinct (map fst (d_sets d)) \<and>
     (\<forall>(t, s)\<in>set (d_sets d). 0 < t \<and> t \<le> d_next_token d \<and> set_ok (dh_page_bits h) (d_harvests d) s)"

lemma same_geometry_refl [simp]: "same_geometry h h"
  by (simp add: same_geometry_def)

lemma same_geometry_trans: "same_geometry h h' \<Longrightarrow> same_geometry h' h'' \<Longrightarrow> same_geometry h h''"
  by (simp add: same_geometry_def)

lemma ram_slices_cong: "same_geometry h h' \<Longrightarrow> reims_vgpu_dirty_ram_slices h' = reims_vgpu_dirty_ram_slices h"
proof -
  assume g: "same_geometry h h'"
  then have "reims_vgpu_dirty_ram_range h' = reims_vgpu_dirty_ram_range h"
    by (intro ext) (simp add: same_geometry_def reims_vgpu_dirty_ram_range_def)
  with g show ?thesis by (simp add: same_geometry_def reims_vgpu_dirty_ram_slices_def)
qed

lemma host_aligned_cong: "same_geometry h h' \<Longrightarrow> host_aligned h' = host_aligned h"
  by (simp add: same_geometry_def host_aligned_def)

lemma guest_store_geometry: "same_geometry h (guest_store h gpa)"
  by (simp add: guest_store_def same_geometry_def Let_def split: option.split)

lemma reset_geometry: "memory_region_reset_dirty h mr a n = Some h' \<Longrightarrow> same_geometry h h'"
  by (auto simp: memory_region_reset_dirty_def physical_memory_test_and_clear_dirty_def same_geometry_def Let_def
      split: if_split_asm)

lemma reset_counts: "memory_region_reset_dirty h mr a n = Some h' \<Longrightarrow> dh_vga_logging_count h' = dh_vga_logging_count h"
  by (auto simp: memory_region_reset_dirty_def physical_memory_test_and_clear_dirty_def Let_def split: if_split_asm)

lemma reset_runs_keeps:
  "reset_runs slices rs h = Some h' \<Longrightarrow> same_geometry h h' \<and> dh_vga_logging_count h' = dh_vga_logging_count h"
proof (induction slices rs h rule: reset_runs.induct)
  case (3 slices i gpa len rs h)
  then show ?case
    by (auto split: option.splits dest: reset_geometry reset_counts intro: same_geometry_trans)
qed auto

lemma harvest_enable_keeps:
  assumes "harvest_enable sls h d = (h', d')"
  shows "same_geometry h h' \<and> d_sets d' = d_sets d \<and> d_harvests d' = d_harvests d \<and> d_next_token d' = d_next_token d \<and>
    d_reads_since_harvest d' = d_reads_since_harvest d \<and> set (d_logged d) \<subseteq> set (d_logged d') \<and> (log_ok h d \<longrightarrow> log_ok h' d')"
  using assms
proof (induction sls h d rule: harvest_enable.induct)
  case (2 sl sls h d)
  show ?case
  proof (cases "sl_needs_log sl \<and> sl_mr sl \<notin> set (d_logged d)")
    case True
    let ?h = "memory_region_set_log h (sl_mr sl) True" and ?d = "d\<lparr>d_logged := sl_mr sl # d_logged d\<rparr>"
    have "same_geometry h ?h" by (simp add: same_geometry_def memory_region_set_log_def)
    moreover have "log_ok h d \<longrightarrow> log_ok ?h ?d"
    proof
      assume l: "log_ok h d"
      then have "dh_vga_logging_count h (sl_mr sl) \<noteq> - 1" using True by (auto simp: log_ok_def)
      then have "dh_vga_logging_count h (sl_mr sl) + 1 \<noteq> 0" by (metis add_eq_0_iff2)
      then show "log_ok ?h ?d" using l by (auto simp: log_ok_def memory_region_set_log_def)
    qed
    moreover have "harvest_enable sls ?h ?d = (h', d')" using "2.prems" True by simp
    note IH = "2.IH"(1) [OF True this]
    ultimately show ?thesis using IH by (auto intro: same_geometry_trans)
  next
    case False
    with "2.IH"(2) [OF False] "2.prems" show ?thesis by simp
  qed
qed simp

lemma sync_simps [simp]:
  "same_geometry h (memory_global_dirty_log_sync h)" "dh_vga_logging_count (memory_global_dirty_log_sync h) = dh_vga_logging_count h"
  "dh_bitmap (memory_global_dirty_log_sync h) p = (dh_bitmap h p \<or> dh_log h p)"
  by (simp_all add: memory_global_dirty_log_sync_def same_geometry_def)

lemma fold_simps [simp]:
  "d_sets (fst (harvest_fold h slices d)) =
     map (\<lambda>ts. (fst ts, harvest_set (d_harvests d + 1) (set_verdicts h slices (snd ts)) (snd ts))) (d_sets d)"
  "d_harvests (fst (harvest_fold h slices d)) = d_harvests d + 1"
  "d_logged (fst (harvest_fold h slices d)) = d_logged d" "d_next_token (fst (harvest_fold h slices d)) = d_next_token d"
  "d_reads_since_harvest (fst (harvest_fold h slices d)) = 0"
  by (simp_all add: harvest_fold_def Let_def)

text \<open>A harvest that is not skipped.\<close>

lemma harvest_cases:
  assumes "reims_vgpu_dirty_harvest h d = Some (h', d')"
  obtains (skip) "d_sets d = [] \<or> d_reads_since_harvest d = 0" "h' = h" "d' = d"
  | (harvest) "d_sets d \<noteq> []" "d_reads_since_harvest d \<noteq> 0" "same_geometry h h'"
      "d_sets d' = d_sets (fst (harvest_fold (memory_global_dirty_log_sync h) (harvest_slices h d) d))"
      "d_harvests d' = d_harvests d + 1" "d_next_token d' = d_next_token d"
      "set (d_logged d) \<subseteq> set (d_logged d')" "log_ok h d \<longrightarrow> log_ok h' d'"
proof (cases "d_sets d = [] \<or> d_reads_since_harvest d = 0")
  case True
  have "h' = h \<and> d' = d" using assms unfolding reims_vgpu_dirty_harvest_def if_P [OF True] by blast
  with True show thesis using skip by blast
next
  case False
  let ?h1 = "memory_global_dirty_log_sync h" and ?sl = "harvest_slices h d"
  obtain d1 slices1 written where f: "harvest_fold ?h1 ?sl d = (d1, slices1, written)" by (rule prod_cases3)
  have "(case harvest_clear slices1 written ?h1 of None \<Rightarrow> None | Some h2 \<Rightarrow> Some (harvest_enable slices1 h2 d1)) = Some (h', d')"
    using assms False f by (simp add: reims_vgpu_dirty_harvest_def)
  then obtain h2 where c: "harvest_clear slices1 written ?h1 = Some h2" and e: "harvest_enable slices1 h2 d1 = (h', d')"
    by (cases "harvest_clear slices1 written ?h1") simp_all
  have d1: "d1 = fst (harvest_fold ?h1 ?sl d)" by (simp add: f)
  have k: "same_geometry ?h1 h2" "dh_vga_logging_count h2 = dh_vga_logging_count ?h1"
    using reset_runs_keeps [OF c [unfolded harvest_clear_def]] by simp_all
  have l: "log_ok h d \<longrightarrow> log_ok h2 d1" using k(2) by (simp add: log_ok_def d1)
  have "same_geometry h h2" using sync_simps(1) k(1) by (rule same_geometry_trans)
  note g = this and n = harvest_enable_keeps [OF e]
  have f: "d_sets d \<noteq> []" "d_reads_since_harvest d \<noteq> 0" using False by blast+
  have n1: "d_sets d' = d_sets d1" "d_harvests d' = d_harvests d + 1" "d_next_token d' = d_next_token d"
    "set (d_logged d) \<subseteq> set (d_logged d')"
    using n by (simp_all only: d1 fold_simps simp_thms)
  have "log_ok h d \<longrightarrow> log_ok h' d'" using l n by blast
  then show thesis by (rule harvest [OF f same_geometry_trans [OF g n [THEN conjunct1]] n1(1) [unfolded d1] n1(2-4)])
qed

lemma harvest_set_simps [simp]:
  "ds_pages (harvest_set k vs s) = ds_pages s" "ds_page_size (harvest_set k vs s) = ds_page_size s"
  by (simp_all add: harvest_set_def Let_def)

lemma harvest_set_gen:
  assumes "set_ok bits n s"
  shows "ds_gen s \<le> ds_gen (harvest_set (n + 1) vs s)"
  using assms by (auto simp: harvest_set_def set_ok_def Let_def)

lemma harvest_set_ok:
  assumes ok: "set_ok bits n s" and len: "length vs = length (ds_pages s)"
  shows "set_ok bits (n + 1) (harvest_set (n + 1) vs s)"
proof -
  let ?s = "harvest_set (n + 1) vs s"
  have "length (ds_page_gen ?s) = length (ds_pages s)" using ok len by (simp add: harvest_set_def set_ok_def Let_def)
  moreover have "set (ds_page_gen ?s) \<subseteq> insert (ds_gen ?s) (set (ds_page_gen s))"
    by (auto simp: harvest_set_def Let_def dest: set_zip_rightD split: if_split_asm)
  then have "\<forall>g\<in>set (ds_page_gen ?s). g \<le> ds_gen ?s"
    using ok harvest_set_gen [OF ok, of vs] unfolding set_ok_def by fastforce
  moreover have "ds_gen ?s \<noteq> 0 \<longrightarrow> ds_arm_at ?s \<le> n + 1" by (simp add: harvest_set_def Let_def)
  ultimately show ?thesis using ok by (simp add: set_ok_def)
qed

lemma dedup_sorted_subset: "set (dedup_sorted prev ps) \<subseteq> set ps"
  by (induction prev ps rule: dedup_sorted.induct) auto

lemma track_cases:
  obtains (fail) "reims_vgpu_dirty_track h d gpas n = (0, d)"
  | (new) s where "reims_vgpu_dirty_track h d gpas n = (d_next_token d + 1,
        d\<lparr>d_next_token := d_next_token d + 1, d_sets := (d_next_token d + 1, s) # d_sets d\<rparr>)"
      "n \<noteq> 0" "n AND (n - 1) = 0" "qemu_target_page_size h \<le> n" "gpas \<noteq> []"
      "s = \<lparr>ds_pages = dedup_sorted None (sort (map (\<lambda>g. g AND NOT (n - 1)) gpas)),
        ds_page_gen = replicate (length (dedup_sorted None (sort (map (\<lambda>g. g AND NOT (n - 1)) gpas)))) 0,
        ds_page_size = n, ds_gen = 0, ds_arm_at = d_harvests d + 1\<rparr>"
proof (cases "gpas = [] \<or> n = 0 \<or> n AND (n - 1) \<noteq> 0 \<or> n < qemu_target_page_size h")
  case True
  show thesis by (rule fail) (use True in \<open>auto simp: reims_vgpu_dirty_track_def\<close>)
next
  case False
  show thesis by (rule new [OF _ _ _ _ _ refl]) (use False in \<open>simp_all add: reims_vgpu_dirty_track_def Let_def not_less\<close>)
qed

lemma track_ok:
  assumes "dirty_ok h d"
  shows "dirty_ok h (snd (reims_vgpu_dirty_track h d gpas n))"
proof (cases rule: track_cases [of h d gpas n])
  case (new s)
  have "take_bit (dh_page_bits h) (g AND NOT (n - 1)) = 0" for g
    using new(2-4) assms by (intro aligned_take_bit) (simp_all add: dirty_ok_def host_aligned_def qemu_target_page_size_def)
  then have "set_ok (dh_page_bits h) (d_harvests d) s"
    using dedup_sorted_subset by (fastforce simp: set_ok_def new(6))
  moreover have "d_next_token d + 1 \<notin> set (map fst (d_sets d))" using assms by (fastforce simp: dirty_ok_def)
  ultimately show ?thesis using assms by (fastforce simp: new(1) dirty_ok_def log_ok_def)
qed (use assms in simp)

lemma guest_store_ok: "dirty_ok h d \<Longrightarrow> dirty_ok (guest_store h gpa) d"
proof -
  have "dh_vga_logging_count (guest_store h gpa) = dh_vga_logging_count h"
    by (simp add: guest_store_def Let_def split: option.split)
  then show "dirty_ok h d \<Longrightarrow> dirty_ok (guest_store h gpa) d"
    using guest_store_geometry [of h gpa] host_aligned_cong [of h "guest_store h gpa"]
    by (simp add: dirty_ok_def log_ok_def same_geometry_def)
qed

lemma reads_simps [simp]:
  "d_sets (snd (reims_vgpu_dirty_gen d t)) = d_sets d" "d_sets (snd (reims_vgpu_dirty_written_since d t g m)) = d_sets d"
  "d_logged (snd (reims_vgpu_dirty_gen d t)) = d_logged d" "d_logged (snd (reims_vgpu_dirty_written_since d t g m)) = d_logged d"
  "d_harvests (snd (reims_vgpu_dirty_gen d t)) = d_harvests d"
  "d_harvests (snd (reims_vgpu_dirty_written_since d t g m)) = d_harvests d"
  "d_next_token (snd (reims_vgpu_dirty_gen d t)) = d_next_token d"
  "d_next_token (snd (reims_vgpu_dirty_written_since d t g m)) = d_next_token d"
  by (simp_all add: reims_vgpu_dirty_gen_def reims_vgpu_dirty_written_since_def split: option.split)

lemma harvest_ok:
  assumes ok: "dirty_ok h d" and "reims_vgpu_dirty_harvest h d = Some (h', d')"
  shows "dirty_ok h' d'"
  using assms(2)
proof (cases rule: harvest_cases)
  case harvest
  have "set_ok (dh_page_bits h) (d_harvests d + 1) (harvest_set (d_harvests d + 1) (set_verdicts h1 sl s) s)"
    if "(t, s) \<in> set (d_sets d)" for t s h1 sl
    using that ok by (intro harvest_set_ok) (auto simp: dirty_ok_def set_verdicts_def)
  moreover have "dh_page_bits h' = dh_page_bits h" using harvest(3) by (simp add: same_geometry_def)
  ultimately show ?thesis
    using ok harvest(8) host_aligned_cong [OF harvest(3)] unfolding dirty_ok_def harvest(4-6) fold_simps
    by (auto simp: comp_def)
qed (use ok in simp)

lemma untrack_ok: "dirty_ok h d \<Longrightarrow> dirty_ok h (reims_vgpu_dirty_untrack d t)"
  by (auto simp: dirty_ok_def reims_vgpu_dirty_untrack_def log_ok_def distinct_map_filter)

lemma dirty_do_ok:
  assumes "dirty_ok h d" and "dirty_do e (h, d) = Some (h', d')"
  shows "dirty_ok h' d'"
proof (cases e)
  case (Guest_store gpa)
  then show ?thesis using assms guest_store_ok [of h d gpa] by auto
next
  case (Track gpas n)
  then show ?thesis using assms track_ok [of h d gpas n] by auto
next
  case (Untrack t)
  then show ?thesis using assms untrack_ok [of h d t] by auto
next
  case (Gen t)
  then have "h' = h" "d' = snd (reims_vgpu_dirty_gen d t)" using assms(2) by simp_all
  then show ?thesis using assms(1) by (simp add: dirty_ok_def log_ok_def)
next
  case (Written_since t g m)
  then have "h' = h" "d' = snd (reims_vgpu_dirty_written_since d t g m)" using assms(2) by simp_all
  then show ?thesis using assms(1) by (simp add: dirty_ok_def log_ok_def)
next
  case Harvest
  then show ?thesis using assms harvest_ok by simp
qed

lemma dirty_run_ok: "dirty_ok (fst st) (snd st) \<Longrightarrow> dirty_run es st = Some st' \<Longrightarrow> dirty_ok (fst st') (snd st')"
proof (induction es arbitrary: st)
  case (Cons e es)
  obtain st1 where s: "dirty_do e st = Some st1" "dirty_run es st1 = Some st'"
    using Cons.prems(2) by (cases "dirty_do e st") simp_all
  have "dirty_ok (fst st1) (snd st1)"
    using dirty_do_ok [OF Cons.prems(1)] s(1) by (metis prod.collapse)
  from Cons.IH [OF this s(2)] show ?case .
qed simp

section \<open>No store is missed\<close>

text \<open>The verdict a harvest now would give on a page.\<close>

definition verdict_now :: "dirty_host \<Rightarrow> ReimsVgpuDirty \<Rightarrow> u64 \<Rightarrow> u64 \<Rightarrow> page_verdict" where
  "verdict_now h d = page_verdict (memory_global_dirty_log_sync h) (harvest_slices h d)"

text \<open>
  The page at \<open>gpa\<close> of set \<open>t\<close> is watched when the set, of page size \<open>n\<close>, is armed at generation
  \<open>g\<close> or later, stamped when it was found written after \<open>g\<close>, and pending when the next
  harvest will find it written.
\<close>

definition watched :: "nat \<Rightarrow> u64 \<Rightarrow> u64 \<Rightarrow> nat \<Rightarrow> ReimsVgpuDirty \<Rightarrow> bool" where
  "watched t gpa n g d = (case map_of (d_sets d) t of None \<Rightarrow> False
     | Some s \<Rightarrow> gpa \<in> set (ds_pages s) \<and> ds_page_size s = n \<and> g \<le> ds_gen s \<and> ds_gen s \<noteq> 0)"

definition stamped :: "nat \<Rightarrow> u64 \<Rightarrow> nat \<Rightarrow> ReimsVgpuDirty \<Rightarrow> bool" where
  "stamped t gpa g d = (case map_of (d_sets d) t of None \<Rightarrow> False
     | Some s \<Rightarrow> g < ds_gen s \<and> (\<exists>p<length (ds_pages s). ds_pages s ! p = gpa \<and> g < ds_page_gen s ! p))"

definition pending :: "nat \<Rightarrow> u64 \<Rightarrow> dirty_host \<Rightarrow> ReimsVgpuDirty \<Rightarrow> bool" where
  "pending t gpa h d = (case map_of (d_sets d) t of None \<Rightarrow> False
     | Some s \<Rightarrow> verdict_now h d (ds_page_size s) gpa \<noteq> Clean)"

lemma harvest_stamp:
  assumes "set_ok bits n s" "ds_gen s \<noteq> 0" "p < length (ds_pages s)" "length vs = length (ds_pages s)"
  shows "vs ! p \<noteq> Clean \<Longrightarrow> ds_gen (harvest_set (n + 1) vs s) = ds_gen s + 1"
    and "vs ! p \<noteq> Clean \<Longrightarrow> ds_page_gen (harvest_set (n + 1) vs s) ! p = ds_gen s + 1"
    and "ds_page_gen s ! p \<le> ds_page_gen (harvest_set (n + 1) vs s) ! p"
proof -
  have "list_ex (\<lambda>v. v \<noteq> Clean) vs" if "vs ! p \<noteq> Clean" using that assms(3,4) by (auto simp: list_ex_length)
  then show "vs ! p \<noteq> Clean \<Longrightarrow> ds_gen (harvest_set (n + 1) vs s) = ds_gen s + 1"
    and "vs ! p \<noteq> Clean \<Longrightarrow> ds_page_gen (harvest_set (n + 1) vs s) ! p = ds_gen s + 1"
    using assms by (simp_all add: harvest_set_def set_ok_def Let_def)
  show "ds_page_gen s ! p \<le> ds_page_gen (harvest_set (n + 1) vs s) ! p"
    using assms by (simp add: harvest_set_def set_ok_def Let_def le_SucI)
qed

lemma verdict_mono:
  assumes g: "same_geometry h h'" and l: "set (d_logged d') = set (d_logged d)"
    and b: "\<And>p. dh_bitmap h p \<or> dh_log h p \<Longrightarrow> dh_bitmap h' p \<or> dh_log h' p"
    and v: "verdict_now h d n gpa \<noteq> Clean"
  shows "verdict_now h' d' n gpa \<noteq> Clean"
proof -
  have sl: "harvest_slices h' d' = harvest_slices h d" using l by (simp add: harvest_slices_def ram_slices_cong [OF g])
  have bits: "dh_page_bits h' = dh_page_bits h" "dh_page_bits (memory_global_dirty_log_sync h) = dh_page_bits h"
    "dh_page_bits (memory_global_dirty_log_sync h') = dh_page_bits h" using g
    by (simp_all add: same_geometry_def memory_global_dirty_log_sync_def)
  have "reims_vgpu_dirty_page_written (memory_global_dirty_log_sync h') sl gpa n"
    if "reims_vgpu_dirty_page_written (memory_global_dirty_log_sync h) sl gpa n" for sl
    using that b unfolding reims_vgpu_dirty_page_written_def page_offsets_def physical_memory_get_dirty_flag_def ram_page_def
      qemu_target_page_size_def sync_simps bits list_ex_iff by blast
  then show ?thesis using v by (auto simp: verdict_now_def page_verdict_def sl split: option.split if_split_asm)
qed

lemma map_of_filter_key: "t \<noteq> t' \<Longrightarrow> map_of (filter (\<lambda>ts. fst ts \<noteq> t') xs) t = map_of xs t"
  by (induction xs) auto

lemma map_of_map_snd: "map_of (map (\<lambda>ts. (fst ts, f (snd ts))) xs) t = map_option f (map_of xs t)"
  by (induction xs) auto

lemma map_of_token: "dirty_ok h d \<Longrightarrow> map_of (d_sets d) t = Some s \<Longrightarrow>
    0 < t \<and> t \<le> d_next_token d \<and> set_ok (dh_page_bits h) (d_harvests d) s"
  by (auto simp: dirty_ok_def dest!: map_of_SomeD)

lemma harvest_watched:
  assumes ok: "dirty_ok h d" and w: "watched t gpa n g d" and r: "reims_vgpu_dirty_harvest h d = Some (h', d')"
  shows "watched t gpa n g d'" and "stamped t gpa g d \<Longrightarrow> stamped t gpa g d'"
    and "d_reads_since_harvest d \<noteq> 0 \<Longrightarrow> pending t gpa h d \<Longrightarrow> stamped t gpa g d'"
proof -
  obtain s where s: "map_of (d_sets d) t = Some s" and gpa: "gpa \<in> set (ds_pages s)" "ds_page_size s = n"
    and g: "g \<le> ds_gen s" "ds_gen s \<noteq> 0"
    using w by (auto simp: watched_def split: option.splits)
  note so = map_of_token [OF ok s, THEN conjunct2, THEN conjunct2]
  let ?vs = "set_verdicts (memory_global_dirty_log_sync h) (harvest_slices h d) s"
  let ?s = "harvest_set (d_harvests d + 1) ?vs s"
  have len: "length ?vs = length (ds_pages s)" by (simp add: set_verdicts_def)
  have nonempty: "d_sets d \<noteq> []" using s by auto
  note st = harvest_stamp [OF so g(2) _ len] and le = harvest_set_gen [OF so, of ?vs]
  have step: "map_of (d_sets d') t = Some ?s" if "d_reads_since_harvest d \<noteq> 0"
    using r
  proof (cases rule: harvest_cases)
    case harvest
    then show ?thesis
      using map_of_map_snd [of "\<lambda>s. harvest_set (d_harvests d + 1)
        (set_verdicts (memory_global_dirty_log_sync h) (harvest_slices h d) s) s" "d_sets d" t] by (simp add: s)
  qed (use that nonempty in simp)
  have skip: "d' = d" if "d_reads_since_harvest d = 0" using r that by (simp add: reims_vgpu_dirty_harvest_def)
  show "watched t gpa n g d'"
  proof (cases "d_reads_since_harvest d = 0")
    case False
    then show ?thesis using step gpa g le by (simp add: watched_def)
  qed (use w skip in simp)
  show "stamped t gpa g d'" if h: "stamped t gpa g d"
  proof (cases "d_reads_since_harvest d = 0")
    case False
    obtain p where p: "p < length (ds_pages s)" "ds_pages s ! p = gpa" "g < ds_page_gen s ! p" "g < ds_gen s"
      using h s by (auto simp: stamped_def)
    then have "g < ds_page_gen ?s ! p" using st(3) [of p] by simp
    then show ?thesis using step False p le by (auto simp: stamped_def)
  qed (use h skip in simp)
  show "stamped t gpa g d'" if "d_reads_since_harvest d \<noteq> 0" "pending t gpa h d"
  proof -
    obtain p where p: "p < length (ds_pages s)" "ds_pages s ! p = gpa" using gpa by (auto simp: in_set_conv_nth)
    then have "?vs ! p \<noteq> Clean" using that(2) s by (simp add: pending_def verdict_now_def set_verdicts_def)
    with st(1,2) [OF p(1)] g p step [OF that(1)] show ?thesis by (auto simp: stamped_def)
  qed
qed

lemma dirty_do_watched:
  assumes ok: "dirty_ok h d" and w: "watched t gpa n g d" and r: "dirty_do e (h, d) = Some (h', d')" and e: "e \<noteq> Untrack t"
  shows "watched t gpa n g d'"
    and "stamped t gpa g d \<or> pending t gpa h d \<Longrightarrow> stamped t gpa g d' \<or> pending t gpa h' d'"
proof -
  obtain s where s: "map_of (d_sets d) t = Some s" using w by (auto simp: watched_def split: option.splits)
  have quiet: "watched t gpa n g d' \<and> (stamped t gpa g d \<or> pending t gpa h d \<longrightarrow> stamped t gpa g d' \<or> pending t gpa h' d')"
    if "map_of (d_sets d') t = map_of (d_sets d) t" "set (d_logged d') = set (d_logged d)" "same_geometry h h'"
      "\<And>p. dh_bitmap h p \<or> dh_log h p \<Longrightarrow> dh_bitmap h' p \<or> dh_log h' p"
    using w s that(1) verdict_mono [OF that(3,2,4)] by (auto simp: watched_def stamped_def pending_def)
  have "watched t gpa n g d' \<and> (stamped t gpa g d \<or> pending t gpa h d \<longrightarrow> stamped t gpa g d' \<or> pending t gpa h' d')"
  proof (cases e)
    case (Guest_store a)
    then have "h' = guest_store h a" "d' = d" using r by simp_all
    then show ?thesis using guest_store_geometry [of h a]
      by (intro quiet) (auto simp: guest_store_def Let_def split: option.split)
  next
    case (Track gpas n)
    then have d': "h' = h" "d' = snd (reims_vgpu_dirty_track h d gpas n)" using r by auto
    moreover have "d_next_token d + 1 \<noteq> t" using map_of_token [OF ok s] by simp
    ultimately show ?thesis by (cases rule: track_cases [of h d gpas n]) (intro quiet; simp)+
  next
    case (Untrack t')
    then have "h' = h" "d' = reims_vgpu_dirty_untrack d t'" using r by simp_all
    then show ?thesis using Untrack e by (intro quiet) (auto simp: reims_vgpu_dirty_untrack_def map_of_filter_key)
  next
    case Harvest
    then have h: "reims_vgpu_dirty_harvest h d = Some (h', d')" using r by simp
    show ?thesis
    proof (cases "d_reads_since_harvest d = 0")
      case True
      then have "h' = h" "d' = d" using h by (simp_all add: reims_vgpu_dirty_harvest_def)
      then show ?thesis using w by simp
    qed (use harvest_watched [OF ok w h] in blast)
  qed (use r in \<open>intro quiet; auto\<close>)+
  then show "watched t gpa n g d'"
    and "stamped t gpa g d \<or> pending t gpa h d \<Longrightarrow> stamped t gpa g d' \<or> pending t gpa h' d'" by blast+
qed

text \<open>A store into a watched page makes the page pending.\<close>

lemma drop_bit_offset:
  assumes "take_bit n (x :: u64) = 0" and "unat r < 2 ^ n"
  shows "drop_bit n (x + r) = drop_bit n x"
proof -
  have r: "take_bit n r = r"
    using assms(2) by (simp add: word_unat_eq_iff unsigned_take_bit_eq take_bit_nat_eq_self_iff)
  have "x AND r = 0"
  proof (rule bit_eqI)
    fix k
    have "bit (take_bit n x) k = False" using assms(1) by simp
    moreover have "bit r k = bit (take_bit n r) k" using r by simp
    ultimately show "bit (x AND r) k = bit 0 k" by (auto simp: bit_and_iff bit_take_bit_iff)
  qed
  then have "x + r = x OR r" by (simp add: disjunctive_add_eq_or)
  moreover have "drop_bit n r = 0" by (subst r [symmetric]) (simp add: drop_bit_take_bit)
  ultimately show ?thesis by (simp add: drop_bit_or)
qed

lemma page_offset_hit:
  assumes al: "take_bit n b = 0" and n: "n < 64" and d: "unat x < unat sz" and h: "dh_page_bits h = n"
  shows "\<exists>off\<in>set (page_offsets h sz). ram_page h (b + off) = ram_page h (b + x)"
proof -
  let ?T = "2 ^ n :: nat" and ?k = "unat x div 2 ^ n"
  have T: "unat (qemu_target_page_size h) = ?T" using n by (simp add: qemu_target_page_size_def h push_bit_eq_mult unat_2p)
  have T0: "0 < ?T" by simp
  have "?k * ?T < unat sz" using d by (metis div_times_less_eq_dividend le_less_trans)
  then have "Suc ?k * ?T \<le> unat sz + ?T - 1" by simp
  then have "?k < (unat sz + ?T - 1) div ?T" using less_eq_div_iff_mult_less_eq [OF T0] Suc_le_eq by blast
  then have "of_nat (?k * ?T) \<in> set (page_offsets h sz)"
    unfolding page_offsets_def T Let_def by (auto intro!: image_eqI [of _ _ ?k])
  moreover have "ram_page h (b + of_nat (?k * ?T)) = ram_page h (b + x)"
  proof -
    have x: "x = of_nat (?k * ?T) + of_nat (unat x mod ?T)"
      using of_nat_add [of "?k * ?T" "unat x mod ?T", where ?'a = u64] by (simp only: div_mult_mod_eq) simp
    have "(of_nat (?k * ?T) :: u64) = push_bit n (of_nat ?k)" by (simp add: push_bit_eq_mult)
    then have "take_bit n (of_nat (?k * ?T) :: u64) = 0" by (simp only: take_bit_push_bit) simp
    then have "take_bit n (b + of_nat (?k * ?T)) = 0" using al by (intro aligned_add_diff)
    moreover have "unat (of_nat (unat x mod ?T) :: u64) < ?T"
      using T0 by (simp add: unsigned_of_nat) (meson le_less_trans mod_less_divisor take_bit_nat_less_eq_self T0)
    ultimately have "drop_bit n (b + of_nat (?k * ?T) + of_nat (unat x mod ?T)) = drop_bit n (b + of_nat (?k * ?T))"
      by (rule drop_bit_offset)
    then show ?thesis unfolding ram_page_def h by (subst (2) x) (simp add: add.assoc)
  qed
  ultimately show ?thesis by blast
qed

lemma slice_of_map: "(\<And>sl. sl_gpa (f sl) = sl_gpa sl \<and> sl_len (f sl) = sl_len sl) \<Longrightarrow>
    reims_vgpu_dirty_slice_of (map f sls) gpa = reims_vgpu_dirty_slice_of sls gpa"
  by (induction sls) auto

lemma slice_of_Some:
  "reims_vgpu_dirty_slice_of sls gpa = Some i \<Longrightarrow>
    i < length sls \<and> sl_gpa (sls ! i) \<le> gpa \<and> gpa - sl_gpa (sls ! i) < sl_len (sls ! i)"
  by (induction sls arbitrary: i) (auto split: if_split_asm)

lemma slice_aligned:
  assumes "host_aligned h" "sl \<in> set (reims_vgpu_dirty_ram_slices h)"
  shows "take_bit (dh_page_bits h) (sl_ram_addr sl) = 0" and "take_bit (dh_page_bits h) (sl_gpa sl) = 0"
  using assms by (auto simp: reims_vgpu_dirty_ram_slices_def reims_vgpu_dirty_ram_range_def host_aligned_def list_all_iff
      intro!: aligned_add_diff(1) split: if_split_asm)

lemma store_pending:
  assumes ok: "dirty_ok h d" and s: "map_of (d_sets d) t = Some s" "gpa \<in> set (ds_pages s)"
    and a: "unat (a - gpa) < unat (ds_page_size s)"
    and sl: "reims_vgpu_dirty_slice_of (reims_vgpu_dirty_ram_slices h) a = reims_vgpu_dirty_slice_of (reims_vgpu_dirty_ram_slices h) gpa"
  shows "pending t gpa (guest_store h a) d"
proof -
  let ?sls = "reims_vgpu_dirty_ram_slices h" and ?h = "guest_store h a" and ?n = "dh_page_bits h"
  have sls: "reims_vgpu_dirty_ram_slices ?h = ?sls" by (rule ram_slices_cong [OF guest_store_geometry])
  have of: "reims_vgpu_dirty_slice_of (harvest_slices ?h d) gpa = reims_vgpu_dirty_slice_of ?sls gpa"
    by (simp add: harvest_slices_def sls slice_of_map)
  show ?thesis
  proof (cases "reims_vgpu_dirty_slice_of ?sls gpa")
    case None
    then show ?thesis by (simp add: pending_def s verdict_now_def page_verdict_def of)
  next
    case (Some i)
    let ?sl = "?sls ! i"
    have i: "i < length ?sls" using slice_of_Some [OF Some] by simp
    have hs: "harvest_slices ?h d ! i = ?sl\<lparr>sl_logged := sl_mr ?sl \<in> set (d_logged d)\<rparr>" using i
      by (simp add: harvest_slices_def sls)
    show ?thesis
    proof (cases "sl_mr ?sl \<in> set (d_logged d)")
      case False
      then show ?thesis by (simp add: pending_def s verdict_now_def page_verdict_def of Some hs)
    next
      case True
      then have "dh_vga_logging_count h (sl_mr ?sl) \<noteq> 0" using ok by (auto simp: dirty_ok_def log_ok_def)
      then have log: "dh_log ?h (ram_page h (sl_ram_addr ?sl + (a - sl_gpa ?sl)))"
        using sl Some by (simp add: guest_store_def Let_def)
      have al: "take_bit ?n (sl_ram_addr ?sl + (gpa - sl_gpa ?sl)) = 0"
        using slice_aligned [of h ?sl] map_of_token [OF ok s(1)] ok s(2) i
        by (intro aligned_add_diff) (simp_all add: dirty_ok_def set_ok_def)
      have n: "?n < 64" "dh_page_bits (memory_global_dirty_log_sync ?h) = ?n"
        using ok guest_store_geometry [of h a]
        by (simp_all add: dirty_ok_def host_aligned_def same_geometry_def memory_global_dirty_log_sync_def)
      have "sl_ram_addr ?sl + (gpa - sl_gpa ?sl) + (a - gpa) = sl_ram_addr ?sl + (a - sl_gpa ?sl)" by simp
      with page_offset_hit [OF al n(1) a n(2)] obtain off where
        off: "off \<in> set (page_offsets (memory_global_dirty_log_sync ?h) (ds_page_size s))"
        "ram_page (memory_global_dirty_log_sync ?h) (sl_ram_addr ?sl + (gpa - sl_gpa ?sl) + off) =
          ram_page (memory_global_dirty_log_sync ?h) (sl_ram_addr ?sl + (a - sl_gpa ?sl))" by metis
      have "ram_page (memory_global_dirty_log_sync ?h) x = ram_page h x" for x by (simp add: ram_page_def n(2))
      then have "reims_vgpu_dirty_page_written (memory_global_dirty_log_sync ?h) ?sl gpa (ds_page_size s)"
        using off log
        by (auto simp: reims_vgpu_dirty_page_written_def physical_memory_get_dirty_flag_def list_ex_iff intro!: bexI [of _ off])
      moreover have "reims_vgpu_dirty_page_written x (?sl\<lparr>sl_logged := b\<rparr>) = reims_vgpu_dirty_page_written x ?sl" for x b
        by (intro ext) (simp add: reims_vgpu_dirty_page_written_def)
      ultimately show ?thesis using True by (simp add: pending_def s verdict_now_def page_verdict_def of Some hs)
    qed
  qed
qed

lemma dirty_run_watched:
  assumes "dirty_ok (fst st) (snd st)" "watched t gpa n g (snd st)" "dirty_run es st = Some st'" "Untrack t \<notin> set es"
  shows "watched t gpa n g (snd st')"
    and "stamped t gpa g (snd st) \<or> pending t gpa (fst st) (snd st) \<Longrightarrow>
      stamped t gpa g (snd st') \<or> pending t gpa (fst st') (snd st')"
  using assms
proof (induction es arbitrary: st)
  case (Cons e es)
  case 1
  obtain st1 where s: "dirty_do e (fst st, snd st) = Some (fst st1, snd st1)" "dirty_run es st1 = Some st'"
    using 1 by (cases "dirty_do e st") simp_all
  then show ?case using Cons.IH(1) [of st1] dirty_do_ok [OF 1(1) s(1)] dirty_do_watched(1) [OF 1(1,2) s(1)] 1 by auto
next
  case (Cons e es)
  case 2
  obtain st1 where s: "dirty_do e (fst st, snd st) = Some (fst st1, snd st1)" "dirty_run es st1 = Some st'"
    using 2 by (cases "dirty_do e st") simp_all
  then show ?case using Cons.IH(2) [of st1] dirty_do_ok [OF 2(2) s(1)] dirty_do_watched [OF 2(2,3) s(1)] 2 by auto
qed simp_all

lemma dirty_do_geometry: "dirty_do e (h, d) = Some (h', d') \<Longrightarrow> same_geometry h h'"
proof (cases e)
  case Harvest
  assume "dirty_do e (h, d) = Some (h', d')"
  then have "reims_vgpu_dirty_harvest h d = Some (h', d')" using Harvest by simp
  then show "same_geometry h h'" by (cases rule: harvest_cases) simp_all
qed (auto simp: guest_store_geometry)

lemma dirty_run_geometry: "dirty_run es st = Some st' \<Longrightarrow> same_geometry (fst st) (fst st')"
proof (induction es arbitrary: st)
  case (Cons e es)
  obtain st1 where s: "dirty_do e (fst st, snd st) = Some (fst st1, snd st1)" "dirty_run es st1 = Some st'"
    using Cons.prems by (cases "dirty_do e st") simp_all
  show ?case by (rule same_geometry_trans [OF dirty_do_geometry [OF s(1)] Cons.IH [OF s(2)]])
qed simp

lemma written_loop_Some: "written_loop g mx n ps = Some out \<Longrightarrow> out = map fst (filter (\<lambda>pg. g < snd pg) ps)"
  by (induction g mx n ps arbitrary: out rule: written_loop.induct) (auto split: if_split_asm)

lemma stamped_reported:
  assumes "dirty_ok h d" "stamped t gpa g d"
  shows "g < fst (reims_vgpu_dirty_gen d t)"
    and "fst (reims_vgpu_dirty_written_since d t g mx) = Some out \<Longrightarrow> gpa \<in> set out"
proof -
  obtain s p where s: "map_of (d_sets d) t = Some s" "g < ds_gen s" and p: "p < length (ds_pages s)" "ds_pages s ! p = gpa"
    "g < ds_page_gen s ! p" using assms(2) by (auto simp: stamped_def split: option.splits)
  note tok = map_of_token [OF assms(1) s(1)]
  then show "g < fst (reims_vgpu_dirty_gen d t)" using s by (simp add: reims_vgpu_dirty_gen_def)
  have "(gpa, ds_page_gen s ! p) \<in> set (zip (ds_pages s) (ds_page_gen s))"
    using p tok by (auto simp: in_set_zip set_ok_def)
  then show "gpa \<in> set out" if "fst (reims_vgpu_dirty_written_since d t g mx) = Some out"
    using that s tok p(3) by (force simp: reims_vgpu_dirty_written_since_def split: if_split_asm option.split_asm
        dest!: written_loop_Some)
qed

text \<open>
  A store into page \<open>gpa\<close> of set \<open>t\<close> that a reader of generation \<open>g\<close> still has to be told of: it
  is stamped already or the next harvest, which a read has made due, finds it.
\<close>

definition outstanding :: "nat \<Rightarrow> u64 \<Rightarrow> u64 \<Rightarrow> nat \<Rightarrow> dirty_host \<Rightarrow> ReimsVgpuDirty \<Rightarrow> bool" where
  "outstanding t gpa n g h d \<longleftrightarrow> dirty_ok h d \<and> watched t gpa n g d \<and> (stamped t gpa g d \<or> pending t gpa h d) \<and>
     d_reads_since_harvest d \<noteq> 0"

lemma store_outstanding:
  assumes "dirty_ok h d" and "map_of (d_sets d) t = Some s" and "ds_gen s = g" and "g \<noteq> 0" and "gpa \<in> set (ds_pages s)"
    and "unat (a - gpa) < unat (ds_page_size s)"
    and "reims_vgpu_dirty_slice_of (reims_vgpu_dirty_ram_slices h) a = reims_vgpu_dirty_slice_of (reims_vgpu_dirty_ram_slices h) gpa"
    and "Untrack t \<notin> set (es1 @ es2)" and "dirty_run (es1 @ [Guest_store a] @ es2 @ [Gen t]) (h, d) = Some (h', d')"
  shows "outstanding t gpa (ds_page_size s) g h' d'"
proof -
  let ?n = "ds_page_size s"
  have w: "watched t gpa ?n g d" using assms(2-5) by (simp add: watched_def)
  obtain h1 d1 where r1: "dirty_run es1 (h, d) = Some (h1, d1)"
    and "dirty_run ([Guest_store a] @ es2 @ [Gen t]) (h1, d1) = Some (h', d')"
    using assms(9) unfolding dirty_run_append [of es1] by (cases "dirty_run es1 (h, d)") auto
  then obtain h2 d2 where r2: "dirty_run es2 (guest_store h1 a, d1) = Some (h2, d2)"
    and r3: "dirty_run [Gen t] (h2, d2) = Some (h', d')"
    using dirty_run_append [of es2 _ "(guest_store h1 a, d1)"] by (cases "dirty_run es2 (guest_store h1 a, d1)") auto
  have ok1: "dirty_ok h1 d1" and w1: "watched t gpa ?n g d1"
    using dirty_run_ok [OF _ r1] dirty_run_watched(1) [OF _ _ r1] assms(1) w assms(8) by simp_all
  obtain s1 where s1: "map_of (d_sets d1) t = Some s1" "gpa \<in> set (ds_pages s1)" "ds_page_size s1 = ?n"
    using w1 by (auto simp: watched_def split: option.splits)
  have p1: "pending t gpa (guest_store h1 a) d1"
    using store_pending [OF ok1 s1(1,2)] assms(6,7) s1(3) ram_slices_cong [OF dirty_run_geometry [OF r1]] by simp
  have ok2: "dirty_ok h2 d2" and w2: "watched t gpa ?n g d2" and p2: "stamped t gpa g d2 \<or> pending t gpa h2 d2"
    using dirty_run_ok [OF _ r2] dirty_run_watched [OF _ _ r2] guest_store_ok [OF ok1] w1 p1 assms(8) by simp_all
  have do: "dirty_do (Gen t) (h2, d2) = Some (h', d')" using r3 by simp
  have "0 < t" using map_of_token [OF assms(1,2)] by simp
  then have "d_reads_since_harvest d' \<noteq> 0" using do by (auto simp: reims_vgpu_dirty_gen_def)
  then show ?thesis
    unfolding outstanding_def using dirty_do_ok [OF ok2 do] dirty_do_watched [OF ok2 w2 do] p2 by blast
qed

lemma outstanding_harvested:
  assumes "outstanding t gpa n g h d" and "reims_vgpu_dirty_harvest h d = Some (h', d')"
  shows "g < fst (reims_vgpu_dirty_gen d' t)"
    and "case fst (reims_vgpu_dirty_written_since d' t g mx) of None \<Rightarrow> True | Some out \<Rightarrow> gpa \<in> set out"
proof -
  have ok: "dirty_ok h d" and w: "watched t gpa n g d" using assms(1) by (simp_all add: outstanding_def)
  have "stamped t gpa g d'" using harvest_watched [OF ok w assms(2)] assms(1) by (auto simp: outstanding_def)
  from stamped_reported [OF harvest_ok [OF ok assms(2)] this]
  show "g < fst (reims_vgpu_dirty_gen d' t)" "case fst (reims_vgpu_dirty_written_since d' t g mx) of None \<Rightarrow> True | Some out \<Rightarrow> gpa \<in> set out"
    by (auto split: option.split)
qed

section \<open>Properties\<close>

text \<open>
  C1 (no guest store is missed).  Take any history of the tracker, a set \<open>t\<close> with a
  readable generation \<open>g\<close>, and a guest store into one of its pages after \<open>g\<close> was
  read, in the RAM range that holds the start of the page.  Whatever stores, new
  and released mappings, reads and harvests follow, once \<open>t\<close> has been read and a
  harvest has run its generation is greater than \<open>g\<close>, and asking for the pages
  written since \<open>g\<close> lists the page or answers that every page must be taken as
  written.
\<close>

theorem dirty_no_store_missed:
  assumes "dirty_ok h0 reims_vgpu_dirty_new" and "dirty_run es0 (h0, reims_vgpu_dirty_new) = Some (h, d)"
    and "map_of (d_sets d) t = Some s" and "ds_gen s = g" and "g \<noteq> 0" and "gpa \<in> set (ds_pages s)"
    and "unat (a - gpa) < unat (ds_page_size s)"
    and "reims_vgpu_dirty_slice_of (reims_vgpu_dirty_ram_slices h) a = reims_vgpu_dirty_slice_of (reims_vgpu_dirty_ram_slices h) gpa"
    and "Untrack t \<notin> set (es1 @ es2)" and "dirty_run (es1 @ [Guest_store a] @ es2 @ [Gen t, Harvest]) (h, d) = Some (h', d')"
  shows "g < fst (reims_vgpu_dirty_gen d' t) \<and>
    (case fst (reims_vgpu_dirty_written_since d' t g mx) of None \<Rightarrow> True | Some out \<Rightarrow> gpa \<in> set out)"
proof -
  have ok: "dirty_ok h d" using dirty_run_ok [OF _ assms(2)] assms(1) by simp
  obtain h2 d2 where r: "dirty_run (es1 @ [Guest_store a] @ es2 @ [Gen t]) (h, d) = Some (h2, d2)"
    and "dirty_run [Harvest] (h2, d2) = Some (h', d')"
    using assms(10) dirty_run_append [of "es1 @ [Guest_store a] @ es2 @ [Gen t]" "[Harvest]" "(h, d)"]
    by (cases "dirty_run (es1 @ [Guest_store a] @ es2 @ [Gen t]) (h, d)") auto
  then have harvest: "reims_vgpu_dirty_harvest h2 d2 = Some (h', d')" by (simp split: option.splits)
  show ?thesis using outstanding_harvested [OF store_outstanding [OF ok assms(3-9) r] harvest] by blast
qed

lemma dedup_sorted_ok:
  assumes "sorted ps" and "\<And>q. prev = Some q \<Longrightarrow> \<forall>p\<in>set ps. q \<le> p"
  shows "sorted_wrt (<) (dedup_sorted prev ps) \<and> set (dedup_sorted prev ps) = set ps - set_option prev"
  using assms
proof (induction prev ps rule: dedup_sorted.induct)
  case (2 prev p ps)
  show ?case
  proof (cases "prev = Some p")
    case True
    then show ?thesis using 2 by auto
  next
    case False
    then have IH: "sorted_wrt (<) (dedup_sorted (Some p) ps) \<and> set (dedup_sorted (Some p) ps) = set ps - {p}"
      using 2 by auto
    moreover have "\<forall>q\<in>set ps - {p}. p < q" using "2.prems"(1) by (auto simp: order_less_le)
    moreover have "q < p" if "prev = Some q" for q using "2.prems"(2) [OF that] False that by (auto simp: order_less_le)
    then have "set_option prev \<inter> set (p # ps) = {}" using "2.prems"(1) by (cases prev) auto
    ultimately show ?thesis using False by auto
  qed
qed simp

text \<open>
  C36 (\<^verbatim>\<open>reims_vgpu_dirty_track\<close>).  A registration that is accepted gets a token that
  no other set has, and a set that holds exactly the pages the addresses lie in,
  each once, aligned and in ascending order, with no page marked written and the
  generation unreadable; one with no address, a page size that is not a power of
  two or one smaller than a target page is refused and changes nothing.
\<close>

theorem track_pages:
  assumes "dirty_ok h d"
  shows "case reims_vgpu_dirty_track h d gpas n of (token, d') \<Rightarrow>
    (if gpas = [] \<or> n = 0 \<or> n AND (n - 1) \<noteq> 0 \<or> n < qemu_target_page_size h then token = 0 \<and> d' = d
     else token \<notin> insert 0 (fst ` set (d_sets d)) \<and> (case map_of (d_sets d') token of None \<Rightarrow> False | Some s \<Rightarrow>
       sorted_wrt (<) (ds_pages s) \<and> set (ds_pages s) = (\<lambda>g. g AND NOT (n - 1)) ` set gpas \<and>
       (\<forall>p\<in>set (ds_pages s). take_bit (dh_page_bits h) p = 0) \<and> ds_page_gen s = replicate (length (ds_pages s)) 0 \<and> ds_gen s = 0))"
proof (cases "gpas = [] \<or> n = 0 \<or> n AND (n - 1) \<noteq> 0 \<or> n < qemu_target_page_size h")
  case True
  then show ?thesis by (auto simp: reims_vgpu_dirty_track_def)
next
  case False
  let ?ps = "dedup_sorted None (sort (map (\<lambda>g. g AND NOT (n - 1)) gpas))"
  have "sorted_wrt (<) ?ps \<and> set ?ps = (\<lambda>g. g AND NOT (n - 1)) ` set gpas"
    using dedup_sorted_ok [of "sort (map (\<lambda>g. g AND NOT (n - 1)) gpas)" None] by simp
  moreover have "take_bit (dh_page_bits h) (g AND NOT (n - 1)) = 0" for g
    using False assms by (intro aligned_take_bit) (simp_all add: dirty_ok_def host_aligned_def qemu_target_page_size_def not_less)
  moreover have "d_next_token d + 1 \<notin> fst ` set (d_sets d)" using assms by (fastforce simp: dirty_ok_def)
  ultimately show ?thesis using False by (auto simp: reims_vgpu_dirty_track_def Let_def)
qed

section \<open>A concrete machine\<close>

definition sample_view :: dirty_host where
  "sample_view = \<lparr>dh_page_bits = 12,
     dh_view = [\<lparr>fr_start = 0x10000, fr_size = 0x10000, fr_mr = 0, fr_ram = True, fr_offset = 0\<rparr>],
     dh_ram_addr = (\<lambda>mr. 0), dh_used_length = (\<lambda>mr. 0x10000), dh_bitmap = (\<lambda>p. False), dh_log = (\<lambda>p. False),
     dh_vga_logging_count = (\<lambda>mr. 0)\<rparr>"

lemmas dirty_eval = reims_vgpu_dirty_new_def reims_vgpu_dirty_track_def reims_vgpu_dirty_gen_def reims_vgpu_dirty_harvest_def
  harvest_slices_def reims_vgpu_dirty_ram_slices_def reims_vgpu_dirty_ram_range_def memory_global_dirty_log_sync_def
  harvest_fold_def harvest_set_def set_verdicts_def set_written_def page_verdict_def is_unlogged_def harvest_clear_def
  qemu_target_page_size_def reims_vgpu_dirty_page_written_def page_offsets_def physical_memory_get_dirty_flag_def
  ram_page_def memory_region_reset_dirty_def physical_memory_test_and_clear_dirty_def memory_region_set_log_def
  TARGET_PAGE_ALIGN_def cmp_key_def guest_store_def

definition armed_view :: dirty_host where
  "armed_view = sample_view\<lparr>dh_vga_logging_count := (\<lambda>mr. 0)(0 := 1)\<rparr>"

definition armed_set :: ReimsVgpuDirtySet where
  "armed_set = \<lparr>ds_pages = [0x14000], ds_page_gen = [0], ds_page_size = 0x4000, ds_gen = 1, ds_arm_at = 2\<rparr>"

definition armed_dirty :: ReimsVgpuDirty where
  "armed_dirty = \<lparr>d_sets = [(1, armed_set)], d_next_token = 1, d_logged = [0], d_harvests = 2, d_reads_since_harvest = 0\<rparr>"

lemma sample_ok: "dirty_ok sample_view reims_vgpu_dirty_new"
  by (simp add: dirty_ok_def host_aligned_def log_ok_def sample_view_def reims_vgpu_dirty_new_def)

lemma sample_armed:
  "dirty_run [Track [0x14321] 0x4000, Gen 1, Harvest, Gen 1, Harvest] (sample_view, reims_vgpu_dirty_new) =
    Some (armed_view, armed_dirty)"
  by (simp add: dirty_eval sample_view_def armed_view_def armed_dirty_def armed_set_def upt_rec)

lemma sample_store:
  "dirty_run ([] @ [Guest_store 0x15008] @ [] @ [Gen 1, Harvest]) (armed_view, armed_dirty) \<noteq> None"
  by (simp add: dirty_eval sample_view_def armed_view_def armed_dirty_def armed_set_def upt_rec)

theorem dirty_no_store_missed_witness:
  "\<exists>h d. dirty_run [Guest_store 0x15008, Gen 1, Harvest] (armed_view, armed_dirty) = Some (h, d) \<and>
    1 < fst (reims_vgpu_dirty_gen d 1)"
proof -
  obtain h d where r: "dirty_run ([] @ [Guest_store 0x15008] @ [] @ [Gen 1, Harvest]) (armed_view, armed_dirty) = Some (h, d)"
    using sample_store by fastforce
  have s: "map_of (d_sets armed_dirty) 1 = Some armed_set" "ds_gen armed_set = 1" "0x14000 \<in> set (ds_pages armed_set)"
    by (simp_all add: armed_dirty_def armed_set_def)
  have g: "unat (0x15008 - 0x14000 :: u64) < unat (ds_page_size armed_set)"
    "reims_vgpu_dirty_slice_of (reims_vgpu_dirty_ram_slices armed_view) 0x15008 =
      reims_vgpu_dirty_slice_of (reims_vgpu_dirty_ram_slices armed_view) 0x14000"
    by (simp_all add: armed_set_def armed_view_def sample_view_def dirty_eval)
  have u: "Untrack 1 \<notin> set ([] @ [])" by simp
  from dirty_no_store_missed [OF sample_ok sample_armed s(1,2) _ s(3) g u r] r show ?thesis by auto
qed

theorem track_pages_witness:
  "fst (reims_vgpu_dirty_track sample_view reims_vgpu_dirty_new [0x14321, 0x10000] 0x4000) \<noteq> 0"
  using track_pages [OF sample_ok, of "[0x14321, 0x10000]" "0x4000"]
  by (simp add: qemu_target_page_size_def sample_view_def case_prod_unfold)

end
