(* ===== verification/Dirty_Clear.thy ===== *)
theory Dirty_Clear
  imports Dirty
begin

text \<open>
  The second pass of the harvest (\<^verbatim>\<open>hw/display/reims-vgpu-dirty.c\<close>), which merges the
  pages found written into runs and resets them: what it clears, byte by byte,
  and what happens to a store that comes between the passes.
\<close>

section \<open>The clear pass\<close>

text \<open>
  RAM ranges in order, inside the address space and inside their RAM blocks.
\<close>

definition slice_fits :: "dirty_host \<Rightarrow> ReimsVgpuDirtySlice \<Rightarrow> bool" where
  "slice_fits h sl \<longleftrightarrow> unat (sl_gpa sl) + unat (sl_len sl) < 2 ^ 64 \<and>
     sl_ram_addr sl = dh_ram_addr h (sl_mr sl) + sl_offset sl \<and>
     unat (sl_offset sl) + unat (sl_len sl) \<le> unat (dh_used_length h (sl_mr sl)) \<and>
     unat (dh_ram_addr h (sl_mr sl)) + unat (dh_used_length h (sl_mr sl)) + 2 ^ dh_page_bits h \<le> 2 ^ 64"

definition slices_fit :: "dirty_host \<Rightarrow> ReimsVgpuDirtySlice list \<Rightarrow> bool" where
  "slices_fit h slices \<longleftrightarrow> dh_page_bits h < 64 \<and> list_all (slice_fits h) slices \<and>
     sorted_wrt (\<lambda>a b. unat (sl_gpa a) + unat (sl_len a) \<le> unat (sl_gpa b)) slices"

text \<open>A written page that lies in the range its first byte lies in.\<close>

definition page_fits :: "ReimsVgpuDirtySlice list \<Rightarrow> u64 \<times> u64 \<Rightarrow> bool" where
  "page_fits slices w = (case reims_vgpu_dirty_slice_of slices (fst w) of
       None \<Rightarrow> False
     | Some i \<Rightarrow> snd w \<noteq> 0 \<and> unat (fst w) + unat (snd w) \<le> unat (sl_gpa (slices ! i)) + unat (sl_len (slices ! i)))"

text \<open>The bytes of pages and of runs, with the range they are taken in.\<close>

definition page_bytes :: "ReimsVgpuDirtySlice list \<Rightarrow> (u64 \<times> u64) list \<Rightarrow> (nat option \<times> nat) set" where
  "page_bytes slices ws =
     (\<Union>w\<in>set ws. {reims_vgpu_dirty_slice_of slices (fst w)} \<times> {unat (fst w)..<unat (fst w) + unat (snd w)})"

definition run_bytes :: "(nat option \<times> u64 \<times> u64) list \<Rightarrow> (nat option \<times> nat) set" where
  "run_bytes rs = (\<Union>r\<in>set rs. {fst r} \<times> {unat (fst (snd r))..<unat (fst (snd r)) + unat (snd (snd r))})"

lemma slice_of_range:
  assumes "sorted_wrt (\<lambda>a b. unat (sl_gpa a) + unat (sl_len a) \<le> unat (sl_gpa b)) slices" and "i < length slices"
    and "unat (sl_gpa (slices ! i)) \<le> unat x" and "unat x < unat (sl_gpa (slices ! i)) + unat (sl_len (slices ! i))"
  shows "reims_vgpu_dirty_slice_of slices x = Some i"
  using assms
proof (induction slices arbitrary: i)
  case (Cons sl sls)
  have hit: "x \<ge> sl_gpa a \<and> x - sl_gpa a < sl_len a \<longleftrightarrow> unat (sl_gpa a) \<le> unat x \<and> unat x < unat (sl_gpa a) + unat (sl_len a)" for a
    by (auto simp: word_le_nat_alt word_less_nat_alt unat_sub)
  show ?case
  proof (cases i)
    case 0
    then show ?thesis using Cons.prems hit [of sl] by simp
  next
    case (Suc j)
    then have "sls ! j \<in> set sls" using Cons.prems(2) by simp
    then have "unat (sl_gpa sl) + unat (sl_len sl) \<le> unat (sl_gpa (sls ! j))" using Cons.prems(1) by simp
    then have "\<not> (x \<ge> sl_gpa sl \<and> x - sl_gpa sl < sl_len sl)" using hit [of sl] Cons.prems(3) Suc by simp
    moreover have "reims_vgpu_dirty_slice_of sls x = Some j" using Cons.prems Suc by (intro Cons.IH) simp_all
    ultimately show ?thesis using Suc by simp
  qed
qed simp

lemma page_bytes_simps [simp]:
  "page_bytes slices [] = {}"
  "page_bytes slices (w # ws) = {reims_vgpu_dirty_slice_of slices (fst w)} \<times> {unat (fst w)..<unat (fst w) + unat (snd w)} \<union> page_bytes slices ws"
  "page_bytes slices (us @ ws) = page_bytes slices us \<union> page_bytes slices ws"
  by (simp_all add: page_bytes_def)

lemma page_fits_end:
  assumes "slices_fit h slices" "page_fits slices w"
  obtains j where "reims_vgpu_dirty_slice_of slices (fst w) = Some j" "j < length slices" "unat (fst w + snd w) = unat (fst w) + unat (snd w)"
    "unat (fst w) + unat (snd w) \<le> unat (sl_gpa (slices ! j)) + unat (sl_len (slices ! j))" "0 < unat (snd w)"
proof -
  obtain j where j: "reims_vgpu_dirty_slice_of slices (fst w) = Some j" "snd w \<noteq> 0"
    "unat (fst w) + unat (snd w) \<le> unat (sl_gpa (slices ! j)) + unat (sl_len (slices ! j))"
    using assms(2) by (auto simp: page_fits_def split: option.splits)
  moreover have "j < length slices" using slice_of_Some [OF j(1)] by simp
  moreover from this have "unat (fst w) + unat (snd w) < 2 ^ 64"
    using assms(1) j(3) by (force simp: slices_fit_def slice_fits_def list_all_length)
  then have "unat (fst w + snd w) = unat (fst w) + unat (snd w)" by (simp add: unat_word_ariths)
  ultimately show thesis using that by (simp add: unat_gt_0)
qed

lemma merge_run_bytes:
  assumes fit: "slices_fit h slices" and i: "i < length slices" and s: "unat (sl_gpa (slices ! i)) \<le> s"
    and "s < unat e" "unat e \<le> unat (sl_gpa (slices ! i)) + unat (sl_len (slices ! i))"
    and "list_all (page_fits slices) ws" "\<forall>w\<in>set ws. s \<le> unat (fst w)" and "merge_run slices (Some i) e ws = (e', rest)"
  shows "unat e \<le> unat e' \<and> unat e' \<le> unat (sl_gpa (slices ! i)) + unat (sl_len (slices ! i)) \<and>
    (\<exists>used. ws = used @ rest \<and> {Some i} \<times> {s..<unat e} \<union> page_bytes slices used = {Some i} \<times> {s..<unat e'})"
  using assms(4-)
proof (induction ws arbitrary: e)
  case Nil
  then show ?case by auto
next
  case (Cons w ws)
  obtain gpa n where w: "w = (gpa, n)" by (cases w)
  obtain j where j: "reims_vgpu_dirty_slice_of slices gpa = Some j" "j < length slices" "unat (gpa + n) = unat gpa + unat n"
    "unat gpa + unat n \<le> unat (sl_gpa (slices ! j)) + unat (sl_len (slices ! j))" "0 < unat n"
    using page_fits_end [OF fit, of w] Cons.prems(3) w by auto
  have tl: "list_all (page_fits slices) ws" "\<forall>w\<in>set ws. s \<le> unat (fst w)" using Cons.prems(3,4) by simp_all
  consider (inside) "gpa + n \<le> e" | (stop) "\<not> gpa + n \<le> e" "gpa \<noteq> e \<or> j \<noteq> i" | (adj) "\<not> gpa + n \<le> e" "gpa = e" "j = i" by blast
  then show ?case
  proof cases
    case inside
    then have le: "unat gpa + unat n \<le> unat e" using j(3) by (simp add: word_le_nat_alt)
    have "unat (sl_gpa (slices ! i)) \<le> unat gpa" "s \<le> unat gpa" using s Cons.prems(4) w by auto
    then have "j = i" using slice_of_range [of slices i gpa] fit i j(1,5) le Cons.prems(2) by (simp add: slices_fit_def)
    obtain used where u: "ws = used @ rest" "{Some i} \<times> {s..<unat e} \<union> page_bytes slices used = {Some i} \<times> {s..<unat e'}"
      "unat e \<le> unat e'" "unat e' \<le> unat (sl_gpa (slices ! i)) + unat (sl_len (slices ! i))"
      using Cons.IH [OF Cons.prems(1,2) tl(1,2)] Cons.prems(5) inside w by (simp only: merge_run.simps if_True simp_thms) blast
    have "{Some i} \<times> {unat gpa..<unat gpa + unat n} \<subseteq> {Some i} \<times> {s..<unat e}" using le \<open>s \<le> unat gpa\<close> by auto
    then have "{Some i} \<times> {s..<unat e} \<union> page_bytes slices (w # used) = {Some i} \<times> {s..<unat e'}"
      unfolding page_bytes_simps w fst_conv snd_conv j(1) \<open>j = i\<close> using u(2) by blast
    then show ?thesis using u by (metis append_Cons)
  next
    case stop
    then show ?thesis using Cons.prems j(1) w by (auto intro: exI [of _ "[]"])
  next
    case adj
    then have "merge_run slices (Some i) (gpa + n) ws = (e', rest)" using Cons.prems(5) j(1) w by simp
    note tl = tl this
    have e: "s < unat (gpa + n)" "unat (gpa + n) \<le> unat (sl_gpa (slices ! i)) + unat (sl_len (slices ! i))"
      using j(3,4) adj(2,3) Cons.prems(1) by simp_all
    obtain used where u: "ws = used @ rest"
      "{Some i} \<times> {s..<unat (gpa + n)} \<union> page_bytes slices used = {Some i} \<times> {s..<unat e'}"
      "unat (gpa + n) \<le> unat e'" "unat e' \<le> unat (sl_gpa (slices ! i)) + unat (sl_len (slices ! i))"
      using Cons.IH [OF _ _ tl] e by blast
    have "{Some i} \<times> {s..<unat (gpa + n)} = {Some i} \<times> {s..<unat e} \<union> {Some i} \<times> {unat gpa..<unat gpa + unat n}"
      using j(3) adj(2) Cons.prems(1) by auto
    then have "{Some i} \<times> {s..<unat e} \<union> page_bytes slices (w # used) = {Some i} \<times> {s..<unat e'}"
      unfolding page_bytes_simps w fst_conv snd_conv j(1) adj(3) using u(2) by (simp only: Un_assoc)
    moreover have "unat e \<le> unat e'" using u(3) j(3) adj(2) by simp
    ultimately show ?thesis using u by (metis append_Cons)
  qed
qed

lemma clear_runs_bytes:
  assumes "slices_fit h slices" and "list_all (page_fits slices) ws" and "sorted (map (unat \<circ> fst) ws)"
  shows "run_bytes (clear_runs slices ws) = page_bytes slices ws \<and>
    (\<forall>r\<in>set (clear_runs slices ws). page_fits slices (snd r) \<and> fst r = reims_vgpu_dirty_slice_of slices (fst (snd r)))"
  using assms
proof (induction slices ws rule: clear_runs.induct)
  case (1 slices)
  then show ?case by (simp add: run_bytes_def)
next
  case (2 slices gpa n ws)
  obtain i where i: "reims_vgpu_dirty_slice_of slices gpa = Some i" "i < length slices" "unat (gpa + n) = unat gpa + unat n"
    "unat gpa + unat n \<le> unat (sl_gpa (slices ! i)) + unat (sl_len (slices ! i))" "0 < unat n"
    using page_fits_end [OF "2.prems"(1), of "(gpa, n)"] "2.prems"(2) by auto
  obtain e rest where m: "merge_run slices (Some i) (gpa + n) ws = (e, rest)" by fastforce
  have gpa: "unat (sl_gpa (slices ! i)) \<le> unat gpa" using slice_of_Some [OF i(1)] by (simp add: word_le_nat_alt)
  have lt: "unat gpa < unat (gpa + n)" "unat (gpa + n) \<le> unat (sl_gpa (slices ! i)) + unat (sl_len (slices ! i))" using i by simp_all
  have tl: "list_all (page_fits slices) ws" "\<forall>w\<in>set ws. unat gpa \<le> unat (fst w)" using "2.prems"(2,3) by simp_all
  note mr = merge_run_bytes [OF "2.prems"(1) i(2) gpa lt tl m]
  then obtain used where u: "ws = used @ rest"
    "{Some i} \<times> {unat gpa..<unat (gpa + n)} \<union> page_bytes slices used = {Some i} \<times> {unat gpa..<unat e}" by blast
  have e: "unat (gpa + n) \<le> unat e" "unat e \<le> unat (sl_gpa (slices ! i)) + unat (sl_len (slices ! i))" using mr by simp_all
  then have len: "unat (e - gpa) = unat e - unat gpa" using lt by (simp add: unat_sub word_le_nat_alt)
  have IH: "run_bytes (clear_runs slices rest) = page_bytes slices rest \<and>
    (\<forall>r\<in>set (clear_runs slices rest). page_fits slices (snd r) \<and> fst r = reims_vgpu_dirty_slice_of slices (fst (snd r)))"
    using "2.IH" [OF i(1) [symmetric] refl "2.prems"(1)] tl(1) "2.prems"(3) u(1) m by (simp add: sorted_append)
  have runs: "clear_runs slices ((gpa, n) # ws) = (Some i, gpa, e - gpa) # clear_runs slices rest" by (simp add: i(1) m)
  have "run_bytes (clear_runs slices ((gpa, n) # ws)) = {Some i} \<times> {unat gpa..<unat e} \<union> run_bytes (clear_runs slices rest)"
    unfolding runs using len e lt by (simp add: run_bytes_def)
  also have "\<dots> = page_bytes slices ((gpa, n) # ws)" unfolding u(1) using u(2) IH i(1,3) by (simp add: Un_assoc [symmetric])
  finally have "run_bytes (clear_runs slices ((gpa, n) # ws)) = page_bytes slices ((gpa, n) # ws)" .
  moreover have "page_fits slices (gpa, e - gpa)" using i(1) e lt len by (auto simp: page_fits_def unat_gt_0 [symmetric])
  ultimately show ?case using IH i(1) unfolding runs by simp
qed
text \<open>The bitmap index of a guest byte taken in a range, and a host without the bits of some indices.\<close>

definition byte_page :: "dirty_host \<Rightarrow> ReimsVgpuDirtySlice list \<Rightarrow> nat option \<times> nat \<Rightarrow> nat" where
  "byte_page h slices b =
     ram_page h (sl_ram_addr (slices ! the (fst b)) + (of_nat (snd b) - sl_gpa (slices ! the (fst b))))"

definition clear_bits :: "dirty_host \<Rightarrow> nat set \<Rightarrow> dirty_host" where
  "clear_bits h C = h\<lparr>dh_bitmap := (\<lambda>p. dh_bitmap h p \<and> p \<notin> C), dh_log := (\<lambda>p. dh_log h p \<and> p \<notin> C)\<rparr>"

lemma take_bit_unat: "take_bit 64 (unat (w :: u64)) = unat w"
  using unat_bounds(4) [of w] by (simp add: take_bit_nat_eq_self_iff)

lemma ram_page_div: "ram_page h w = unat w div 2 ^ dh_page_bits h"
  by (simp only: ram_page_def unsigned_drop_bit_eq)
    (simp add: drop_bit_eq_div take_bit_unat)

lemma ram_page_align:
  assumes "dh_page_bits h < 64" and "unat w + 2 ^ dh_page_bits h \<le> 2 ^ 64"
  shows "ram_page h (TARGET_PAGE_ALIGN h w) = (unat w + 2 ^ dh_page_bits h - 1) div 2 ^ dh_page_bits h"
proof -
  let ?n = "dh_page_bits h"
  have T: "qemu_target_page_size h - 1 = mask ?n" by (simp add: qemu_target_page_size_def push_bit_eq_mult mask_eq_exp_minus_1)
  have "unat (mask ?n :: u64) = 2 ^ ?n - 1" using assms(1) by (simp add: mask_eq_exp_minus_1 unat_minus_one unat_2p)
  then have u: "unat (w + mask ?n) = unat w + 2 ^ ?n - 1" using assms(2) by (simp add: unat_word_ariths)
  have "drop_bit ?n ((w + mask ?n) AND NOT (mask ?n)) = drop_bit ?n (w + mask ?n)"
    by (intro bit_eqI) (auto simp: bit_drop_bit_eq bit_and_iff bit_not_iff bit_mask_iff dest: bit_imp_le_length)
  then show ?thesis using u ram_page_div [of h "w + mask ?n"] by (simp add: ram_page_def TARGET_PAGE_ALIGN_def T)
qed

lemma touched_pages:
  assumes "0 < (T :: nat)" "0 < n"
  shows "{p. a div T \<le> p \<and> p < (a + n + T - 1) div T} = (\<lambda>y. y div T) ` {a..<a + n}"
proof (rule set_eqI)
  fix p
  have "p < (a + n + T - 1) div T \<longleftrightarrow> Suc p * T \<le> a + n + T - 1" using assms(1) by (metis Suc_le_eq less_eq_div_iff_mult_less_eq)
  also have "\<dots> \<longleftrightarrow> p * T < a + n" using assms by auto
  finally have b: "p < (a + n + T - 1) div T \<longleftrightarrow> p * T < a + n" .
  have "a div T \<le> p \<and> p * T < a + n \<longleftrightarrow> (\<exists>y\<in>{a..<a + n}. p = y div T)"
  proof
    assume h: "a div T \<le> p \<and> p * T < a + n"
    show "\<exists>y\<in>{a..<a + n}. p = y div T"
    proof (cases "p * T \<le> a")
      case True
      then have "p \<le> a div T" using assms(1) by (simp add: less_eq_div_iff_mult_less_eq)
      then show ?thesis using h assms(2) by (intro bexI [of _ a]) auto
    next
      case False
      then show ?thesis using h assms(1) by (intro bexI [of _ "p * T"]) auto
    qed
  next
    assume "\<exists>y\<in>{a..<a + n}. p = y div T"
    then obtain y where "a \<le> y" "y < a + n" "p = y div T" by auto
    then show "a div T \<le> p \<and> p * T < a + n"
      using div_le_mono [of a y T] le_less_trans [OF div_times_less_eq_dividend [of y T]] by auto
  qed
  with b show "p \<in> {p. a div T \<le> p \<and> p < (a + n + T - 1) div T} \<longleftrightarrow> p \<in> (\<lambda>y. y div T) ` {a..<a + n}" by auto
qed

lemma slice_ram_addr:
  assumes "slice_fits h sl" "unat (sl_gpa sl) \<le> x" "x < unat (sl_gpa sl) + unat (sl_len sl)"
  shows "unat (sl_ram_addr sl + (of_nat x - sl_gpa sl)) =
    unat (dh_ram_addr h (sl_mr sl)) + unat (sl_offset sl) + (x - unat (sl_gpa sl))"
proof -
  have "0 < (2 :: nat) ^ dh_page_bits h" by simp
  then have lt: "unat (dh_ram_addr h (sl_mr sl)) + unat (sl_offset sl) + unat (sl_len sl) < 2 ^ 64"
    using assms(1) unfolding slice_fits_def by linarith
  have r: "unat (sl_ram_addr sl) = unat (dh_ram_addr h (sl_mr sl)) + unat (sl_offset sl)"
    using lt assms(1) by (simp add: slice_fits_def unat_word_ariths)
  have x: "unat (of_nat x :: u64) = x" using assms by (simp add: slice_fits_def unsigned_of_nat take_bit_nat_eq_self_iff)
  then have "unat (of_nat x - sl_gpa sl) = x - unat (sl_gpa sl)" using assms(2) by (simp add: unat_sub word_le_nat_alt)
  then show ?thesis using r lt assms(2,3) by (simp add: unat_word_ariths)
qed

lemma shift_interval: "(g :: nat) \<le> a \<Longrightarrow> (\<lambda>x. b + (x - g)) ` {a..<a + n} = {b + (a - g)..<b + (a - g) + n}"
proof (rule set_eqI)
  fix y assume "g \<le> a"
  then show "y \<in> (\<lambda>x. b + (x - g)) ` {a..<a + n} \<longleftrightarrow> y \<in> {b + (a - g)..<b + (a - g) + n}"
    by (auto simp: image_iff intro!: bexI [of _ "y - b + g"])
qed

lemma reset_run:
  assumes fit: "slices_fit h slices" and i: "i < length slices" and gpa: "unat (sl_gpa (slices ! i)) \<le> unat gpa"
    and len: "len \<noteq> 0" "unat gpa + unat len \<le> unat (sl_gpa (slices ! i)) + unat (sl_len (slices ! i))"
  shows "memory_region_reset_dirty h (sl_mr (slices ! i)) (sl_offset (slices ! i) + (gpa - sl_gpa (slices ! i))) len =
    Some (clear_bits h (byte_page h slices ` ({Some i} \<times> {unat gpa..<unat gpa + unat len})))"
proof -
  let ?sl = "slices ! i" and ?n = "dh_page_bits h"
  let ?start = "dh_ram_addr h (sl_mr ?sl) + (sl_offset ?sl + (gpa - sl_gpa ?sl))"
  have sf: "slice_fits h ?sl" "?n < 64" using fit i by (auto simp: slices_fit_def list_all_length)
  then have ra: "sl_ram_addr ?sl = dh_ram_addr h (sl_mr ?sl) + sl_offset ?sl" by (simp add: slice_fits_def)
  have len0: "0 < unat len" using len(1) by (simp add: unat_gt_0)
  let ?b = "unat (dh_ram_addr h (sl_mr ?sl)) + unat (sl_offset ?sl)"
  have addr: "unat (sl_ram_addr ?sl + (of_nat x - sl_gpa ?sl)) = ?b + (x - unat (sl_gpa ?sl))"
    if "unat gpa \<le> x" "x < unat gpa + unat len" for x using slice_ram_addr [OF sf(1), of x] that gpa len by simp
  have start: "unat ?start = ?b + (unat gpa - unat (sl_gpa ?sl))" using addr [of "unat gpa"] len0 by (simp add: ra add.assoc)
  have bound: "unat ?start + unat len + 2 ^ ?n \<le> 2 ^ 64"
    "unat ?start + unat len \<le> unat (dh_ram_addr h (sl_mr ?sl)) + unat (dh_used_length h (sl_mr ?sl))"
    using sf(1) start gpa len unfolding slice_fits_def by linarith+
  have "0 < (2 :: nat) ^ ?n" by simp
  then have lt: "unat ?start + unat len < 2 ^ 64" "unat (dh_ram_addr h (sl_mr ?sl)) + unat (dh_used_length h (sl_mr ?sl)) < 2 ^ 64"
    using bound sf(1) unfolding slice_fits_def by linarith+
  have e: "unat (?start + len) = unat ?start + unat len"
    "unat (dh_ram_addr h (sl_mr ?sl) + dh_used_length h (sl_mr ?sl)) = unat (dh_ram_addr h (sl_mr ?sl)) + unat (dh_used_length h (sl_mr ?sl))"
    using lt by (simp_all only: unat_word_ariths) simp_all
  have ok: "?start \<ge> dh_ram_addr h (sl_mr ?sl) \<and> ?start + len \<le> dh_ram_addr h (sl_mr ?sl) + dh_used_length h (sl_mr ?sl)"
    using bound(2) start by (simp only: word_le_nat_alt e) simp
  have "byte_page h slices ` ({Some i} \<times> {unat gpa..<unat gpa + unat len}) =
      (\<lambda>x. (?b + (x - unat (sl_gpa ?sl))) div 2 ^ ?n) ` {unat gpa..<unat gpa + unat len}"
    using addr by (auto simp: byte_page_def ram_page_div image_iff intro!: bexI)
  also have "\<dots> = (\<lambda>y. y div 2 ^ ?n) ` {unat ?start..<unat ?start + unat len}"
    unfolding start shift_interval [OF gpa, of ?b "unat len", symmetric] image_image ..
  finally have "byte_page h slices ` ({Some i} \<times> {unat gpa..<unat gpa + unat len}) =
      {p. ram_page h ?start \<le> p \<and> p < ram_page h (TARGET_PAGE_ALIGN h (?start + len))}"
    using touched_pages [of "2 ^ ?n" "unat len" "unat ?start"] len0 ram_page_align [of h "?start + len"] sf(2) bound(1)
    by (simp add: ram_page_div e)
  then show ?thesis using ok len(1)
    by (simp add: memory_region_reset_dirty_def physical_memory_test_and_clear_dirty_def clear_bits_def Let_def)
qed
lemma clear_bits_simps [simp]:
  "clear_bits h {} = h" "clear_bits (clear_bits h A) B = clear_bits h (A \<union> B)" "same_geometry h (clear_bits h A)"
  by (auto simp: clear_bits_def same_geometry_def)

lemma geometry_cong:
  assumes "same_geometry h h'"
  shows "slices_fit h' slices = slices_fit h slices" "byte_page h' slices = byte_page h slices"
  using assms by (auto simp: same_geometry_def slices_fit_def slice_fits_def [abs_def] byte_page_def ram_page_def fun_eq_iff)

lemma reset_runs_bytes:
  assumes "slices_fit h slices"
    and "\<forall>r\<in>set rs. page_fits slices (snd r) \<and> fst r = reims_vgpu_dirty_slice_of slices (fst (snd r))"
  shows "reset_runs slices rs h = Some (clear_bits h (byte_page h slices ` run_bytes rs))"
  using assms
proof (induction rs arbitrary: h)
  case Nil
  then show ?case by (simp add: run_bytes_def)
next
  case (Cons r rs)
  obtain si gpa len where r: "r = (si, gpa, len)" by (rule prod_cases3)
  obtain i where i: "reims_vgpu_dirty_slice_of slices gpa = Some i" "i < length slices"
    "unat gpa + unat len \<le> unat (sl_gpa (slices ! i)) + unat (sl_len (slices ! i))" "0 < unat len"
    using page_fits_end [OF Cons.prems(1), of "(gpa, len)"] Cons.prems(2) r by auto
  then have "len \<noteq> 0" by auto
  let ?C = "byte_page h slices ` ({Some i} \<times> {unat gpa..<unat gpa + unat len})"
  have "unat (sl_gpa (slices ! i)) \<le> unat gpa" using slice_of_Some [OF i(1)] by (simp add: word_le_nat_alt)
  note reset = reset_run [OF Cons.prems(1) i(2) this \<open>len \<noteq> 0\<close> i(3)]
  have "reset_runs slices rs (clear_bits h ?C) = Some (clear_bits (clear_bits h ?C) (byte_page h slices ` run_bytes rs))"
    using Cons.IH [of "clear_bits h ?C"] Cons.prems geometry_cong [OF clear_bits_simps(3), of h ?C] by simp
  then show ?case using Cons.prems(2) r i(1) by (simp add: reset run_bytes_def image_Un)
qed

lemma sort_key_gpa: "sorted (map (unat \<circ> fst) (sort_key cmp_key ws))"
proof -
  have "sorted (map cmp_key (sort_key cmp_key ws))" by (rule sorted_sort_key)
  then show ?thesis unfolding sorted_map by (rule sorted_wrt_mono_rel [rotated]) (auto simp: cmp_key_def less_eq_prod_def)
qed

lemma slice_of_nth_map:
  "(\<And>i. sl_gpa (f i (sls ! i)) = sl_gpa (sls ! i) \<and> sl_len (f i (sls ! i)) = sl_len (sls ! i)) \<Longrightarrow>
    reims_vgpu_dirty_slice_of (map (\<lambda>i. f i (sls ! i)) [0..<length sls]) gpa = reims_vgpu_dirty_slice_of sls gpa"
proof (induction sls arbitrary: f)
  case (Cons sl sls)
  have "map (\<lambda>i. f i ((sl # sls) ! i)) [0..<length (sl # sls)] = f 0 sl # map (\<lambda>i. f (Suc i) (sls ! i)) [0..<length sls]"
    by (simp add: upt_conv_Cons map_Suc_upt [symmetric] del: upt_Suc)
  moreover have "reims_vgpu_dirty_slice_of (map (\<lambda>i. f (Suc i) (sls ! i)) [0..<length sls]) gpa = reims_vgpu_dirty_slice_of sls gpa"
    using Cons.prems [of "Suc _"] by (intro Cons.IH) simp
  ultimately show ?case using Cons.prems [of 0] by simp
qed simp

text \<open>The ranges the clear pass works on are those of the flat view, with the flags of the first pass.\<close>

lemma fold_slices:
  assumes "harvest_fold (memory_global_dirty_log_sync h) (harvest_slices h d) d = (d1, slices, written)"
  shows "length slices = length (reims_vgpu_dirty_ram_slices h)"
    and "i < length slices \<Longrightarrow> sl_gpa (slices ! i) = sl_gpa (reims_vgpu_dirty_ram_slices h ! i) \<and>
      sl_ram_addr (slices ! i) = sl_ram_addr (reims_vgpu_dirty_ram_slices h ! i)"
    and "reims_vgpu_dirty_slice_of slices gpa = reims_vgpu_dirty_slice_of (reims_vgpu_dirty_ram_slices h) gpa"
proof -
  have eq: "slices = map (\<lambda>i. (harvest_slices h d ! i)\<lparr>sl_needs_log := Unlogged i \<in> set (concat (map (\<lambda>ts.
      set_verdicts (memory_global_dirty_log_sync h) (harvest_slices h d) (snd ts)) (d_sets d)))\<rparr>) [0..<length (harvest_slices h d)]"
    using assms by (simp add: harvest_fold_def Let_def)
  then show len: "length slices = length (reims_vgpu_dirty_ram_slices h)" by (simp add: harvest_slices_def)
  show nth: "i < length slices \<Longrightarrow> sl_gpa (slices ! i) = sl_gpa (reims_vgpu_dirty_ram_slices h ! i) \<and>
      sl_ram_addr (slices ! i) = sl_ram_addr (reims_vgpu_dirty_ram_slices h ! i)" for i
    using eq by (simp add: harvest_slices_def)
  have "reims_vgpu_dirty_slice_of slices gpa = reims_vgpu_dirty_slice_of (harvest_slices h d) gpa"
    unfolding eq by (rule slice_of_nth_map) simp
  then show "reims_vgpu_dirty_slice_of slices gpa = reims_vgpu_dirty_slice_of (reims_vgpu_dirty_ram_slices h) gpa"
    by (simp add: harvest_slices_def slice_of_map)
qed

lemma harvest_clear_bits:
  assumes "slices_fit h slices" and "list_all (page_fits slices) written"
  shows "harvest_clear slices written h = Some (clear_bits h (byte_page h slices ` page_bytes slices written))"
proof -
  let ?ws = "sort_key cmp_key written"
  have ws: "list_all (page_fits slices) ?ws" "page_bytes slices ?ws = page_bytes slices written"
    using assms(2) by (simp_all add: list_all_iff page_bytes_def)
  note runs = clear_runs_bytes [OF assms(1) ws(1) sort_key_gpa]
  show ?thesis using reset_runs_bytes [OF assms(1), of "clear_runs slices ?ws"] runs ws(2) by (simp add: harvest_clear_def)
qed

lemma store_clear_bits:
  assumes "p \<in> C"
  shows "clear_bits (h\<lparr>dh_log := (dh_log h)(p := True)\<rparr>) C = clear_bits h C"
proof -
  have "(\<lambda>q. ((dh_log h)(p := True)) q \<and> q \<notin> C) = (\<lambda>q. dh_log h q \<and> q \<notin> C)" using assms by auto
  then show ?thesis by (simp add: clear_bits_def del: fun_upd_apply)
qed

text \<open>
  C11 (the clear pass, after the comment that nothing is widened).  When every written page lies in the
  RAM range of its first byte, sorting, merging adjacent pages into runs and
  resetting run by run fails no assertion and clears exactly the bits of the
  written pages, in the bitmap and in the accelerator's log.
\<close>

theorem harvest_clear_exact:
  assumes "slices_fit h slices" and "list_all (page_fits slices) written"
  shows "harvest_clear slices written h = Some (clear_bits h (byte_page h slices ` page_bytes slices written))"
  using assms by (rule harvest_clear_bits)

text \<open>
  C37 (a store between the passes).  The generations are published, and the lock released,
  before the bits are cleared.  A guest store that hits a page the first pass
  found written, and comes before the second pass, leaves no trace: the state
  after the clear is the one without the store, so a reader that has taken the
  new generation and copied the page before the store is never told of it.
\<close>

theorem store_between_passes_lost:
  assumes "harvest_fold (memory_global_dirty_log_sync h) (harvest_slices h d) d = (d1, slices, written)"
    and "slices_fit h slices" and "list_all (page_fits slices) written"
    and "w \<in> set written" and "unat (fst w) \<le> unat a" and "unat a < unat (fst w) + unat (snd w)"
  shows "harvest_clear slices written (guest_store (memory_global_dirty_log_sync h) a) =
    harvest_clear slices written (memory_global_dirty_log_sync h)"
proof -
  let ?h = "memory_global_dirty_log_sync h" and ?C = "byte_page h slices ` page_bytes slices written"
  obtain i where i: "reims_vgpu_dirty_slice_of slices (fst w) = Some i" "i < length slices"
    "unat (fst w) + unat (snd w) \<le> unat (sl_gpa (slices ! i)) + unat (sl_len (slices ! i))"
    using page_fits_end [OF assms(2), of w] assms(3,4) by (auto simp: list_all_iff)
  have "unat (sl_gpa (slices ! i)) \<le> unat a" using slice_of_Some [OF i(1)] assms(5) by (simp add: word_le_nat_alt)
  then have a: "reims_vgpu_dirty_slice_of slices a = Some i"
    using slice_of_range [of slices i a] assms(2,6) i by (simp add: slices_fit_def)
  have in_page: "(Some i, unat a) \<in> page_bytes slices written" unfolding page_bytes_def using assms(4-6) i(1) by force
  have p: "ram_page ?h (sl_ram_addr (reims_vgpu_dirty_ram_slices h ! i) + (a - sl_gpa (reims_vgpu_dirty_ram_slices h ! i))) \<in> ?C"
    using fold_slices(2) [OF assms(1) i(2)] in_page
    by (force simp: byte_page_def ram_page_def memory_global_dirty_log_sync_def image_iff)
  have g: "same_geometry h ?h" "same_geometry h (guest_store ?h a)"
    using sync_simps(1) guest_store_geometry same_geometry_trans by blast+
  have clear: "harvest_clear slices written h' = Some (clear_bits h' ?C)" if "same_geometry h h'" for h'
    using harvest_clear_bits [of h' slices written] assms(2,3) geometry_cong [OF that, of slices] by simp
  have "reims_vgpu_dirty_slice_of (reims_vgpu_dirty_ram_slices ?h) a = Some i" "reims_vgpu_dirty_ram_slices ?h = reims_vgpu_dirty_ram_slices h"
    using a fold_slices(3) [OF assms(1), of a] ram_slices_cong [OF g(1)] by simp_all
  then have "clear_bits (guest_store ?h a) ?C = clear_bits ?h ?C"
    using store_clear_bits [OF p, of ?h] by (simp add: guest_store_def Let_def)
  then show ?thesis using clear [OF g(1)] clear [OF g(2)] by simp
qed

section \<open>Witnesses\<close>

definition sample_slice :: ReimsVgpuDirtySlice where
  "sample_slice = \<lparr>sl_mr = 0, sl_gpa = 0x10000, sl_len = 0x10000, sl_ram_addr = 0, sl_offset = 0,
     sl_logged = True, sl_needs_log = False\<rparr>"

lemma sample_slice_fits: "slices_fit armed_view [sample_slice]" "list_all (page_fits [sample_slice]) [(0x14000, 0x4000)]"
  by (simp_all add: slices_fit_def slice_fits_def page_fits_def sample_slice_def armed_view_def sample_view_def)

theorem harvest_clear_exact_witness:
  "harvest_clear [sample_slice] [(0x14000, 0x4000)] armed_view \<noteq> None"
  using harvest_clear_exact [OF sample_slice_fits] by simp

lemma sample_stored: "guest_store armed_view 0x15008 = armed_view\<lparr>dh_log := (\<lambda>p. False)(5 := True)\<rparr>"
  by (simp add: dirty_eval sample_view_def armed_view_def)

lemma sample_slices: "harvest_slices (armed_view\<lparr>dh_log := l\<rparr>) armed_dirty = [sample_slice]"
  by (simp add: dirty_eval sample_view_def armed_view_def armed_dirty_def sample_slice_def)

lemma sample_verdict:
  "page_verdict (memory_global_dirty_log_sync (armed_view\<lparr>dh_log := (\<lambda>p. False)(5 := True)\<rparr>)) [sample_slice] 0x4000 0x14000 = Written"
  by (simp add: page_verdict_def reims_vgpu_dirty_page_written_def page_offsets_def physical_memory_get_dirty_flag_def
      ram_page_def qemu_target_page_size_def memory_global_dirty_log_sync_def sample_view_def armed_view_def sample_slice_def upt_rec)

lemma sample_fold:
  "snd (harvest_fold (memory_global_dirty_log_sync (guest_store armed_view 0x15008))
      (harvest_slices (guest_store armed_view 0x15008) armed_dirty) armed_dirty) = ([sample_slice], [(0x14000, 0x4000)])"
  unfolding sample_stored sample_slices
  by (simp add: harvest_fold_def Let_def armed_dirty_def armed_set_def set_verdicts_def set_written_def sample_verdict)
     (simp add: sample_slice_def)

theorem store_between_passes_lost_witness:
  "harvest_clear [sample_slice] [(0x14000, 0x4000)]
      (guest_store (memory_global_dirty_log_sync (guest_store armed_view 0x15008)) 0x16000) =
    harvest_clear [sample_slice] [(0x14000, 0x4000)] (memory_global_dirty_log_sync (guest_store armed_view 0x15008))"
proof (rule store_between_passes_lost)
  let ?h = "guest_store armed_view 0x15008"
  show "harvest_fold (memory_global_dirty_log_sync ?h) (harvest_slices ?h armed_dirty) armed_dirty =
      (fst (harvest_fold (memory_global_dirty_log_sync ?h) (harvest_slices ?h armed_dirty) armed_dirty),
       [sample_slice], [(0x14000, 0x4000)])" using sample_fold by (metis surjective_pairing)
  show "slices_fit ?h [sample_slice]" using sample_slice_fits(1) geometry_cong(1) [OF guest_store_geometry] by simp
  show "(0x14000, 0x4000) \<in> set [(0x14000, 0x4000)]" by simp
qed (use sample_slice_fits in simp_all)

end
