(* ===== verification/Vgpu_Mmio.thy ===== *)
theory Vgpu_Mmio
  imports Vgpu_Console Dirty_Clear
begin

text \<open>
  The register windows of the display device and its end, \<^verbatim>\<open>hw/display/reims-vgpu-mmio.c\<close>, over
  the tracker of guest writes and the console together.  What the Rust device does
  with a register write is a parameter: a function of the tracker as it finds it,
  with the calls it makes to the tracker and the actions it queues.
\<close>

section \<open>Operations\<close>

type_synonym gpu = "dirty_host \<times> ReimsVgpuDirty \<times> mmio_state"

record reg_answer =
  rg_rc :: int
  rg_events :: "dirty_event list"
  rg_actions :: "(ReimsVgpuHostAction \<times> rust_answers) list"

type_synonym rust_write = "dirty_host \<times> ReimsVgpuDirty \<Rightarrow> u64 \<Rightarrow> u64 \<Rightarrow> nat \<Rightarrow> reg_answer"

definition reims_vgpu_mmio_gfx_read :: "(u64 \<Rightarrow> nat \<Rightarrow> int \<times> u64) \<Rightarrow> mmio_state \<Rightarrow> u64 \<Rightarrow> nat \<Rightarrow> u64" where
  "reims_vgpu_mmio_gfx_read gfx_read s offset sz =
     (if rust_handle s = 0 then 0
      else let (rc, val) = gfx_read offset sz in if rc \<noteq> QEMU_OK then 0 else val)"

definition reims_vgpu_mmio_iosfc_read :: "(u64 \<Rightarrow> nat \<Rightarrow> int \<times> u64) \<Rightarrow> mmio_state \<Rightarrow> u64 \<Rightarrow> nat \<Rightarrow> u64" where
  "reims_vgpu_mmio_iosfc_read iosfc_read s offset sz =
     (if rust_handle s = 0 then 0
      else let (rc, val) = iosfc_read offset sz in if rc \<noteq> QEMU_OK then 0 else val)"

text \<open>The rest of a write once the Rust device has the register value.\<close>

definition after_register_write :: "reg_answer \<Rightarrow> gpu \<Rightarrow> gpu option" where
  "after_register_write ans g =
     (case g of (h, d, s) \<Rightarrow>
       (case dirty_run (rg_events ans) (h, d) of
          None \<Rightarrow> None
        | Some (h', d') \<Rightarrow>
            if rg_rc ans \<noteq> QEMU_OK then Some (h', d', s)
            else map_option (\<lambda>s'. (h', d', s')) (reims_vgpu_mmio_deliver_actions s (rg_actions ans))))"

definition reims_vgpu_mmio_gfx_write :: "rust_write \<Rightarrow> gpu \<Rightarrow> u64 \<Rightarrow> u64 \<Rightarrow> nat \<Rightarrow> gpu option" where
  "reims_vgpu_mmio_gfx_write gfx_write g offset data sz =
     (case g of (h, d, s) \<Rightarrow>
       if rust_handle s = 0 then Some g
       else case reims_vgpu_dirty_harvest h d of
         None \<Rightarrow> None
       | Some (h', d') \<Rightarrow> after_register_write (gfx_write (h', d') offset data sz) (h', d', s))"

definition reims_vgpu_mmio_iosfc_write :: "rust_write \<Rightarrow> gpu \<Rightarrow> u64 \<Rightarrow> u64 \<Rightarrow> nat \<Rightarrow> gpu option" where
  "reims_vgpu_mmio_iosfc_write iosfc_write g offset data sz =
     (case g of (h, d, s) \<Rightarrow>
       if rust_handle s = 0 then Some g
       else case reims_vgpu_dirty_harvest h d of
         None \<Rightarrow> None
       | Some (h', d') \<Rightarrow> after_register_write (iosfc_write (h', d') offset data sz) (h', d', s))"

text \<open>The tracker is freed after the Rust device, and the views after that.\<close>

definition reims_vgpu_mmio_unrealize :: "gpu \<Rightarrow> dirty_host \<times> mmio_state" where
  "reims_vgpu_mmio_unrealize g =
     (case g of (h, d, s) \<Rightarrow>
       let s1 = (if rust_handle s \<noteq> 0 then (emit DeviceDestroy (emit WindowStop s))\<lparr>rust_handle := 0\<rparr> else s);
           h1 = reims_vgpu_dirty_free h d;
           s2 = s1\<lparr>dev_pages := reims_vgpu_mmio_free_page_views (dev_pages s1)\<rparr>;
           s3 = (if con s2 then emit ClearSurface s2 else s2)
       in (h1, s3\<lparr>surface := None\<rparr>))"

section \<open>A harvest fails no assertion\<close>

text \<open>RAM ranges in order and inside their blocks, and no tracked page across the end of one.\<close>

definition tracker_fits :: "dirty_host \<Rightarrow> ReimsVgpuDirty \<Rightarrow> bool" where
  "tracker_fits h d \<longleftrightarrow> slices_fit h (reims_vgpu_dirty_ram_slices h) \<and>
     (\<forall>(t, s)\<in>set (d_sets d). \<forall>p\<in>set (ds_pages s). reims_vgpu_dirty_slice_of (reims_vgpu_dirty_ram_slices h) p \<noteq> None \<longrightarrow>
        page_fits (reims_vgpu_dirty_ram_slices h) (p, ds_page_size s))"

text \<open>Ranges that differ in their flags only.\<close>

definition same_ranges :: "ReimsVgpuDirtySlice list \<Rightarrow> ReimsVgpuDirtySlice list \<Rightarrow> bool" where
  "same_ranges xs ys = list_all2 (\<lambda>x y. sl_gpa x = sl_gpa y \<and> sl_len x = sl_len y \<and> sl_mr x = sl_mr y \<and>
     sl_offset x = sl_offset y \<and> sl_ram_addr x = sl_ram_addr y) xs ys"

lemma same_ranges_slice_of: "same_ranges xs ys \<Longrightarrow> reims_vgpu_dirty_slice_of xs p = reims_vgpu_dirty_slice_of ys p"
  unfolding same_ranges_def by (induction rule: list_all2_induct) auto

lemma same_ranges_fit:
  assumes "same_ranges xs ys" "slices_fit h ys"
  shows "slices_fit h xs"
proof -
  note nth = assms(1) [unfolded same_ranges_def list_all2_conv_all_nth]
  show ?thesis using assms(2) nth unfolding slices_fit_def list_all_length sorted_wrt_iff_nth_less slice_fits_def by auto
qed

lemma same_ranges_page:
  assumes "same_ranges xs ys"
  shows "page_fits xs w = page_fits ys w"
proof (cases "reims_vgpu_dirty_slice_of ys (fst w)")
  case (Some i)
  then have "i < length ys" using slice_of_Some by blast
  then show ?thesis using Some assms same_ranges_slice_of [OF assms]
    by (simp add: page_fits_def same_ranges_def list_all2_conv_all_nth)
qed (simp add: page_fits_def same_ranges_slice_of [OF assms])

lemma harvest_total:
  assumes "tracker_fits h d"
  shows "\<exists>h' d'. reims_vgpu_dirty_harvest h d = Some (h', d')"
proof -
  let ?h = "memory_global_dirty_log_sync h" and ?rs = "reims_vgpu_dirty_ram_slices h" and ?hs = "harvest_slices h d"
  obtain d1 slices written where f: "harvest_fold ?h ?hs d = (d1, slices, written)" by (metis prod_cases3)
  have hs: "same_ranges ?hs ?rs" by (simp add: same_ranges_def harvest_slices_def list_all2_conv_all_nth)
  have rs: "same_ranges slices ?rs" using f
    by (auto simp: harvest_fold_def Let_def same_ranges_def harvest_slices_def list_all2_conv_all_nth)
  have "slices_fit ?h ?rs" using assms by (simp add: tracker_fits_def geometry_cong(1) [OF sync_simps(1)])
  then have fit: "slices_fit ?h slices" using same_ranges_fit [OF rs] by simp
  have "page_fits ?rs w" if "w \<in> set written" for w
  proof -
    from that f obtain t s p where w: "w = (p, ds_page_size s)" "(t, s) \<in> set (d_sets d)" "p \<in> set (ds_pages s)"
        "page_verdict ?h ?hs (ds_page_size s) p = Written"
      by (auto simp: harvest_fold_def Let_def set_written_def)
    have "reims_vgpu_dirty_slice_of ?rs p \<noteq> None"
      using w(4) same_ranges_slice_of [OF hs] by (auto simp: page_verdict_def split: option.split_asm)
    then show ?thesis using assms w(1-3) unfolding tracker_fits_def by fastforce
  qed
  then have "list_all (page_fits slices) written" by (simp add: list_all_iff same_ranges_page [OF rs])
  note clear = harvest_clear_bits [OF fit this]
  show ?thesis by (cases "harvest_enable slices (clear_bits ?h (byte_page ?h slices ` page_bytes slices written)) d1")
      (simp add: reims_vgpu_dirty_harvest_def Let_def f clear)
qed

text \<open>
  A write to a register window hands the Rust device a tracker that has just
  been harvested.
\<close>

lemma register_write_harvests:
  assumes "rust_handle s \<noteq> 0" "reims_vgpu_dirty_harvest h d = Some (h', d')"
  shows "reims_vgpu_mmio_gfx_write w (h, d, s) offset data sz = after_register_write (w (h', d') offset data sz) (h', d', s)"
    "reims_vgpu_mmio_iosfc_write w (h, d, s) offset data sz = after_register_write (w (h', d') offset data sz) (h', d', s)"
  using assms by (simp_all add: reims_vgpu_mmio_gfx_write_def reims_vgpu_mmio_iosfc_write_def)

text \<open>Calls of the Rust device to the tracker cannot fail; only a harvest can.\<close>

lemma run_without_harvest: "Harvest \<notin> set es \<Longrightarrow> \<exists>h' d'. dirty_run es (h, d) = Some (h', d')"
proof (induction es arbitrary: h d)
  case (Cons e es)
  then obtain h1 d1 where "dirty_do e (h, d) = Some (h1, d1)" by (cases e) auto
  then show ?case using Cons by simp
qed simp

lemma after_register_write_fine:
  assumes "console_ok s" "list_all act_ok (rg_actions ans)" "Harvest \<notin> set (rg_events ans)"
  shows "\<exists>h' d' s'. after_register_write ans (h, d, s) = Some (h', d', s') \<and> console_ok s'"
proof -
  obtain h' d' where r: "dirty_run (rg_events ans) (h, d) = Some (h', d')" using run_without_harvest [OF assms(3)] by blast
  obtain s' where "reims_vgpu_mmio_deliver_actions s (rg_actions ans) = Some s'" "console_ok s'"
    using actions_fine [OF assms(1,2)] by (auto simp: fine_def)
  then show ?thesis using assms(1) by (simp add: after_register_write_def r)
qed

text \<open>The end of the device: nothing of it is left mapped or shown.\<close>

lemma unrealize_releases:
  "page_views (dev_pages (snd (reims_vgpu_mmio_unrealize g))) = []" "surface (snd (reims_vgpu_mmio_unrealize g)) = None"
  "rust_handle (snd (reims_vgpu_mmio_unrealize g)) = 0"
  by (auto simp: reims_vgpu_mmio_unrealize_def Let_def emit_def reims_vgpu_mmio_free_page_views_def split: prod.split)

section \<open>A concrete device\<close>

lemma sample_doorbell:
  "dirty_run ([] @ [Guest_store 0x15008] @ [] @ [Gen 1]) (armed_view, armed_dirty) =
    Some (armed_view\<lparr>dh_log := (\<lambda>p. False)(5 := True)\<rparr>, armed_dirty\<lparr>d_reads_since_harvest := 1\<rparr>)"
  by (simp add: sample_stored reims_vgpu_dirty_gen_def armed_dirty_def)

lemma sample_tracker_fits:
  "tracker_fits (armed_view\<lparr>dh_log := (\<lambda>p. False)(5 := True)\<rparr>) (armed_dirty\<lparr>d_reads_since_harvest := 1\<rparr>)"
  by (simp add: tracker_fits_def slices_fit_def slice_fits_def page_fits_def armed_dirty_def armed_set_def armed_view_def sample_view_def
      dirty_eval)

end
