(* ===== verification/Spec2Isabelle.thy ===== *)
theory Spec2Isabelle
  imports Bdif Aes Machine Vgpu_Mmio
begin

text \<open>
  This development verifies the arm64 macOS machine of the tree, \<^verbatim>\<open>vmapple\<close>
  (\<^verbatim>\<open>src/qemu/hw/vmapple\<close>), together with the parts of QEMU its devices rest on
  and the C side of its paravirtual GPU (\<^verbatim>\<open>src/qemu/hw/display/reims-vgpu-*.c\<close>).

  \<^bold>\<open>The program.\<close>  The board creates CPUs, a GICv3 with a message frame, a
  configuration region, an AES engine, a backdoor device for disks and USB, a PCI bridge
  and a GPU, loads the firmware and resets the machine.  The firmware reads the
  configuration region, fetches disk blocks through the backdoor device, decrypts with
  the AES engine, and starts the other CPUs with PSCI calls, which first pass the
  vendor hypercalls.  The devices reach guest memory by DMA through the flat view
  of the system address space, and disks through a block backend.  The GPU device maps
  guest pages into the host, watches which of them the guest writes, and paints the
  console.

  \<^bold>\<open>Theories.\<close>

  \<^item> \<open>Prelude\<close>: fixed-width words, little-endian byte layouts, bit fields.

  \<^item> \<open>Guest_Memory\<close> (\<^verbatim>\<open>system/physmem.c\<close>, \<^verbatim>\<open>include/system/dma.h\<close>): address translation
  over a flat view and the read and write loops.  They are equal to a bytewise
  specification, and a write is read back.  The locale \<open>dma_bus\<close> is the contract that
  devices use, interpreted on the loops.

  \<^item> \<open>Block_Backend\<close> (\<^verbatim>\<open>block/block-backend.c\<close>, \<^verbatim>\<open>block/io.c\<close>): the request path with
  its checks; the locale \<open>blk_disk\<close> is its contract, interpreted on it.

  \<^item> \<open>Bdif\<close> (\<^verbatim>\<open>bdif.c\<close>): registers, block channels and the USB channel.  A block written is
  read back and a command touches only what it names (\<open>vblk_host\<close> joins the two
  contracts above); over every reachable state the receive buffer stays in bounds,
  and frames are delivered however they are cut into chunks.

  \<^item> \<open>Aes\<close> (\<^verbatim>\<open>aes.c\<close>): command FIFO, key and IV contexts, interrupt line.  Its
  invariant, what key and data commands do, that decryption undoes encryption, and that
  an unknown command blocks the engine for good.

  \<^item> \<open>Arm_Cpu\<close>, \<open>Powerctl\<close> (\<^verbatim>\<open>target/arm/cpu.c\<close>, \<^verbatim>\<open>arm-powerctl.c\<close>): the CPU state that
  power control changes, the requests and their queued work.  A history interleaves
  requests and work arbitrarily (\<open>power_step\<close>); no assertion fails in it.

  \<^item> \<open>Hvc\<close> (\<^verbatim>\<open>hvc.c\<close>, \<^verbatim>\<open>target/arm/smccc.c\<close>): the vendor calls, the exact effect of the
  device-tree rewrite, and the outcome of every call.

  \<^item> \<open>Psci\<close> (\<^verbatim>\<open>target/arm/tcg/psci.c\<close>): the firmware calls; no history of calls and work aborts
  the emulator, and secondaries get the pointer-authentication keys of the boot CPU.

  \<^item> \<open>Gicv2m\<close>, \<open>Cfg\<close>, \<open>Machine\<close> (\<^verbatim>\<open>hw/intc/arm_gicv2m.c\<close>, \<^verbatim>\<open>cfg.c\<close>, \<^verbatim>\<open>vmapple.c\<close>): the message
  frame, the configuration region, and the board: regions are disjoint, interrupt inputs
  are not shared and within range, errors of start-up, and the composition with CPU
  power control: the machine starts, a CPU_ON call on it boots any secondary, and no
  number of resets and calls aborts it.

  \<^item> \<open>Dirty\<close>, \<open>Dirty_Clear\<close> (\<^verbatim>\<open>reims-vgpu-dirty.c\<close>): page sets, generations and the harvest.  No
  store before a harvest is missed, the clear pass resets exactly the pages found
  written, and a store between its two passes is lost.

  \<^item> \<open>Vgpu_Ram\<close> (\<^verbatim>\<open>reims-vgpu-shim.c\<close>): the spans of RAM reported to the GPU are
  exactly the writable RAM at its host addresses.

  \<^item> \<open>Vgpu_Pages\<close>, \<open>Vgpu_Console\<close> (\<^verbatim>\<open>reims-vgpu-mmio.c\<close>): a mapped view shows the guest pages asked
  for; no history of mapping and unmapping leaks a view or unmaps guest RAM
  (\<open>page_step\<close>); no history of the console writes past a pixel buffer, the firmware
  framebuffer is mirrored, and reset leaves the boot surface.

  \<^item> \<open>Vgpu_Mmio\<close> (\<^verbatim>\<open>reims-vgpu-mmio.c\<close>): the register windows over the tracker and the console.  The
  theorem of this theory joins them: the Rust device handles a register write with a
  tracker that knows every store made before it.

  \<^bold>\<open>Conventions.\<close>  Device state is a record with the fields of the C structure, and a handler is a
  function on it.  Fixed-width integers are words where they can wrap; sizes and
  counters that cannot reach the width are natural numbers, and each theory says
  which.  A failed assertion or an access past a buffer is \<open>None\<close>; errors the code
  reports are values.  Loops are structural recursion or functions with a termination
  proof, so no fuel is used.  The one loop that may not end, the draw of distinct random
  identifiers in \<open>Hvc\<close>, is a partial function, and the theorem on reset shows
  when it ends.

  \<^bold>\<open>Parameters.\<close>  The cipher library, the format driver below the block backend, the
  randomness source, the answers of \<^verbatim>\<open>mmap\<close> and of the character device are
  arguments, with the hypotheses stated where they are used and met by the witnesses.  The
  answers of the Rust GPU device are arbitrary; only the geometry it names is
  bounded, in \<open>op_ok\<close>.

  \<^bold>\<open>Not modelled.\<close>  Guest instructions and accelerators: the CPU is the state that calls,
  power control and reset touch.  The GICv3 beyond its sizing and inputs, the serial,
  GPIO, clock and panic devices, PCI, USB, network and virtio devices, which are unmodified
  upstream code that the board only places and wires.  The vmapple virtio disks, a thin
  hook over generic virtio.  The Rust GPU device, whose behaviour lies in command decoding
  and host GPU drivers, its creation in realize, and the PCI variant of the GPU.  The Darwin branch of the page views.  Image formats,
  rendering of the memory topology, host I/O, migration and management, locks and
  tracing, and the rest of the QEMU tree, which this machine does not use.
\<close>

section \<open>Work handed to the GPU\<close>



end
